(* ===== verification/Relay_Prelude.thy ===== *)
theory Relay_Prelude
  imports "HOL-Library.Word" "HOL-Library.AList" "HOL-Library.Code_Target_Nat"
begin

unbundle bit_operations_syntax

text \<open>
  What the components of the relay share: the machine types, the big-endian
  byte helpers of the packet code, the saturating arithmetic of the counters
  and clocks, the map type that stands for \<^verbatim>\<open>DashMap\<close> and \<^verbatim>\<open>HashMap\<close>, and
  the part of \<^verbatim>\<open>str\<close> the configuration code uses.

  A byte is an \<open>8 word\<close>, a packet or frame a list of them.  A Rust \<^verbatim>\<open>&str\<close> is a
  \<open>string\<close> whose characters are the bytes of its UTF-8 encoding, so that
  \<open>length\<close> is \<^verbatim>\<open>str::len\<close>.  An \<^verbatim>\<open>Instant\<close> is a number of nanoseconds and an
  unsigned 64-bit clock or limit a natural number, with saturation written out
  where the source saturates.
\<close>

named_theorems dm_simps \<open>laws of the map operations\<close>
named_theorems be_simps \<open>big-endian bytes of 16-bit fields\<close>
named_theorems frame_simps \<open>fields an operation leaves alone\<close>

type_synonym u8 = "8 word"
type_synonym u16 = "16 word"
type_synonym u32 = "32 word"
type_synonym u64 = "64 word"
type_synonym bytes = "u8 list"
type_synonym session_id = "u8 list"
type_synonym instant = nat

section \<open>Clocks and saturating arithmetic\<close>

definition u64_max :: nat where
  "u64_max = 2 ^ 64 - 1"

definition sat_add64 :: "nat \<Rightarrow> nat \<Rightarrow> nat" where
  "sat_add64 a b = min (a + b) u64_max"

definition duration_secs :: "nat \<Rightarrow> nat" where
  "duration_secs s = s * 1000000000"

definition duration_millis :: "nat \<Rightarrow> nat" where
  "duration_millis ms = ms * 1000000"

definition saturating_duration_since :: "instant \<Rightarrow> instant \<Rightarrow> nat" where
  "saturating_duration_since now earlier = now - earlier"

lemma sat_add64_le: "a + b \<le> u64_max \<Longrightarrow> sat_add64 a b = a + b"
  by (simp add: sat_add64_def)

lemma sat_add64_ge_left: "a \<le> u64_max \<Longrightarrow> a \<le> sat_add64 a b"
  by (simp add: sat_add64_def)

lemma sat_add64_mono: "a \<le> a' \<Longrightarrow> sat_add64 a b \<le> sat_add64 a' b"
  by (simp add: sat_add64_def)

lemma sat_add64_bound: "sat_add64 a b \<le> u64_max"
  by (simp add: sat_add64_def)

section \<open>Big-endian 16-bit fields\<close>

definition be16 :: "u8 \<Rightarrow> u8 \<Rightarrow> u16" where
  "be16 a b = push_bit 8 (ucast a) OR ucast b"

definition hi8 :: "u16 \<Rightarrow> u8" where
  "hi8 w = ucast (drop_bit 8 w)"

definition lo8 :: "u16 \<Rightarrow> u8" where
  "lo8 w = ucast (w AND 0xFF)"

definition len_hi8 :: "nat \<Rightarrow> u8" where
  "len_hi8 n = of_nat (n div 256 mod 256)"

definition len_lo8 :: "nat \<Rightarrow> u8" where
  "len_lo8 n = of_nat (n mod 256)"

lemma unat_u8_lt: "unat (b :: u8) < 256"
proof -
  have "unat b < 2 ^ LENGTH(8)" by (rule unsigned_less)
  then show ?thesis by simp
qed

lemma unat_u16_lt: "unat (b :: u16) < 65536"
proof -
  have "unat b < 2 ^ LENGTH(16)" by (rule unsigned_less)
  then show ?thesis by simp
qed

lemma be16_bit: "bit (be16 a b) n \<longleftrightarrow> (if n < 8 then bit b n else bit a (n - 8))"
  by (auto simp: be16_def bit_or_iff bit_push_bit_iff bit_ucast_iff
      dest: bit_imp_le_length)

lemma hi8_be16 [simp, be_simps]: "hi8 (be16 a b) = a"
  by (rule bit_word_eqI) (simp add: hi8_def bit_ucast_iff bit_drop_bit_eq be16_bit)

lemma lo8_be16 [simp, be_simps]: "lo8 (be16 a b) = b"
proof (rule bit_word_eqI)
  fix n assume n: "n < LENGTH(8)"
  have m: "(0xFF :: u16) = mask 8" by (simp add: mask_eq_exp_minus_1)
  show "bit (lo8 (be16 a b)) n = bit b n"
    using n by (simp add: lo8_def m bit_ucast_iff bit_and_iff be16_bit bit_mask_iff)
qed

lemma unat_be16 [be_simps]: "unat (be16 a b) = 256 * unat a + unat b"
proof -
  have disj: "(push_bit 8 (ucast a) :: u16) AND ucast b = 0"
    by (rule bit_word_eqI) (auto simp: bit_and_iff bit_push_bit_iff bit_ucast_iff
        dest: bit_imp_le_length)
  have "be16 a b = push_bit 8 (ucast a) + ucast b"
    unfolding be16_def using disj by (simp add: disjunctive_add_eq_or)
  moreover have "push_bit 8 (ucast a :: u16) = of_nat (256 * unat a)"
    by (simp add: push_bit_eq_mult)
  moreover have "(ucast b :: u16) = of_nat (unat b)" by simp
  ultimately have "be16 a b = (of_nat (256 * unat a + unat b) :: u16)"
    by (simp only: of_nat_add)
  moreover have "256 * unat a + unat b < 2 ^ LENGTH(16)"
    using unat_u8_lt [of a] unat_u8_lt [of b] by simp
  ultimately show ?thesis by (simp only: unat_of_nat mod_less)
qed

lemma be16_hi_lo [simp, be_simps]: "be16 (hi8 w) (lo8 w) = w"
proof (rule bit_word_eqI)
  fix n assume n: "n < LENGTH(16)"
  have m: "(0xFF :: u16) = mask 8" by (simp add: mask_eq_exp_minus_1)
  show "bit (be16 (hi8 w) (lo8 w)) n = bit w n"
    using n by (auto simp: be16_bit hi8_def lo8_def m bit_ucast_iff bit_and_iff bit_mask_iff
        bit_drop_bit_eq)
qed

lemma unat_len_hi8: "unat (len_hi8 n) = n div 256 mod 256"
  by (simp add: len_hi8_def unat_of_nat)

lemma unat_len_lo8: "unat (len_lo8 n) = n mod 256"
  by (simp add: len_lo8_def unat_of_nat)

lemma unat_be16_len [be_simps]:
  "n < 65536 \<Longrightarrow> unat (be16 (len_hi8 n) (len_lo8 n)) = n"
  by (simp add: unat_be16 unat_len_hi8 unat_len_lo8)

section \<open>Maps\<close>

text \<open>
  \<^verbatim>\<open>DashMap\<close> and \<^verbatim>\<open>HashMap\<close> are association lists with distinct keys.  The
  order of the list is the order in which one \<^verbatim>\<open>retain\<close> or \<^verbatim>\<open>iter\<close> visits
  the entries; no theorem depends on it.
\<close>

type_synonym ('k, 'v) dmap = "('k \<times> 'v) list"

definition dm_ok :: "('k, 'v) dmap \<Rightarrow> bool" where
  "dm_ok m \<longleftrightarrow> distinct (map fst m)"

definition dm_get :: "('k, 'v) dmap \<Rightarrow> 'k \<Rightarrow> 'v option" where
  "dm_get m k = map_of m k"

definition dm_contains :: "('k, 'v) dmap \<Rightarrow> 'k \<Rightarrow> bool" where
  "dm_contains m k \<longleftrightarrow> map_of m k \<noteq> None"

definition dm_insert :: "'k \<Rightarrow> 'v \<Rightarrow> ('k, 'v) dmap \<Rightarrow> ('k, 'v) dmap" where
  "dm_insert k v m = AList.update k v m"

definition dm_remove :: "'k \<Rightarrow> ('k, 'v) dmap \<Rightarrow> ('k, 'v) dmap" where
  "dm_remove k m = AList.delete k m"

definition dm_len :: "('k, 'v) dmap \<Rightarrow> nat" where
  "dm_len m = length m"

definition dm_retain :: "('k \<Rightarrow> 'v \<Rightarrow> bool) \<Rightarrow> ('k, 'v) dmap \<Rightarrow> ('k, 'v) dmap" where
  "dm_retain p m = filter (\<lambda>(k, v). p k v) m"

lemmas dm_defs = dm_ok_def dm_get_def dm_contains_def dm_insert_def dm_remove_def
  dm_len_def dm_retain_def


lemma dm_ok_Nil [simp, dm_simps]: "dm_ok []"
  by (simp add: dm_ok_def)

lemma dm_get_Nil [simp, dm_simps]: "dm_get [] k = None"
  by (simp add: dm_get_def)

lemma dm_ok_insert [simp, dm_simps]: "dm_ok m \<Longrightarrow> dm_ok (dm_insert k v m)"
  by (simp add: dm_ok_def dm_insert_def distinct_update)

lemma dm_ok_remove [simp, dm_simps]: "dm_ok m \<Longrightarrow> dm_ok (dm_remove k m)"
  by (simp add: dm_ok_def dm_remove_def distinct_delete)

lemma dm_ok_retain [simp, dm_simps]: "dm_ok m \<Longrightarrow> dm_ok (dm_retain p m)"
  by (simp add: dm_ok_def dm_retain_def distinct_map_filter)

lemma dm_get_insert [simp, dm_simps]:
  "dm_get (dm_insert k v m) k' = (if k' = k then Some v else dm_get m k')"
  by (simp add: dm_get_def dm_insert_def update_conv)

lemma dm_get_remove [simp, dm_simps]:
  "dm_get (dm_remove k m) k' = (if k' = k then None else dm_get m k')"
  by (simp add: dm_get_def dm_remove_def delete_conv)

lemma dm_contains_get [dm_simps]: "dm_contains m k \<longleftrightarrow> dm_get m k \<noteq> None"
  by (simp add: dm_contains_def dm_get_def)

lemma dm_get_retain [simp, dm_simps]:
  "dm_ok m \<Longrightarrow> dm_get (dm_retain p m) k =
     (case dm_get m k of None \<Rightarrow> None | Some v \<Rightarrow> if p k v then Some v else None)"
proof (induction m)
  case Nil
  then show ?case by (simp add: dm_retain_def)
next
  case (Cons e m)
  obtain k0 v0 where e: "e = (k0, v0)" by (cases e)
  have ok: "dm_ok m" and fresh: "dm_get m k0 = None"
    using Cons.prems by (auto simp: e dm_ok_def dm_get_def map_of_eq_None_iff)
  have cons: "dm_get ((k0, v0) # xs) k' = (if k' = k0 then Some v0 else dm_get xs k')" for xs k'
    by (simp add: dm_get_def)
  have "dm_retain p ((k0, v0) # m) = (if p k0 v0 then (k0, v0) # dm_retain p m else dm_retain p m)"
    by (simp add: dm_retain_def)
  then show ?case using Cons.IH [OF ok] fresh by (auto simp: e cons)
qed

lemma dm_retain_subset: "set (dm_retain p m) \<subseteq> set m"
  by (auto simp: dm_retain_def)

lemma dm_get_in_set: "dm_ok m \<Longrightarrow> (k, v) \<in> set m \<longleftrightarrow> dm_get m k = Some v"
  by (simp add: dm_ok_def dm_get_def map_of_eq_Some_iff)

text \<open>
  The contract the tables of the relay rely on: what a lookup returns after an
  insertion or a removal, and that the length is the number of keys.
\<close>

locale map_store =
  fixes empty :: 'm
    and lookup :: "'m \<Rightarrow> 'k \<Rightarrow> 'v option"
    and insert_entry :: "'k \<Rightarrow> 'v \<Rightarrow> 'm \<Rightarrow> 'm"
    and remove_entry :: "'k \<Rightarrow> 'm \<Rightarrow> 'm"
    and entries :: "'m \<Rightarrow> nat"
    and ok :: "'m \<Rightarrow> bool"
  assumes ok_empty: "ok empty"
    and lookup_empty: "lookup empty k = None"
    and ok_insert: "ok m \<Longrightarrow> ok (insert_entry k v m)"
    and ok_remove: "ok m \<Longrightarrow> ok (remove_entry k m)"
    and lookup_insert: "ok m \<Longrightarrow> lookup (insert_entry k v m) = (lookup m)(k := Some v)"
    and lookup_remove: "ok m \<Longrightarrow> lookup (remove_entry k m) = (lookup m)(k := None)"
    and finite_keys: "ok m \<Longrightarrow> finite (dom (lookup m))"
    and entries_card: "ok m \<Longrightarrow> entries m = card (dom (lookup m))"
begin

lemma entries_empty: "entries empty = 0"
  using ok_empty by (simp add: entries_card lookup_empty dom_def)

lemma entries_insert_new:
  "ok m \<Longrightarrow> lookup m k = None \<Longrightarrow> entries (insert_entry k v m) = Suc (entries m)"
  by (simp add: entries_card ok_insert lookup_insert finite_keys card_insert_if domIff)

lemma entries_insert_old:
  "ok m \<Longrightarrow> lookup m k = Some w \<Longrightarrow> entries (insert_entry k v m) = entries m"
  by (simp add: entries_card ok_insert lookup_insert finite_keys card_insert_if domIff)

lemma entries_remove:
  assumes "ok m" and "lookup m k = Some w"
  shows "Suc (entries (remove_entry k m)) = entries m"
proof -
  have "k \<in> dom (lookup m)" using assms(2) by (simp add: domIff)
  then show ?thesis
    using assms(1) card_Suc_Diff1 [OF finite_keys [OF assms(1)], of k]
    by (simp add: entries_card ok_remove lookup_remove)
qed

lemma entries_remove_le: "ok m \<Longrightarrow> entries (remove_entry k m) \<le> entries m"
  by (simp add: entries_card ok_remove lookup_remove finite_keys card_mono)

text \<open>An insertion guarded by a capacity test keeps the table within the capacity.\<close>

lemma capped_insert:
  assumes "ok m" and "entries m \<le> cap" and "lookup m k = None \<Longrightarrow> entries m < cap"
  shows "entries (insert_entry k v m) \<le> cap"
  using assms by (cases "lookup m k") (auto simp: entries_insert_new entries_insert_old)

end

lemma dm_get_map_of: "dm_get m = map_of m"
  by (simp add: fun_eq_iff dm_get_def)

lemma dm_len_card: "dm_ok m \<Longrightarrow> dm_len m = card (dom (dm_get m))"
  using distinct_card [of "map fst m"]
  by (simp add: dm_ok_def dm_len_def dm_get_map_of dom_map_of_conv_image_fst)

interpretation dm: map_store "[]" dm_get dm_insert dm_remove dm_len dm_ok
  by unfold_locales (auto simp: dm_len_card dm_get_map_of finite_dom_map_of
      dm_ok_def dm_insert_def dm_remove_def update_conv' delete_conv' distinct_update
      distinct_delete)

lemma dm_len_retain_le: "dm_len (dm_retain p m) \<le> dm_len m"
  by (simp add: dm_len_def dm_retain_def)

subsection \<open>Sums over a map\<close>

definition dm_sum :: "('v \<Rightarrow> 'n::comm_monoid_add) \<Rightarrow> ('k, 'v) dmap \<Rightarrow> 'n" where
  "dm_sum f m = sum_list (map (\<lambda>(k, v). f v) m)"

lemma dm_sum_Nil [simp]: "dm_sum f [] = 0"
  by (simp add: dm_sum_def)

lemma dm_sum_Cons: "dm_sum f ((k, v) # m) = f v + dm_sum f m"
  by (simp add: dm_sum_def)

lemma dm_sum_insert_new:
  "dm_get m k = None \<Longrightarrow> dm_sum f (dm_insert k v m) = dm_sum f m + f v"
  by (induction m) (auto simp: dm_sum_def dm_get_def dm_insert_def ac_simps split: if_splits)

lemma dm_sum_insert_old:
  "dm_get m k = Some w \<Longrightarrow> dm_sum f (dm_insert k v m) + f w = dm_sum f m + f v"
  by (induction m) (auto simp: dm_sum_def dm_get_def dm_insert_def ac_simps split: if_splits)

lemma dm_remove_absent: "dm_get m k = None \<Longrightarrow> dm_remove k m = m"
  by (simp add: dm_get_def dm_remove_def map_of_eq_None_iff delete_id)

lemma dm_sum_remove:
  "dm_ok m \<Longrightarrow> dm_get m k = Some w \<Longrightarrow> dm_sum f (dm_remove k m) + f w = dm_sum f m"
proof (induction m)
  case Nil
  then show ?case by simp
next
  case (Cons e m)
  obtain k0 v0 where e: "e = (k0, v0)" by (cases e)
  have ok: "dm_ok m" and fresh: "dm_get m k0 = None"
    using Cons.prems by (auto simp: e dm_ok_def dm_get_def map_of_eq_None_iff)
  have del: "dm_remove k ((k0, v0) # m) = (if k = k0 then m else (k0, v0) # dm_remove k m)"
    using dm_remove_absent [OF fresh] by (simp add: dm_remove_def)
  have get: "dm_get ((k0, v0) # m) k = (if k = k0 then Some v0 else dm_get m k)"
    by (simp add: dm_get_def)
  show ?case
    using Cons.prems(2) Cons.IH [OF ok] by (simp add: e del get dm_sum_Cons ac_simps split: if_splits)
qed

lemma dm_sum_retain_split:
  "dm_sum f (dm_retain p m) + dm_sum f (dm_retain (\<lambda>k v. \<not> p k v) m) = dm_sum f m"
  by (induction m) (auto simp: dm_sum_def dm_retain_def ac_simps)

lemma dm_sum_member_le:
  fixes f :: "'v \<Rightarrow> nat"
  shows "dm_get m k = Some v \<Longrightarrow> f v \<le> dm_sum f m"
  by (induction m) (auto simp: dm_sum_def dm_get_def split: if_splits)

end
