(* ===== verification/Float64.thy ===== *)
theory Float64
  imports Complex_Main "HOL-Library.Log_Nat" Relay_Prelude
begin

text \<open>
  The double-precision arithmetic the rate sample of the statistics server uses
  (\<^verbatim>\<open>sample_stats_rates\<close> in \<^verbatim>\<open>src/src/main.rs\<close>).  A non-negative double is the rational it stands
  for, and every operation rounds the exact result to 53 significant bits, ties to even.
  The operands here lie between a billionth and \<open>2 ^ 64\<close>, far inside the range of the
  exponent, so neither overflow nor subnormal numbers occur.
\<close>

section \<open>Definitions\<close>

text \<open>The exponent of a positive rational: \<open>2 powi e \<le> x < 2 powi (e + 1)\<close>.\<close>

definition rat_exp :: "rat \<Rightarrow> int" where
  "rat_exp x =
     (let (p, q) = quotient_of x;
          e = int (floorlog 2 (nat p)) - int (floorlog 2 (nat q))
      in if 2 powi e \<le> x then e else e - 1)"

definition round_even :: "rat \<Rightarrow> int" where
  "round_even y =
     (let f = \<lfloor>y\<rfloor>; d = y - of_int f
      in if d < 1 / 2 then f else if 1 / 2 < d then f + 1 else if even f then f else f + 1)"

definition f64 :: "rat \<Rightarrow> rat" where
  "f64 x = (if x = 0 then 0 else let u = 2 powi (rat_exp x - 52) in of_int (round_even (x / u)) * u)"

text \<open>\<^verbatim>\<open>Duration::as_secs_f64\<close> of a number of nanoseconds.\<close>

definition as_secs_f64 :: "nat \<Rightarrow> rat" where
  "as_secs_f64 d = f64 (f64 (of_nat (d div 1000000000)) + f64 (f64 (of_nat (d mod 1000000000)) / 1000000000))"

text \<open>\<^verbatim>\<open>f64::round\<close>, halves away from zero, and the saturating cast to \<^verbatim>\<open>u64\<close>.\<close>

definition round_to_u64 :: "rat \<Rightarrow> nat" where
  "round_to_u64 x = min (nat \<lfloor>x + 1 / 2\<rfloor>) u64_max"

text \<open>\<^verbatim>\<open>(delta as f64 / elapsed_secs).round() as u64\<close>\<close>

definition rate_f64 :: "nat \<Rightarrow> nat \<Rightarrow> nat" where
  "rate_f64 delta elapsed = round_to_u64 (f64 (f64 (of_nat delta) / as_secs_f64 elapsed))"

section \<open>Rounding error\<close>

lemma rat_exp_le:
  assumes "0 < x"
  shows "2 powi (rat_exp x) \<le> x"
proof -
  obtain p q where pq: "quotient_of x = (p, q)" by (cases "quotient_of x")
  have q: "0 < q" using quotient_of_denom_pos [OF pq] .
  have x: "x = of_int p / of_int q" using quotient_of_div [OF pq] .
  have p: "0 < p" using assms q x by (simp add: zero_less_divide_iff)
  define a b where "a = floorlog 2 (nat p)" and "b = floorlog 2 (nat q)"
  have a: "2 ^ (a - 1) \<le> nat p" "0 < a" using floorlog_bounds [of "nat p" 2] p by (simp_all add: a_def floorlog_def)
  have b: "nat q < 2 ^ b" using floorlog_bounds [of "nat q" 2] q by (simp add: b_def)
  have "2 powi (int a - int b - 1) \<le> x"
  proof -
    have "2 powi (int a - int b - 1) = (2 :: rat) ^ (a - 1) / 2 ^ b"
      using a(2) by (simp add: power_int_diff power_diff)
    also have "\<dots> \<le> of_nat (nat p) / of_nat (nat q)"
    proof (rule frac_le)
      show "(2 :: rat) ^ (a - 1) \<le> of_nat (nat p)" using a(1) by (metis of_nat_le_iff of_nat_numeral of_nat_power)
      show "of_nat (nat q) \<le> (2 :: rat) ^ b" using b by (metis less_imp_le of_nat_le_iff of_nat_numeral of_nat_power)
    qed (use q in simp_all)
    finally show ?thesis using p q by (simp add: x)
  qed
  then show ?thesis by (simp add: rat_exp_def pq Let_def a_def b_def)
qed

lemma round_even_near: "\<bar>of_int (round_even y) - y\<bar> \<le> 1 / 2"
proof -
  have "of_int \<lfloor>y\<rfloor> \<le> y" "y < of_int \<lfloor>y\<rfloor> + 1" by linarith+
  then show ?thesis by (auto simp: round_even_def Let_def abs_le_iff)
qed

text \<open>A value known up to a factor.\<close>

definition near :: "rat \<Rightarrow> rat \<Rightarrow> rat \<Rightarrow> bool" where
  "near c x y \<longleftrightarrow> x \<le> y * c \<and> y \<le> x * c"

abbreviation one_ulp :: rat where
  "one_ulp \<equiv> 1 + 1 / 2 ^ 52"

lemma f64_near:
  assumes "0 \<le> x"
  shows "near one_ulp x (f64 x)"
proof (cases "x = 0")
  case True
  then show ?thesis by (simp add: near_def f64_def)
next
  case False
  then have pos: "0 < x" using assms by simp
  define u :: rat where "u = 2 powi (rat_exp x - 52)"
  have u: "0 < u" "u * 2 ^ 52 \<le> x"
    using rat_exp_le [OF pos] by (simp_all add: u_def power_int_diff)
  have f: "f64 x = of_int (round_even (x / u)) * u" using False by (simp add: f64_def u_def Let_def)
  have "f64 x - x = (of_int (round_even (x / u)) - x / u) * u" using u(1) by (simp add: f left_diff_distrib)
  then have "\<bar>f64 x - x\<bar> = \<bar>of_int (round_even (x / u)) - x / u\<bar> * u" using u(1) by (simp add: abs_mult)
  also have "\<dots> \<le> 1 / 2 * u" using round_even_near u(1) by (intro mult_right_mono) auto
  finally have "\<bar>f64 x - x\<bar> \<le> x / 2 ^ 53" using u(2) by simp
  then have "f64 x - x \<le> x / 2 ^ 53" "x - f64 x \<le> x / 2 ^ 53" by linarith+
  then show ?thesis using pos by (simp add: near_def)
qed

lemma near_trans: "near c x y \<Longrightarrow> near d y z \<Longrightarrow> 0 \<le> c \<Longrightarrow> 0 \<le> d \<Longrightarrow> near (c * d) x z"
proof -
  assume a: "near c x y" "near d y z" "0 \<le> c" "0 \<le> d"
  then have "x \<le> y * c" "y * c \<le> z * d * c" "z \<le> y * d" "y * d \<le> x * c * d"
    by (auto simp: near_def intro: mult_right_mono)
  then show ?thesis by (simp add: near_def mult_ac)
qed

lemma near_add: "near c x y \<Longrightarrow> near c u v \<Longrightarrow> near c (x + u) (y + v)"
  by (simp add: near_def distrib_right add_mono)

lemma near_widen: "near c x y \<Longrightarrow> c \<le> d \<Longrightarrow> 0 \<le> x \<Longrightarrow> 0 \<le> y \<Longrightarrow> near d x y"
  by (auto simp: near_def intro: order_trans mult_left_mono)

lemma near_divide:
  assumes "near c x y" "near d u v" "0 \<le> x" "0 \<le> y" "0 < u" "0 < v" "0 < c" "0 < d"
  shows "near (c * d) (x / u) (y / v)"
proof -
  have "x / u \<le> y * c / u" "1 / u \<le> d / v" "y / v \<le> x * c / v" "1 / v \<le> d / u"
    using assms by (auto simp: near_def divide_right_mono field_simps)
  moreover have "y * c * (1 / u) \<le> y * c * (d / v)" "x * c * (1 / v) \<le> x * c * (d / u)"
    using calculation assms(3,4,7) by (simp_all only: mult_left_mono mult_nonneg_nonneg less_imp_le)
  ultimately show ?thesis by (simp add: near_def mult_ac)
qed

lemma near_nonneg: "near c x y \<Longrightarrow> 0 \<le> x \<Longrightarrow> 0 < c \<Longrightarrow> 0 \<le> y"
  using mult_neg_pos [of y c] by (force simp: near_def)

lemma near_pos: "near c x y \<Longrightarrow> 0 < x \<Longrightarrow> 0 < c \<Longrightarrow> 0 < y"
  by (auto simp: near_def intro: zero_less_mult_pos2 less_le_trans)

lemma f64_nonneg: "0 \<le> x \<Longrightarrow> 0 \<le> f64 x"
  using f64_near [of x] by (simp add: near_def)

section \<open>The rate is right\<close>

lemma ulp_powers: "one_ulp ^ 5 \<le> 1 + 1 / 2 ^ 49"
  by (simp add: power_divide) 

lemma as_secs_f64_near: "near (one_ulp ^ 3) (of_nat d / 1000000000) (as_secs_f64 d)"
proof -
  define s n :: rat where "s = of_nat (d div 1000000000)" and "n = of_nat (d mod 1000000000)"
  have d: "of_nat d / 1000000000 = s + n / 1000000000"
  proof -
    have "d = d div 1000000000 * 1000000000 + d mod 1000000000" by simp
    then have "(of_nat d :: rat) = s * 1000000000 + n" unfolding s_def n_def by (metis of_nat_add of_nat_mult of_nat_numeral)
    then show ?thesis by simp
  qed
  have nn: "0 \<le> s" "0 \<le> n" by (simp_all add: s_def n_def)
  have "near (one_ulp * 1) (n / 1000000000) (f64 n / 1000000000)"
    using f64_near [OF nn(2)] by (simp add: near_def)
  then have "near (one_ulp * 1 * one_ulp) (n / 1000000000) (f64 (f64 n / 1000000000))"
    by (rule near_trans) (use f64_near f64_nonneg nn in auto)
  moreover have "near (one_ulp * 1 * one_ulp) s (f64 s)"
    by (rule near_widen [OF f64_near [OF nn(1)]]) (use f64_nonneg nn in auto)
  ultimately have "near (one_ulp * 1 * one_ulp) (s + n / 1000000000) (f64 s + f64 (f64 n / 1000000000))"
    by (intro near_add)
  then have "near (one_ulp * 1 * one_ulp * one_ulp) (s + n / 1000000000) (f64 (f64 s + f64 (f64 n / 1000000000)))"
    by (rule near_trans) (use f64_near f64_nonneg nn in auto)
  then show ?thesis unfolding d by (simp add: as_secs_f64_def s_def n_def power3_eq_cube)
qed

lemma rate_f64_near:
  assumes "0 < elapsed"
  shows "near (one_ulp ^ 5) (of_nat delta * 1000000000 / of_nat elapsed) (f64 (f64 (of_nat delta) / as_secs_f64 elapsed))"
proof -
  let ?t = "of_nat elapsed / 1000000000 :: rat"
  have t: "0 < ?t" using assms by simp
  have w: "near (one_ulp ^ 3) ?t (as_secs_f64 elapsed)" by (rule as_secs_f64_near)
  then have pos: "0 < as_secs_f64 elapsed" by (rule near_pos) (use t in simp_all)
  have "near (one_ulp * one_ulp ^ 3) (of_nat delta / ?t) (f64 (of_nat delta) / as_secs_f64 elapsed)"
    by (rule near_divide [OF f64_near w]) (use t pos f64_nonneg in auto)
  then have "near (one_ulp * one_ulp ^ 3 * one_ulp) (of_nat delta / ?t) (f64 (f64 (of_nat delta) / as_secs_f64 elapsed))"
    by (rule near_trans) (use f64_near f64_nonneg pos in auto)
  then show ?thesis by (simp add: eval_nat_numeral mult_ac)
qed

lemma rate_f64_accurate:
  assumes "1000000000 \<le> elapsed" "delta < 2 ^ 48"
  shows "\<bar>of_nat (rate_f64 delta elapsed) - of_nat delta * 1000000000 / of_nat elapsed\<bar> \<le> (1 :: rat)"
proof -
  define x where "x = (of_nat delta * 1000000000 / of_nat elapsed :: rat)"
  define q where "q = f64 (f64 (of_nat delta) / as_secs_f64 elapsed)"
  have "(of_nat delta :: rat) < 2 ^ 48" using assms(2) by (metis of_nat_less_iff of_nat_numeral of_nat_power)
  moreover have "x \<le> of_nat delta" using assms(1) by (simp add: x_def divide_le_eq mult_left_mono del: of_nat_mult)
  ultimately have x: "0 \<le> x" "x < 2 ^ 48" by (simp_all add: x_def)
  have near: "near (one_ulp ^ 5) x q" unfolding x_def q_def by (rule rate_f64_near) (use assms(1) in simp)
  then have "0 \<le> q" by (rule near_nonneg) (use x in simp_all)
  then have "near (1 + 1 / 2 ^ 49) x q" using near_widen [OF near ulp_powers x(1)] by simp
  then have q: "0 \<le> q" "q \<le> x + 1 / 2" "x \<le> q + 1 / 2" using x \<open>0 \<le> q\<close> by (simp_all add: near_def)
  have "rate_f64 delta elapsed = nat \<lfloor>q + 1 / 2\<rfloor>"
    using q(2) x(2) unfolding rate_f64_def round_to_u64_def q_def [symmetric] by (simp add: u64_max_def) linarith
  then have "of_nat (rate_f64 delta elapsed) = (of_int \<lfloor>q + 1 / 2\<rfloor> :: rat)" using q(1) by simp
  moreover have "of_int \<lfloor>q + 1 / 2\<rfloor> \<le> q + 1 / 2" "q - 1 / 2 \<le> of_int \<lfloor>q + 1 / 2\<rfloor>" by linarith+
  ultimately show ?thesis using q(2,3) unfolding x_def [symmetric] by linarith
qed

end
