(* ===== verification/Net_Addr.thy ===== *)
theory Net_Addr
  imports Rust_Str
begin

unbundle bit_operations_syntax

text \<open>
  Addresses, and the destination filter of \<^verbatim>\<open>src/src/main.rs\<close>: the address
  classes the relay never forwards to (\<^verbatim>\<open>is_forbidden_dst\<close>) and the UDP
  reflector ports (\<^verbatim>\<open>is_forbidden_dst_port\<close>).
\<close>

section \<open>Addresses\<close>

datatype ipv4 = Ipv4 u8 u8 u8 u8

fun octets :: "ipv4 \<Rightarrow> bytes" where
  "octets (Ipv4 a b c d) = [a, b, c, d]"

datatype ip_addr = IpV4 ipv4 | IpV6 "128 word"

datatype sock_addr = SockV4 ipv4 u16 | SockV6 "128 word" u16 u32 u32

fun sock_ip :: "sock_addr \<Rightarrow> ip_addr" where
  "sock_ip (SockV4 ip _) = IpV4 ip"
| "sock_ip (SockV6 ip _ _ _) = IpV6 ip"

fun sock_port :: "sock_addr \<Rightarrow> u16" where
  "sock_port (SockV4 _ p) = p"
| "sock_port (SockV6 _ p _ _) = p"

definition ipv4_val :: "ipv4 \<Rightarrow> nat" where
  "ipv4_val ip = from_be_bytes (octets ip)"

text \<open>\<^verbatim>\<open>u32::from(ip)\<close> and \<^verbatim>\<open>Ipv4Addr::from(u32)\<close>\<close>

definition u32_of_ipv4 :: "ipv4 \<Rightarrow> u32" where
  "u32_of_ipv4 ip = of_nat (ipv4_val ip)"

definition ipv4_of_u32 :: "u32 \<Rightarrow> ipv4" where
  "ipv4_of_u32 w =
     Ipv4 (ucast (drop_bit 24 w)) (ucast (drop_bit 16 w)) (ucast (drop_bit 8 w)) (ucast w)"

lemma ipv4_val_simp:
  "ipv4_val (Ipv4 a b c d) = unat a * 16777216 + unat b * 65536 + unat c * 256 + unat d"
  by (simp add: ipv4_val_def)

lemma ipv4_val_bound: "ipv4_val ip < 2 ^ 32"
  using from_be_bytes_bound [of "octets ip"] by (cases ip) (simp add: ipv4_val_def)

lemma unat_u32_of_ipv4 [simp]: "unat (u32_of_ipv4 ip) = ipv4_val ip"
  using ipv4_val_bound [of ip] by (simp add: u32_of_ipv4_def unat_of_nat)

lemma ipv4_val_inj: "ipv4_val a = ipv4_val b \<Longrightarrow> a = b"
  using from_be_bytes_inj [of "octets a" "octets b"]
  by (cases a; cases b) (auto simp: ipv4_val_def simp del: from_be_bytes.simps)

lemma u32_of_ipv4_inj: "u32_of_ipv4 a = u32_of_ipv4 b \<longleftrightarrow> a = b"
  using ipv4_val_inj unat_u32_of_ipv4 by metis

definition dotted :: "ipv4 \<Rightarrow> string" where
  "dotted ip = (case ip of Ipv4 a b c d \<Rightarrow>
     dec_str (unat a) @ ''.'' @ dec_str (unat b) @ ''.'' @ dec_str (unat c) @ ''.'' @ dec_str (unat d))"

text \<open>\<^verbatim>\<open>Ipv4Addr::from_str\<close>: four decimal octets without leading zeros.\<close>

definition parse_octet :: "string \<Rightarrow> u8 option" where
  "parse_octet s =
     (if s = [] \<or> 3 < length s \<or> (1 < length s \<and> hd s = CHR ''0'') then None
      else map_option of_nat (parse_digits 255 0 s))"

definition parse_ipv4 :: "string \<Rightarrow> ipv4 option" where
  "parse_ipv4 s =
     (case split_char (CHR ''.'') s of
        [a, b, c, d] \<Rightarrow>
          (case (parse_octet a, parse_octet b, parse_octet c, parse_octet d) of
             (Some w, Some x, Some y, Some z) \<Rightarrow> Some (Ipv4 w x y z)
           | _ \<Rightarrow> None)
      | _ \<Rightarrow> None)"

section \<open>Forbidden destinations\<close>

fun is_private :: "ipv4 \<Rightarrow> bool" where
  "is_private (Ipv4 a b c d) \<longleftrightarrow>
     a = 10 \<or> (a = 172 \<and> 16 \<le> b \<and> b \<le> 31) \<or> (a = 192 \<and> b = 168)"

fun is_loopback :: "ipv4 \<Rightarrow> bool" where
  "is_loopback (Ipv4 a b c d) \<longleftrightarrow> a = 127"

fun is_link_local :: "ipv4 \<Rightarrow> bool" where
  "is_link_local (Ipv4 a b c d) \<longleftrightarrow> a = 169 \<and> b = 254"

fun is_multicast :: "ipv4 \<Rightarrow> bool" where
  "is_multicast (Ipv4 a b c d) \<longleftrightarrow> 224 \<le> a \<and> a \<le> 239"

fun is_broadcast :: "ipv4 \<Rightarrow> bool" where
  "is_broadcast (Ipv4 a b c d) \<longleftrightarrow> a = 255 \<and> b = 255 \<and> c = 255 \<and> d = 255"

fun is_unspecified :: "ipv4 \<Rightarrow> bool" where
  "is_unspecified (Ipv4 a b c d) \<longleftrightarrow> a = 0 \<and> b = 0 \<and> c = 0 \<and> d = 0"

fun is_cgnat_ipv4 :: "ipv4 \<Rightarrow> bool" where
  "is_cgnat_ipv4 (Ipv4 a b c d) \<longleftrightarrow> a = 100 \<and> 64 \<le> b \<and> b \<le> 127"

fun is_reserved_ipv4 :: "ipv4 \<Rightarrow> bool" where
  "is_reserved_ipv4 (Ipv4 a b c d) \<longleftrightarrow> 240 \<le> a"

fun is_this_network_ipv4 :: "ipv4 \<Rightarrow> bool" where
  "is_this_network_ipv4 (Ipv4 a b c d) \<longleftrightarrow> a = 0"

definition is_forbidden_dst :: "ipv4 \<Rightarrow> bool" where
  "is_forbidden_dst ip \<longleftrightarrow>
     is_private ip \<or> is_loopback ip \<or> is_link_local ip \<or> is_multicast ip \<or> is_broadcast ip
     \<or> is_unspecified ip \<or> is_this_network_ipv4 ip \<or> is_reserved_ipv4 ip \<or> is_cgnat_ipv4 ip"

definition FORBIDDEN_DST_PORTS :: "u16 list" where
  "FORBIDDEN_DST_PORTS =
     [7, 17, 19, 53, 69, 111, 123, 137, 161, 162, 389, 520, 623, 1434, 1900, 3702, 5093, 5351,
      5353, 10001, 11211, 32414]"

definition is_forbidden_dst_port :: "u16 \<Rightarrow> bool" where
  "is_forbidden_dst_port port \<longleftrightarrow> port = 0 \<or> port \<in> set FORBIDDEN_DST_PORTS"

text \<open>
  The address classes as CIDR blocks: the first address of the block and its
  prefix length, in the order of the first addresses.
\<close>

definition forbidden_blocks :: "(nat \<times> nat) list" where
  "forbidden_blocks =
     [(0, 8), (10 * 2 ^ 24, 8), (100 * 2 ^ 24 + 64 * 2 ^ 16, 10), (127 * 2 ^ 24, 8),
      (169 * 2 ^ 24 + 254 * 2 ^ 16, 16), (172 * 2 ^ 24 + 16 * 2 ^ 16, 12),
      (192 * 2 ^ 24 + 168 * 2 ^ 16, 16), (224 * 2 ^ 24, 4), (240 * 2 ^ 24, 4)]"

definition in_block :: "nat \<Rightarrow> nat \<times> nat \<Rightarrow> bool" where
  "in_block v blk \<longleftrightarrow> fst blk \<le> v \<and> v < fst blk + 2 ^ (32 - snd blk)"

lemmas u8_nat_simps = word_unat_eq_iff word_le_nat_alt word_less_nat_alt

lemma is_forbidden_dst_unat:
  "is_forbidden_dst (Ipv4 a b c d) \<longleftrightarrow>
     unat a = 0 \<or> unat a = 10 \<or> (unat a = 100 \<and> 64 \<le> unat b \<and> unat b \<le> 127) \<or> unat a = 127
     \<or> (unat a = 169 \<and> unat b = 254) \<or> (unat a = 172 \<and> 16 \<le> unat b \<and> unat b \<le> 31)
     \<or> (unat a = 192 \<and> unat b = 168) \<or> 224 \<le> unat a"
proof -
  have "(224 \<le> unat a) = (224 \<le> unat a \<and> unat a \<le> 239 \<or> 240 \<le> unat a)" by linarith
  moreover have "unat a = 255 \<Longrightarrow> 240 \<le> unat a" by simp
  moreover have "is_forbidden_dst (Ipv4 a b c d) \<longleftrightarrow>
     (unat a = 10 \<or> (unat a = 172 \<and> 16 \<le> unat b \<and> unat b \<le> 31) \<or> (unat a = 192 \<and> unat b = 168))
     \<or> unat a = 127 \<or> (unat a = 169 \<and> unat b = 254) \<or> (224 \<le> unat a \<and> unat a \<le> 239)
     \<or> (unat a = 255 \<and> unat b = 255 \<and> unat c = 255 \<and> unat d = 255)
     \<or> (unat a = 0 \<and> unat b = 0 \<and> unat c = 0 \<and> unat d = 0) \<or> unat a = 0 \<or> 240 \<le> unat a
     \<or> (unat a = 100 \<and> 64 \<le> unat b \<and> unat b \<le> 127)"
    by (simp add: is_forbidden_dst_def u8_nat_simps)
  ultimately show ?thesis by blast
qed

lemma in_block_a:
  "r < 16777216 \<Longrightarrow> in_block (a * 16777216 + r) (x * 16777216, 8) \<longleftrightarrow> a = x"
  by (auto simp: in_block_def)

lemma in_block_ab:
  assumes "r < 65536" and "b < 256" and "y + n \<le> 256" and "2 ^ (32 - l) = n * 65536"
  shows "in_block (a * 16777216 + b * 65536 + r) (x * 16777216 + y * 65536, l)
     \<longleftrightarrow> a = x \<and> y \<le> b \<and> b < y + n"
proof
  assume "in_block (a * 16777216 + b * 65536 + r) (x * 16777216 + y * 65536, l)"
  then have lo: "x * 16777216 + y * 65536 \<le> a * 16777216 + b * 65536 + r"
    and hi: "a * 16777216 + b * 65536 + r < x * 16777216 + y * 65536 + n * 65536"
    using assms(4) by (simp_all add: in_block_def)
  have "a = x" using lo hi assms(1-3) by linarith
  then show "a = x \<and> y \<le> b \<and> b < y + n" using lo hi assms(1) by linarith
next
  assume "a = x \<and> y \<le> b \<and> b < y + n"
  then show "in_block (a * 16777216 + b * 65536 + r) (x * 16777216 + y * 65536, l)"
    using assms(1,4) by (simp add: in_block_def)
qed

lemma in_block_top:
  "r < 16777216 \<Longrightarrow> in_block (a * 16777216 + r) (x * 16777216, 4) \<longleftrightarrow> x \<le> a \<and> a < x + 16"
  by (auto simp: in_block_def)

lemma is_forbidden_dst_blocks:
  "is_forbidden_dst ip \<longleftrightarrow> (\<exists>blk \<in> set forbidden_blocks. in_block (ipv4_val ip) blk)"
proof (cases ip)
  case (Ipv4 a b c d)
  let ?a = "unat a" and ?b = "unat b"
  let ?s = "unat c * 256 + unat d" let ?r = "?b * 65536 + ?s"
  have lt: "?a < 256" "?b < 256" "?s < 65536" "?r < 16777216"
    using unat_u8_lt [of a] unat_u8_lt [of b] unat_u8_lt [of c] unat_u8_lt [of d] by linarith+
  have va: "ipv4_val ip = ?a * 16777216 + ?r" and vb: "ipv4_val ip = ?a * 16777216 + ?b * 65536 + ?s"
    by (simp_all add: Ipv4 ipv4_val_simp)
  have one: "in_block (ipv4_val ip) (x * 16777216, 8) \<longleftrightarrow> ?a = x" for x
    unfolding va using lt(4) by (rule in_block_a)
  have top: "in_block (ipv4_val ip) (x * 16777216, 4) \<longleftrightarrow> x \<le> ?a \<and> ?a < x + 16" for x
    unfolding va using lt(4) by (rule in_block_top)
  have two: "in_block (ipv4_val ip) (x * 16777216 + y * 65536, l) \<longleftrightarrow> ?a = x \<and> y \<le> ?b \<and> ?b < y + n"
    if "y + n \<le> 256" "2 ^ (32 - l) = n * 65536" for x y l n
    unfolding vb using lt(3,2) that by (rule in_block_ab)
  note b1 = one [of 0] one [of 10] one [of 127] top [of 224] top [of 240]
    and b2 = two [of 64 64 10 100] two [of 254 1 16 169] two [of 16 16 12 172] two [of 168 1 16 192]
  have "(\<exists>blk \<in> set forbidden_blocks. in_block (ipv4_val ip) blk) \<longleftrightarrow>
     ?a = 0 \<or> ?a = 10 \<or> (?a = 100 \<and> 64 \<le> ?b \<and> ?b < 128) \<or> ?a = 127
     \<or> (?a = 169 \<and> 254 \<le> ?b \<and> ?b < 255) \<or> (?a = 172 \<and> 16 \<le> ?b \<and> ?b < 32)
     \<or> (?a = 192 \<and> 168 \<le> ?b \<and> ?b < 169) \<or> (224 \<le> ?a \<and> ?a < 240) \<or> (240 \<le> ?a \<and> ?a < 256)"
    using b1 b2 by (simp add: forbidden_blocks_def)
  also have "\<dots> \<longleftrightarrow> is_forbidden_dst ip"
    unfolding Ipv4 is_forbidden_dst_unat
  proof -
    have "(224 \<le> ?a \<and> ?a < 240 \<or> 240 \<le> ?a \<and> ?a < 256) = (224 \<le> ?a)" using lt(1) by linarith
    moreover have "(254 \<le> ?b \<and> ?b < 255) = (?b = 254)" and "(168 \<le> ?b \<and> ?b < 169) = (?b = 168)"
      and "(?b < 128) = (?b \<le> 127)" and "(?b < 32) = (?b \<le> 31)" by linarith+
    ultimately show "(?a = 0 \<or> ?a = 10 \<or> (?a = 100 \<and> 64 \<le> ?b \<and> ?b < 128) \<or> ?a = 127
     \<or> (?a = 169 \<and> 254 \<le> ?b \<and> ?b < 255) \<or> (?a = 172 \<and> 16 \<le> ?b \<and> ?b < 32)
     \<or> (?a = 192 \<and> 168 \<le> ?b \<and> ?b < 169) \<or> (224 \<le> ?a \<and> ?a < 240) \<or> (240 \<le> ?a \<and> ?a < 256))
     \<longleftrightarrow> (?a = 0 \<or> ?a = 10 \<or> (?a = 100 \<and> 64 \<le> ?b \<and> ?b \<le> 127) \<or> ?a = 127
     \<or> (?a = 169 \<and> ?b = 254) \<or> (?a = 172 \<and> 16 \<le> ?b \<and> ?b \<le> 31)
     \<or> (?a = 192 \<and> ?b = 168) \<or> 224 \<le> ?a)"
      by blast
  qed
  finally show ?thesis by simp
qed

end
