(* ===== verification/Ticket.thy ===== *)
theory Ticket
  imports Net_Addr
begin

text \<open>
  Relay tickets in \<^verbatim>\<open>src/src/main.rs\<close>: the authentication mode and configuration,
  the check of a ticket, the cache that refuses a ticket seen before, and the
  hello frame that carries one.

  Base64, Ed25519 and the JSON decoder are libraries the relay calls; they are the
  fields of \<open>ticket_ext\<close>, an argument of every definition that uses them.  The
  decoder returns the typed claims, with 64-bit issue and expiry times.
\<close>

section \<open>Definitions\<close>

definition SESSION_ID_LEN :: nat where
  "SESSION_ID_LEN = 8"

definition MAX_AUTH_TOKEN_LEN :: nat where
  "MAX_AUTH_TOKEN_LEN = 4096"

definition AUTH_CLOCK_SKEW_SECS :: nat where
  "AUTH_CLOCK_SKEW_SECS = 30"

definition REPLAY_CACHE_PRUNE_INTERVAL_SECS :: nat where
  "REPLAY_CACHE_PRUNE_INTERVAL_SECS = 30"

datatype relay_auth_mode = AuthOff | AuthOptional | AuthRequired

definition auth_mode_from_env :: "string option \<Rightarrow> relay_auth_mode" where
  "auth_mode_from_env value =
     (case map_option (\<lambda>v. to_ascii_lowercase (trim v)) value of
        Some v \<Rightarrow>
          if v = ''required'' then AuthRequired
          else if v = ''optional'' then AuthOptional
          else if v = ''off'' then AuthOff
          else AuthRequired
      | None \<Rightarrow> AuthRequired)"

fun auth_mode_as_str :: "relay_auth_mode \<Rightarrow> string" where
  "auth_mode_as_str AuthOff = ''off''"
| "auth_mode_as_str AuthOptional = ''optional''"
| "auth_mode_as_str AuthRequired = ''required''"

definition requires_auth :: "relay_auth_mode \<Rightarrow> bool" where
  "requires_auth mode \<longleftrightarrow> mode \<noteq> AuthOff"

record relay_auth_config =
  ac_mode :: relay_auth_mode
  ac_public_key :: "bytes option"
  ac_server_id :: "string option"

record relay_ticket_claims =
  cl_v :: u8
  cl_iss :: string
  cl_aud :: string
  cl_sub :: string
  cl_sid :: string
  cl_srv :: string
  cl_iat :: u64
  cl_exp :: u64
  cl_jti :: string
  cl_lease :: bool

record ticket_ext =
  b64_url_safe_no_pad :: "string \<Rightarrow> bytes option"
  b64_url_safe :: "string \<Rightarrow> bytes option"
  b64_standard :: "string \<Rightarrow> bytes option"
  ed25519_verify :: "bytes \<Rightarrow> bytes \<Rightarrow> bytes \<Rightarrow> bool"
  json_claims :: "bytes \<Rightarrow> relay_ticket_claims option"

definition decode_base64_flexible :: "ticket_ext \<Rightarrow> string \<Rightarrow> bytes option" where
  "decode_base64_flexible ext input =
     (case b64_url_safe_no_pad ext input of
        Some b \<Rightarrow> Some b
      | None \<Rightarrow> (case b64_url_safe ext input of
                  Some b \<Rightarrow> Some b
                | None \<Rightarrow> b64_standard ext input))"

datatype auth_config_error =
    InsecureOff | NoPublicKey | BadPublicKey | BadPublicKeyLen nat | NoServerId | EmptyServerId

definition auth_config_from_env ::
  "ticket_ext \<Rightarrow> (string \<Rightarrow> string option) \<Rightarrow> auth_config_error + relay_auth_config" where
  "auth_config_from_env ext env =
     (let mode = auth_mode_from_env (env ''RELAY_AUTH_MODE'') in
      if mode = AuthOff then
        (if env ''RELAY_ALLOW_INSECURE'' \<noteq> Some ''1'' then Inl InsecureOff
         else Inr \<lparr>ac_mode = mode, ac_public_key = None, ac_server_id = None\<rparr>)
      else
        (case env ''RELAY_AUTH_PUBLIC_KEY_B64'' of
           None \<Rightarrow> Inl NoPublicKey
         | Some key_b64 \<Rightarrow>
             (case decode_base64_flexible ext (trim key_b64) of
                None \<Rightarrow> Inl BadPublicKey
              | Some key_bytes \<Rightarrow>
                  if length key_bytes \<noteq> 32 then Inl (BadPublicKeyLen (length key_bytes))
                  else
                    (case env ''RELAY_SERVER_ID'' of
                       None \<Rightarrow> Inl NoServerId
                     | Some server_id \<Rightarrow>
                         if trim server_id = [] then Inl EmptyServerId
                         else Inr \<lparr>ac_mode = mode, ac_public_key = Some key_bytes,
                                   ac_server_id = Some server_id\<rparr>))))"

datatype session_auth_state = Legacy | Authenticated

fun session_auth_state_as_str :: "session_auth_state \<Rightarrow> string" where
  "session_auth_state_as_str Legacy = ''legacy''"
| "session_auth_state_as_str Authenticated = ''authenticated''"

record verified_relay_ticket =
  vt_user_id :: string
  vt_jti :: string
  vt_exp :: nat
  vt_lease :: bool

datatype relay_auth_verify_error =
  BadFormat | BadSignature | Expired | SidMismatch | ServerMismatch | Replay | OwnerMismatch

fun ack_status :: "relay_auth_verify_error \<Rightarrow> u8" where
  "ack_status BadFormat = 1"
| "ack_status BadSignature = 2"
| "ack_status Expired = 3"
| "ack_status SidMismatch = 4"
| "ack_status ServerMismatch = 5"
| "ack_status Replay = 7"
| "ack_status OwnerMismatch = 8"

definition is_ascii_alphanumeric :: "char \<Rightarrow> bool" where
  "is_ascii_alphanumeric c =
     (let n = (of_char c :: nat) in
      48 \<le> n \<and> n \<le> 57 \<or> 65 \<le> n \<and> n \<le> 90 \<or> 97 \<le> n \<and> n \<le> 122)"

definition claims_malformed :: "relay_ticket_claims \<Rightarrow> bool" where
  "claims_malformed c \<longleftrightarrow>
     cl_v c \<noteq> 1 \<or> \<not> cl_lease c \<or> length (cl_sub c) > 64 \<or> cl_jti c = [] \<or> length (cl_jti c) > 128
     \<or> \<not> list_all (\<lambda>x. is_ascii_alphanumeric x \<or> x = CHR ''-'') (cl_sub c)
     \<or> \<not> list_all (\<lambda>x. is_ascii_alphanumeric x \<or> x = CHR ''-'' \<or> x = CHR ''_'') (cl_jti c)
     \<or> cl_srv c = [] \<or> length (cl_srv c) > 64 \<or> cl_exp c \<le> cl_iat c \<or> cl_exp c - cl_iat c > 900"

definition check_claims ::
  "relay_ticket_claims \<Rightarrow> session_id \<Rightarrow> relay_auth_config \<Rightarrow> nat
    \<Rightarrow> relay_auth_verify_error + verified_relay_ticket" where
  "check_claims c sid auth now_unix =
     (if claims_malformed c then Inl BadFormat
      else if cl_iss c \<noteq> ''swifttunnel-web'' \<or> cl_aud c \<noteq> ''swifttunnel-relay'' \<or> cl_sub c = [] then Inl BadFormat
      else if cl_sid c \<noteq> hex16 sid then Inl SidMismatch
      else
        (case ac_server_id auth of
           None \<Rightarrow> Inl BadFormat
         | Some expected_server \<Rightarrow>
             if cl_srv c \<noteq> expected_server then Inl ServerMismatch
             else if unat (cl_iat c) > sat_add64 now_unix AUTH_CLOCK_SKEW_SECS then Inl BadFormat
             else if now_unix \<ge> unat (cl_exp c) then Inl Expired
             else Inr \<lparr>vt_user_id = cl_sub c, vt_jti = cl_jti c, vt_exp = unat (cl_exp c), vt_lease = cl_lease c\<rparr>))"

definition verify_relay_ticket ::
  "ticket_ext \<Rightarrow> string \<Rightarrow> session_id \<Rightarrow> relay_auth_config \<Rightarrow> nat
    \<Rightarrow> relay_auth_verify_error + verified_relay_ticket" where
  "verify_relay_ticket ext token sid auth now_unix =
     (if token = [] \<or> length token > MAX_AUTH_TOKEN_LEN then Inl BadFormat
      else
        (case split_once (CHR ''.'') token of
           None \<Rightarrow> Inl BadFormat
         | Some (payload_b64, signature_b64) \<Rightarrow>
             (case decode_base64_flexible ext payload_b64 of
                None \<Rightarrow> Inl BadFormat
              | Some payload \<Rightarrow>
                  (case decode_base64_flexible ext signature_b64 of
                     None \<Rightarrow> Inl BadFormat
                   | Some signature \<Rightarrow>
                       if length signature \<noteq> 64 then Inl BadFormat
                       else
                         (case ac_public_key auth of
                            None \<Rightarrow> Inl BadFormat
                          | Some public_key \<Rightarrow>
                              if \<not> ed25519_verify ext public_key payload signature then Inl BadSignature
                              else
                                (case json_claims ext payload of
                                   None \<Rightarrow> Inl BadFormat
                                 | Some c \<Rightarrow> check_claims c sid auth now_unix))))))"

record relay_ticket_replay_cache =
  seen_jti :: "(string, nat) dmap"
  last_prune_unix :: nat

definition replay_cache_new :: relay_ticket_replay_cache where
  "replay_cache_new = \<lparr>seen_jti = [], last_prune_unix = 0\<rparr>"

definition prune_expired :: "nat \<Rightarrow> relay_ticket_replay_cache \<Rightarrow> relay_ticket_replay_cache" where
  "prune_expired now_unix cache =
     (if now_unix - last_prune_unix cache < REPLAY_CACHE_PRUNE_INTERVAL_SECS then cache
      else cache\<lparr>last_prune_unix := now_unix,
                 seen_jti := dm_retain (\<lambda>_ seen_exp. now_unix \<le> sat_add64 seen_exp AUTH_CLOCK_SKEW_SECS)
                   (seen_jti cache)\<rparr>)"

definition accept_once ::
  "relay_ticket_replay_cache \<Rightarrow> string \<Rightarrow> nat \<Rightarrow> nat \<Rightarrow> bool \<times> relay_ticket_replay_cache" where
  "accept_once cache jti exp now_unix =
     (let cache = prune_expired now_unix cache in
      case dm_get (seen_jti cache) jti of
        Some _ \<Rightarrow> (False, cache)
      | None \<Rightarrow> (True, cache\<lparr>seen_jti := dm_insert jti exp (seen_jti cache)\<rparr>))"

definition verify_relay_ticket_once ::
  "ticket_ext \<Rightarrow> string \<Rightarrow> session_id \<Rightarrow> relay_auth_config \<Rightarrow> nat \<Rightarrow> relay_ticket_replay_cache
    \<Rightarrow> (relay_auth_verify_error + verified_relay_ticket) \<times> relay_ticket_replay_cache" where
  "verify_relay_ticket_once ext token sid auth now_unix cache =
     (case verify_relay_ticket ext token sid auth now_unix of
        Inl err \<Rightarrow> (Inl err, cache)
      | Inr ticket \<Rightarrow>
          (let (fresh, cache) = accept_once cache (vt_jti ticket) (vt_exp ticket) now_unix in
           if \<not> fresh then (Inl Replay, cache) else (Inr ticket, cache)))"

definition parse_auth_hello_token :: "bytes \<Rightarrow> nat \<Rightarrow> relay_auth_verify_error + string" where
  "parse_auth_hello_token frame len =
     (if len < SESSION_ID_LEN + 3 then Inl BadFormat
      else
        let token_len = unat (be16 (frame ! (SESSION_ID_LEN + 1)) (frame ! (SESSION_ID_LEN + 2)));
            payload_start = SESSION_ID_LEN + 3;
            payload_end = payload_start + token_len
        in if token_len = 0 \<or> token_len > MAX_AUTH_TOKEN_LEN \<or> payload_end > len \<or> payload_end \<noteq> len
           then Inl BadFormat
           else (case from_utf8 (take (payload_end - payload_start) (drop payload_start frame)) of
                   None \<Rightarrow> Inl BadFormat
                 | Some token \<Rightarrow> Inr token))"

text \<open>The frame \<^verbatim>\<open>send_auth_ack\<close> sends.\<close>

definition AUTH_ACK_FRAME_TYPE :: u8 where
  "AUTH_ACK_FRAME_TYPE = 0xA2"

definition auth_ack_frame :: "session_id \<Rightarrow> u8 \<Rightarrow> bytes" where
  "auth_ack_frame sid status = sid @ [AUTH_ACK_FRAME_TYPE, status]"

section \<open>What an accepted ticket guarantees\<close>

definition ticket_of :: "relay_ticket_claims \<Rightarrow> verified_relay_ticket" where
  "ticket_of c = \<lparr>vt_user_id = cl_sub c, vt_jti = cl_jti c, vt_exp = unat (cl_exp c), vt_lease = cl_lease c\<rparr>"

text \<open>The claims a token carries, signature and key apart.\<close>

definition token_claims :: "ticket_ext \<Rightarrow> string \<Rightarrow> relay_ticket_claims option" where
  "token_claims ext token =
     (case split_once (CHR ''.'') token of
        None \<Rightarrow> None
      | Some (p, s) \<Rightarrow> (case decode_base64_flexible ext p of None \<Rightarrow> None | Some payload \<Rightarrow> json_claims ext payload))"

definition token_signed :: "ticket_ext \<Rightarrow> bytes \<Rightarrow> string \<Rightarrow> bool" where
  "token_signed ext key token \<longleftrightarrow>
     (\<exists>p s payload signature.
        split_once (CHR ''.'') token = Some (p, s) \<and>
        decode_base64_flexible ext p = Some payload \<and> decode_base64_flexible ext s = Some signature \<and>
        length signature = 64 \<and> ed25519_verify ext key payload signature)"

lemma word_diff_le_900:
  fixes a b :: u64
  assumes "\<not> a \<le> b" "\<not> a - b > 900"
  shows "unat a \<le> unat b + 900"
proof -
  have "b \<le> a" using assms(1) by simp
  hence "unat (a - b) = unat a - unat b" by (rule unat_sub)
  moreover have "unat (a - b) \<le> 900" using assms(2) by (simp add: not_less word_le_nat_alt)
  ultimately show ?thesis by linarith
qed

lemma check_claims_ok:
  assumes "check_claims c sid auth now = Inr tk"
  shows "tk = ticket_of c" "cl_sid c = hex16 sid" "ac_server_id auth = Some (cl_srv c)"
    "now < unat (cl_exp c)" "unat (cl_exp c) \<le> now + 930" "cl_sub c \<noteq> []" "\<not> claims_malformed c"
proof -
  have m: "\<not> claims_malformed c" and iat: "unat (cl_iat c) \<le> sat_add64 now AUTH_CLOCK_SKEW_SECS"
    and fields: "tk = ticket_of c" "cl_sid c = hex16 sid" "ac_server_id auth = Some (cl_srv c)"
      "now < unat (cl_exp c)" "cl_sub c \<noteq> []"
    using assms by (auto simp: check_claims_def ticket_of_def split: if_splits option.splits)
  have "unat (cl_exp c) \<le> unat (cl_iat c) + 900"
    using m by (intro word_diff_le_900) (auto simp: claims_malformed_def)
  moreover have "sat_add64 now AUTH_CLOCK_SKEW_SECS \<le> now + 30"
    by (simp add: sat_add64_def AUTH_CLOCK_SKEW_SECS_def)
  ultimately show "unat (cl_exp c) \<le> now + 930" using iat by linarith
  show "tk = ticket_of c" "cl_sid c = hex16 sid" "ac_server_id auth = Some (cl_srv c)"
    "now < unat (cl_exp c)" "cl_sub c \<noteq> []" "\<not> claims_malformed c"
    using fields m by simp_all
qed

lemma verify_ok:
  assumes "verify_relay_ticket ext token sid auth now = Inr tk"
  obtains c key where "token_claims ext token = Some c" "ac_public_key auth = Some key"
    "token_signed ext key token" "check_claims c sid auth now = Inr tk"
  using assms
  by (auto simp: verify_relay_ticket_def token_claims_def token_signed_def
      split: if_splits option.splits prod.splits)

text \<open>
  C21. A ticket that verifies was signed by the configured key over exactly the payload
  whose claims it yields, has the expected issuer and audience and is a lease, names
  this session and this server, has a user name of 1 to 64 characters, is not expired
  and expires at most 930 seconds from now.
\<close>

theorem ticket_authentic:
  assumes "verify_relay_ticket ext token sid auth now = Inr tk"
  shows "\<exists>key c. ac_public_key auth = Some key \<and> token_signed ext key token \<and>
    token_claims ext token = Some c \<and> tk = ticket_of c \<and>
    cl_iss c = ''swifttunnel-web'' \<and> cl_aud c = ''swifttunnel-relay'' \<and> cl_lease c \<and>
    cl_sid c = hex16 sid \<and> ac_server_id auth = Some (cl_srv c) \<and>
    vt_user_id tk \<noteq> [] \<and> length (vt_user_id tk) \<le> 64 \<and> now < vt_exp tk \<and> vt_exp tk \<le> now + 930"
proof -
  obtain c key where c: "token_claims ext token = Some c" "ac_public_key auth = Some key"
    "token_signed ext key token" "check_claims c sid auth now = Inr tk"
    using verify_ok [OF assms] by blast
  have "cl_iss c = ''swifttunnel-web''" "cl_aud c = ''swifttunnel-relay''"
    using c(4) by (auto simp: check_claims_def split: if_splits)
  thus ?thesis using c check_claims_ok [OF c(4)]
    by (auto simp: ticket_of_def claims_malformed_def)
qed

text \<open>
  A token that verifies for two session identifiers verifies for one and the same
  session and yields the same ticket, whatever the times.
\<close>

theorem ticket_bound_to_one_session:
  assumes "verify_relay_ticket ext token sid auth now = Inr tk"
    and "verify_relay_ticket ext token sid' auth' now' = Inr tk'"
    and "length sid = SESSION_ID_LEN" and "length sid' = SESSION_ID_LEN"
  shows "sid = sid' \<and> ac_server_id auth = ac_server_id auth' \<and> tk = tk'"
proof -
  obtain c where c: "token_claims ext token = Some c" "check_claims c sid auth now = Inr tk"
    using verify_ok [OF assms(1)] by metis
  moreover obtain c' where c': "token_claims ext token = Some c'" "check_claims c' sid' auth' now' = Inr tk'"
    using verify_ok [OF assms(2)] by metis
  ultimately have "c' = c" by simp
  thus ?thesis
    using check_claims_ok(1-3) [OF c(2)] check_claims_ok(1-3) [OF c'(2)] hex16_inj assms(3,4)
    by (simp add: SESSION_ID_LEN_def)
qed

section \<open>A ticket works once\<close>

lemma prune_expired_keeps:
  "dm_ok (seen_jti cache) \<Longrightarrow> dm_get (seen_jti cache) jti = Some e \<Longrightarrow> now \<le> sat_add64 e AUTH_CLOCK_SKEW_SECS
    \<Longrightarrow> dm_get (seen_jti (prune_expired now cache)) jti = Some e"
  by (simp add: prune_expired_def)

lemma prune_expired_ok: "dm_ok (seen_jti cache) \<Longrightarrow> dm_ok (seen_jti (prune_expired now cache))"
  by (simp add: prune_expired_def)

lemma accept_once_ok: "dm_ok (seen_jti cache) \<Longrightarrow> dm_ok (seen_jti (snd (accept_once cache jti e now)))"
  using prune_expired_ok [of cache now] by (auto simp: accept_once_def Let_def split: option.splits)

lemma accept_once_keeps:
  assumes "dm_ok (seen_jti cache)" "dm_get (seen_jti cache) jti = Some e" "now \<le> sat_add64 e AUTH_CLOCK_SKEW_SECS"
  shows "dm_get (seen_jti (snd (accept_once cache jti' e' now))) jti = Some e"
    and "\<not> fst (accept_once cache jti e'' now)"
  using prune_expired_keeps [OF assms]
  by (auto simp: accept_once_def Let_def split: option.splits)

lemma accept_once_records:
  "fst (accept_once cache jti e now) \<Longrightarrow> dm_get (seen_jti (snd (accept_once cache jti e now))) jti = Some e"
  by (auto simp: accept_once_def Let_def split: option.splits)

text \<open>Attempts to authenticate, in order, with the token, the session and the time of each.\<close>

type_synonym attempt = "string \<times> session_id \<times> nat"

fun attempts ::
  "ticket_ext \<Rightarrow> relay_auth_config \<Rightarrow> relay_ticket_replay_cache \<Rightarrow> attempt list
    \<Rightarrow> (relay_auth_verify_error + verified_relay_ticket) list" where
  "attempts ext auth cache [] = []"
| "attempts ext auth cache ((token, sid, now) # as) =
     (let (r, cache) = verify_relay_ticket_once ext token sid auth now cache
      in r # attempts ext auth cache as)"

lemma length_attempts [simp]: "length (attempts ext auth cache as) = length as"
  by (induction as arbitrary: cache) (auto simp: Let_def split: prod.splits)

lemma verify_once_eq:
  "verify_relay_ticket_once ext token sid auth now cache =
     (case verify_relay_ticket ext token sid auth now of
        Inl err \<Rightarrow> (Inl err, cache)
      | Inr t \<Rightarrow> (if fst (accept_once cache (vt_jti t) (vt_exp t) now) then Inr t else Inl Replay,
                  snd (accept_once cache (vt_jti t) (vt_exp t) now)))"
  by (auto simp: verify_relay_ticket_once_def Let_def split: sum.split prod.split)

lemma verify_once_ok:
  "dm_ok (seen_jti cache) \<Longrightarrow> dm_ok (seen_jti (snd (verify_relay_ticket_once ext token sid auth now cache)))"
  by (simp add: verify_once_eq accept_once_ok split: sum.split)

lemma verify_once_keeps:
  assumes "dm_ok (seen_jti cache)" "dm_get (seen_jti cache) jti = Some e" "now \<le> sat_add64 e AUTH_CLOCK_SKEW_SECS"
  shows "dm_get (seen_jti (snd (verify_relay_ticket_once ext token sid auth now cache))) jti = Some e"
    and "fst (verify_relay_ticket_once ext token sid auth now cache) = Inr tk \<Longrightarrow> vt_jti tk \<noteq> jti"
  using assms(2) accept_once_keeps [OF assms] by (auto simp: verify_once_eq split: sum.splits if_splits)

lemma seen_blocks:
  assumes "dm_ok (seen_jti cache)" "dm_get (seen_jti cache) jti = Some e"
    and "\<forall>a\<in>set as. snd (snd a) \<le> sat_add64 e AUTH_CLOCK_SKEW_SECS"
    and "j < length as" "attempts ext auth cache as ! j = Inr tk"
  shows "vt_jti tk \<noteq> jti"
  using assms
proof (induction as arbitrary: cache j)
  case (Cons a as)
  obtain token sid now where a: "a = (token, sid, now)" by (cases a)
  let ?r = "verify_relay_ticket_once ext token sid auth now cache"
  have now: "now \<le> sat_add64 e AUTH_CLOCK_SKEW_SECS" using Cons.prems(3) a by simp
  have split: "attempts ext auth cache (a # as) = fst ?r # attempts ext auth (snd ?r) as"
    by (simp add: a split_beta Let_def)
  show ?case
  proof (cases j)
    case 0
    thus ?thesis using Cons.prems(5) verify_once_keeps(2) [OF Cons.prems(1,2) now] by (simp add: split)
  next
    case (Suc i)
    thus ?thesis
      using Cons.IH [OF verify_once_ok verify_once_keeps(1)] Cons.prems now by (auto simp: split)
  qed
qed simp

lemma verify_once_records:
  assumes "fst (verify_relay_ticket_once ext token sid auth now cache) = Inr tk"
  shows "verify_relay_ticket ext token sid auth now = Inr tk"
    and "dm_get (seen_jti (snd (verify_relay_ticket_once ext token sid auth now cache))) (vt_jti tk) = Some (vt_exp tk)"
  using assms accept_once_records by (auto simp: verify_once_eq split: sum.splits if_splits)

lemma attempts_verified:
  "i < length as \<Longrightarrow> attempts ext auth cache as ! i = Inr tk \<Longrightarrow>
     verify_relay_ticket ext (fst (as ! i)) (fst (snd (as ! i))) auth (snd (snd (as ! i))) = Inr tk"
proof (induction as arbitrary: cache i)
  case (Cons a as)
  obtain token sid now where a: "a = (token, sid, now)" by (cases a)
  show ?case using Cons.prems Cons.IH verify_once_records(1) [of ext token sid auth now cache]
    by (cases i) (auto simp: a split_beta Let_def)
qed simp

lemma ticket_exp_bound: "vt_exp (ticket_of c) \<le> sat_add64 (vt_exp (ticket_of c)) AUTH_CLOCK_SKEW_SECS"
proof -
  have "unat (cl_exp c) < 2 ^ LENGTH(64)" by (rule unsigned_less)
  thus ?thesis by (intro sat_add64_ge_left) (simp add: ticket_of_def u64_max_def)
qed

lemma later_attempt_refused:
  assumes "dm_ok (seen_jti cache)" "sorted (map (\<lambda>a. snd (snd a)) as)"
    and "i < j" "j < length as" "attempts ext auth cache as ! i = Inr tk" "attempts ext auth cache as ! j = Inr tk'"
    and "vt_jti tk' = vt_jti tk"
  shows "vt_exp tk + AUTH_CLOCK_SKEW_SECS < snd (snd (as ! j)) \<or> u64_max < snd (snd (as ! j))"
  using assms
proof (induction as arbitrary: cache i j)
  case (Cons a as)
  obtain token sid now where a: "a = (token, sid, now)" by (cases a)
  let ?r = "verify_relay_ticket_once ext token sid auth now cache"
  have split: "attempts ext auth cache (a # as) = fst ?r # attempts ext auth (snd ?r) as"
    by (simp add: a split_beta Let_def)
  obtain j' where j: "j = Suc j'" using Cons.prems(3) by (cases j) auto
  have ok: "dm_ok (seen_jti (snd ?r))" using Cons.prems(1) by (rule verify_once_ok)
  show ?case
  proof (cases i)
    case (Suc i')
    thus ?thesis using Cons.IH [OF ok] Cons.prems j by (simp add: split)
  next
    case 0
    hence r: "fst ?r = Inr tk" using Cons.prems(5) by (simp add: split)
    show ?thesis
    proof (rule ccontr)
      assume neg: "\<not> ?thesis"
      hence lim: "snd (snd (as ! j')) \<le> sat_add64 (vt_exp tk) AUTH_CLOCK_SKEW_SECS"
        using j by (auto simp: sat_add64_def not_less)
      let ?as = "take (Suc j') as"
      have jl: "j' < length as" using Cons.prems(4) j by simp
      have "\<forall>k\<le>j'. snd (snd (as ! k)) \<le> snd (snd (as ! j'))"
        using Cons.prems(2) jl by (simp add: sorted_iff_nth_mono)
      hence "\<forall>b\<in>set ?as. snd (snd b) \<le> snd (snd (as ! j'))"
        by (metis in_set_conv_nth length_take less_Suc_eq_le min_less_iff_conj nth_take)
      hence times: "\<forall>b\<in>set ?as. snd (snd b) \<le> sat_add64 (vt_exp tk) AUTH_CLOCK_SKEW_SECS" using lim by force
      have prefix: "k < length bs \<Longrightarrow> attempts ext auth c (bs @ cs) ! k = attempts ext auth c bs ! k" for c k bs cs
        by (induction bs arbitrary: c k) (auto simp: Let_def nth_Cons split: prod.splits nat.splits)
      have "attempts ext auth (snd ?r) ?as ! j' = attempts ext auth (snd ?r) (?as @ drop (Suc j') as) ! j'"
        using jl by (intro prefix [symmetric]) simp
      also have "\<dots> = Inr tk'" using Cons.prems(6) j by (simp add: split)
      finally have "vt_jti tk' \<noteq> vt_jti tk"
        using seen_blocks [OF ok verify_once_records(2) [OF r] times, of j'] jl by simp
      thus False using Cons.prems(7) by simp
    qed
  qed
qed simp

lemma same_token_refused:
  assumes "sorted (map (\<lambda>a. snd (snd a)) as)" and "i < j" and "j < length as"
    and "attempts ext auth replay_cache_new as ! i = Inr tk" "attempts ext auth replay_cache_new as ! j = Inr tk'"
  shows "fst (as ! j) \<noteq> fst (as ! i)"
proof
  assume same: "fst (as ! j) = fst (as ! i)"
  let ?now = "snd (snd (as ! j))"
  have v: "verify_relay_ticket ext (fst (as ! i)) (fst (snd (as ! i))) auth (snd (snd (as ! i))) = Inr tk"
    "verify_relay_ticket ext (fst (as ! i)) (fst (snd (as ! j))) auth ?now = Inr tk'"
    using attempts_verified [OF _ assms(4)] attempts_verified [OF assms(3,5)] assms(2,3) same by simp_all
  obtain c where c0: "token_claims ext (fst (as ! i)) = Some c"
    "check_claims c (fst (snd (as ! i))) auth (snd (snd (as ! i))) = Inr tk"
    using verify_ok [OF v(1)] by blast
  obtain c' where c0': "token_claims ext (fst (as ! i)) = Some c'"
    "check_claims c' (fst (snd (as ! j))) auth ?now = Inr tk'"
    using verify_ok [OF v(2)] by blast
  have eq: "c' = c" using c0(1) c0'(1) by simp
  note c = check_claims_ok(1) [OF c0(2)] and c' = check_claims_ok(1,4) [OF c0'(2)]
  have "?now \<le> sat_add64 (vt_exp tk) AUTH_CLOCK_SKEW_SECS"
    using c c' eq ticket_exp_bound [of c] by (simp add: ticket_of_def)
  moreover have "vt_exp tk + AUTH_CLOCK_SKEW_SECS < ?now \<or> u64_max < ?now"
    using later_attempt_refused [OF _ assms] c c'(1) eq by (simp add: replay_cache_new_def)
  ultimately show False by (auto simp: sat_add64_def)
qed

text \<open>
  C22. In any sequence of verification attempts with a clock that never runs backwards,
  pruning of the replay cache included, once a ticket has been accepted the same token
  is never accepted again, and no token with the same ticket identifier is accepted
  until the accepted ticket has been expired for more than the clock allowance of 30
  seconds.
\<close>

theorem ticket_accepted_once:
  assumes "sorted (map (\<lambda>a. snd (snd a)) as)" and "i < j" and "j < length as"
    and "attempts ext auth replay_cache_new as ! i = Inr tk"
  shows "\<forall>tk'. attempts ext auth replay_cache_new as ! j = Inr tk' \<longrightarrow>
    fst (as ! j) \<noteq> fst (as ! i) \<and>
    (vt_jti tk' = vt_jti tk \<longrightarrow> sat_add64 (vt_exp tk) AUTH_CLOCK_SKEW_SECS < snd (snd (as ! j)))"
proof (intro allI impI conjI)
  fix tk' assume tk': "attempts ext auth replay_cache_new as ! j = Inr tk'"
  show "fst (as ! j) \<noteq> fst (as ! i)" by (rule same_token_refused [OF assms tk'])
  assume "vt_jti tk' = vt_jti tk"
  from later_attempt_refused [OF _ assms tk' this] show "sat_add64 (vt_exp tk) AUTH_CLOCK_SKEW_SECS < snd (snd (as ! j))"
    by (auto simp: sat_add64_def replay_cache_new_def)
qed

section \<open>Configuration and the hello frame\<close>

text \<open>
  The configuration that runs without authentication is reached only when the mode
  is off and the insecure override is set; otherwise a configuration has a 32-byte key
  and a non-empty server name.
\<close>

theorem open_relay_needs_explicit_opt_in:
  assumes "auth_config_from_env ext env = Inr cfg"
  shows "(ac_mode cfg = AuthOff \<and> env ''RELAY_ALLOW_INSECURE'' = Some ''1'' \<and>
      (\<exists>v. env ''RELAY_AUTH_MODE'' = Some v \<and> to_ascii_lowercase (trim v) = ''off'')) \<or>
    (requires_auth (ac_mode cfg) \<and>
      (\<exists>key server_id. ac_public_key cfg = Some key \<and> length key = 32 \<and>
         ac_server_id cfg = Some server_id \<and> trim server_id \<noteq> []))"
  using assms
  by (auto simp: auth_config_from_env_def Let_def requires_auth_def auth_mode_from_env_def
      split: if_splits option.splits)

text \<open>
  The token a client puts in a hello frame, any valid UTF-8 of 1 to 4096 bytes, is
  the token the relay reads from it.
\<close>

theorem hello_token_roundtrip:
  assumes "length sid = SESSION_ID_LEN" and "0 < length token" and "length token \<le> MAX_AUTH_TOKEN_LEN"
    and "utf8_valid token"
  shows "parse_auth_hello_token
      (sid @ [frame_type, len_hi8 (length token), len_lo8 (length token)] @ token) (SESSION_ID_LEN + 3 + length token)
    = Inr (str_of_bytes token)"
proof -
  have sid: "length sid = 8" using assms(1) by (simp add: SESSION_ID_LEN_def)
  have len: "unat (be16 (len_hi8 (length token)) (len_lo8 (length token))) = length token"
    using assms(3) by (intro unat_be16_len) (simp add: MAX_AUTH_TOKEN_LEN_def)
  show ?thesis
    using assms(2-4) len
    by (simp add: parse_auth_hello_token_def SESSION_ID_LEN_def sid nth_append from_utf8_def Let_def)
qed

section \<open>Witnesses\<close>

definition sample_sid :: session_id where
  "sample_sid = [0, 0, 0, 0, 0, 0, 0, 7]"

definition sample_claims :: relay_ticket_claims where
  "sample_claims =
     \<lparr>cl_v = 1, cl_iss = ''swifttunnel-web'', cl_aud = ''swifttunnel-relay'', cl_sub = ''u1'',
      cl_sid = hex16 sample_sid, cl_srv = ''fra'', cl_iat = 1000, cl_exp = 1600, cl_jti = ''j1'', cl_lease = True\<rparr>"

definition sample_key :: bytes where
  "sample_key = replicate 32 1"

definition sample_ext :: ticket_ext where
  "sample_ext =
     \<lparr>b64_url_safe_no_pad = (\<lambda>s. Some (bytes_of_str s)), b64_url_safe = (\<lambda>_. None), b64_standard = (\<lambda>_. None),
      ed25519_verify = (\<lambda>key payload signature. key = sample_key \<and> payload = [0x70]),
      json_claims = (\<lambda>p. if p = [0x70] then Some sample_claims else None)\<rparr>"

definition sample_auth :: relay_auth_config where
  "sample_auth = \<lparr>ac_mode = AuthRequired, ac_public_key = Some sample_key, ac_server_id = Some ''fra''\<rparr>"

definition sample_token :: string where
  "sample_token = ''p.'' @ replicate 64 (CHR ''s'')"

definition sample_ticket :: verified_relay_ticket where
  "sample_ticket = \<lparr>vt_user_id = ''u1'', vt_jti = ''j1'', vt_exp = 1600, vt_lease = True\<rparr>"

lemma sample_verify: "verify_relay_ticket sample_ext sample_token sample_sid sample_auth 1010 = Inr sample_ticket"
  by code_simp

theorem ticket_authentic_witness:
  "\<exists>key c. ac_public_key sample_auth = Some key \<and> token_signed sample_ext key sample_token \<and>
     token_claims sample_ext sample_token = Some c \<and> 1010 < vt_exp sample_ticket \<and> vt_exp sample_ticket \<le> 1010 + 930"
  using ticket_authentic [OF sample_verify] by blast

theorem ticket_bound_to_one_session_witness:
  "verify_relay_ticket sample_ext sample_token sample_sid sample_auth 1010 = Inr sample_ticket \<and>
   sample_sid = sample_sid \<and> sample_ticket = sample_ticket"
  using ticket_bound_to_one_session [OF sample_verify sample_verify] sample_verify
  by (simp add: sample_sid_def SESSION_ID_LEN_def)

text \<open>Another token with the same payload, under a second signature that verifies.\<close>

definition sample_token' :: string where
  "sample_token' = ''p.'' @ replicate 64 (CHR ''t'')"

lemma sample_verify': "verify_relay_ticket sample_ext sample_token' sample_sid sample_auth 1100 = Inr sample_ticket"
  by code_simp

theorem ticket_accepted_once_witness:
  "let as = [(sample_token, sample_sid, 1010), (sample_token', sample_sid, 1100)] in
   attempts sample_ext sample_auth replay_cache_new as ! 0 = Inr sample_ticket \<and>
   verify_relay_ticket sample_ext sample_token' sample_sid sample_auth 1100 = Inr sample_ticket \<and>
   \<not> (\<exists>tk'. attempts sample_ext sample_auth replay_cache_new as ! 1 = Inr tk')"
proof -
  let ?as = "[(sample_token, sample_sid, 1010), (sample_token', sample_sid, 1100)]"
  have "attempts sample_ext sample_auth replay_cache_new ?as ! 0 = Inr sample_ticket"
    by (simp add: verify_once_eq sample_verify accept_once_def prune_expired_def replay_cache_new_def Let_def
        split_beta)
  moreover have "tk' = sample_ticket" if "attempts sample_ext sample_auth replay_cache_new ?as ! 1 = Inr tk'" for tk'
    using attempts_verified [OF _ that] sample_verify' by simp
  moreover have "sat_add64 (vt_exp sample_ticket) AUTH_CLOCK_SKEW_SECS = 1630" by code_simp
  ultimately show ?thesis
    using ticket_accepted_once [of ?as 0 1 sample_ext sample_auth sample_ticket] sample_verify' unfolding Let_def by force
qed

theorem open_relay_needs_explicit_opt_in_witness:
  "ac_mode \<lparr>ac_mode = AuthOff, ac_public_key = None, ac_server_id = None\<rparr> = AuthOff \<and>
   (\<lambda>k. if k = ''RELAY_AUTH_MODE'' then Some ''off'' else Some ''1'') ''RELAY_ALLOW_INSECURE'' = Some ''1''"
proof -
  have "auth_config_from_env sample_ext (\<lambda>k. if k = ''RELAY_AUTH_MODE'' then Some ''off'' else Some ''1'') =
    Inr \<lparr>ac_mode = AuthOff, ac_public_key = None, ac_server_id = None\<rparr>"
    by code_simp
  from open_relay_needs_explicit_opt_in [OF this] show ?thesis by (simp add: requires_auth_def)
qed

theorem hello_token_roundtrip_witness:
  "parse_auth_hello_token
     (sample_sid @ [0xA1, len_hi8 (length [0x61, 0x2E, 0x62 :: u8]), len_lo8 (length [0x61, 0x2E, 0x62 :: u8])]
        @ [0x61, 0x2E, 0x62])
     (SESSION_ID_LEN + 3 + length [0x61, 0x2E, 0x62 :: u8])
     = Inr (str_of_bytes [0x61, 0x2E, 0x62])"
  using hello_token_roundtrip [of sample_sid "[0x61, 0x2E, 0x62]" "0xA1"]
  by (simp add: sample_sid_def SESSION_ID_LEN_def MAX_AUTH_TOKEN_LEN_def)

end
