(* ===== verification/Wire.thy ===== *)
theory Wire
  imports Ticket
begin

text \<open>
  What both datapaths put on the wire or derive from it besides packets: big-endian
  fields, the ping, pong and round-trip frames, socket addresses as text, and the key of
  a flow (\<^verbatim>\<open>src/src/main.rs\<close>).  A flow key is a string in the source; the last section
  shows that different flows have different keys.
\<close>

section \<open>Definitions\<close>

definition PING_FRAME_TYPE :: u8 where
  "PING_FRAME_TYPE = 0xA3"

definition PONG_FRAME_TYPE :: u8 where
  "PONG_FRAME_TYPE = 0xA4"

definition PING_FRAME_LEN :: nat where
  "PING_FRAME_LEN = SESSION_ID_LEN + 1 + 4 + 8"

definition PONG_FRAME_LEN :: nat where
  "PONG_FRAME_LEN = SESSION_ID_LEN + 1 + 4 + 8 + 8"

definition RTT_REPORT_FRAME_TYPE :: u8 where
  "RTT_REPORT_FRAME_TYPE = 0xA5"

definition RTT_REPORT_FRAME_LEN :: nat where
  "RTT_REPORT_FRAME_LEN = SESSION_ID_LEN + 1 + 4"

definition RESOLVE_REQUEST_FRAME_TYPE :: u8 where
  "RESOLVE_REQUEST_FRAME_TYPE = 0xA6"

text \<open>\<^verbatim>\<open>uN::from_be_bytes\<close> of a slice of a frame, and \<^verbatim>\<open>to_be_bytes\<close> of \<^term>\<open>k\<close> bytes.\<close>

definition be_field :: "bytes \<Rightarrow> nat \<Rightarrow> nat \<Rightarrow> nat" where
  "be_field frame off k = from_be_bytes (take k (drop off frame))"

fun to_be_bytes :: "nat \<Rightarrow> nat \<Rightarrow> bytes" where
  "to_be_bytes 0 n = []"
| "to_be_bytes (Suc k) n = of_nat (n div 256 ^ k) # to_be_bytes k (n mod 256 ^ k)"

definition pong_frame :: "session_id \<Rightarrow> u32 \<Rightarrow> u64 \<Rightarrow> u64 \<Rightarrow> bytes" where
  "pong_frame sid seq client_ts_mono_ms server_rx_ts_mono_ms =
     sid @ [PONG_FRAME_TYPE] @ to_be_bytes 4 (unat seq) @ to_be_bytes 8 (unat client_ts_mono_ms)
       @ to_be_bytes 8 (unat server_rx_ts_mono_ms)"

text \<open>The pong to a ping frame received at a time.\<close>

definition pong_reply :: "bytes \<Rightarrow> u64 \<Rightarrow> bytes" where
  "pong_reply frame server_rx_ts_mono_ms =
     (let seq = of_nat (be_field frame (SESSION_ID_LEN + 1) 4);
          client_ts_mono_ms = of_nat (be_field frame (SESSION_ID_LEN + 5) 8)
      in pong_frame (take SESSION_ID_LEN frame) seq client_ts_mono_ms server_rx_ts_mono_ms)"

text \<open>\<^verbatim>\<open>Display\<close> of addresses.  An IPv6 address is shown by segments, the longest run of more
  than one zero segment as two colons; a mapped IPv4 address in dotted form.\<close>

function hex_str :: "nat \<Rightarrow> string" where
  "hex_str n = (if n < 16 then [hex_digit n] else hex_str (n div 16) @ [hex_digit (n mod 16)])"
  by pat_completeness auto
termination
  by (relation "measure id") auto

declare hex_str.simps [simp del]

definition ipv6_segments :: "128 word \<Rightarrow> nat list" where
  "ipv6_segments a = map (\<lambda>i. unat a div 65536 ^ i mod 65536) [7, 6, 5, 4, 3, 2, 1, 0]"

fun longest_zeros :: "nat list \<Rightarrow> nat \<Rightarrow> nat \<times> nat \<Rightarrow> nat \<times> nat \<Rightarrow> nat \<times> nat" where
  "longest_zeros [] i current longest = longest"
| "longest_zeros (s # ss) i current longest =
     (if s = 0 then
        let current = (if snd current = 0 then i else fst current, snd current + 1);
            longest = (if snd current > snd longest then current else longest)
        in longest_zeros ss (i + 1) current longest
      else longest_zeros ss (i + 1) (0, 0) longest)"

fun colon_join :: "string list \<Rightarrow> string" where
  "colon_join [] = []"
| "colon_join [s] = s"
| "colon_join (s # ss) = s @ '':'' @ colon_join ss"

definition ipv6_to_string :: "128 word \<Rightarrow> string" where
  "ipv6_to_string a =
     (let segments = ipv6_segments a in
      if take 6 segments = [0, 0, 0, 0, 0, 0xFFFF] then
        ''::ffff:'' @ dotted (Ipv4 (of_nat (segments ! 6 div 256)) (of_nat (segments ! 6 mod 256))
                              (of_nat (segments ! 7 div 256)) (of_nat (segments ! 7 mod 256)))
      else
        let (start, len) = longest_zeros segments 0 (0, 0) (0, 0) in
        if len > 1 then
          colon_join (map hex_str (take start segments)) @ ''::'' @ colon_join (map hex_str (drop (start + len) segments))
        else colon_join (map hex_str segments))"

fun sock_to_string :: "sock_addr \<Rightarrow> string" where
  "sock_to_string (SockV4 ip port) = dotted ip @ '':'' @ dec_str (unat port)"
| "sock_to_string (SockV6 ip port flowinfo scope) =
     ''['' @ ipv6_to_string ip @ (if scope = 0 then '''' else ''%'' @ dec_str (unat scope)) @ '']:'' @ dec_str (unat port)"

definition flow_key :: "session_id \<Rightarrow> sock_addr \<Rightarrow> string" where
  "flow_key sid game_addr = hex16 sid @ '':'' @ sock_to_string game_addr"

datatype io_error_kind = WouldBlock | TimedOut | Interrupted | ConnectionReset | OtherKind

fun is_transient_recv_error :: "io_error_kind \<Rightarrow> bool" where
  "is_transient_recv_error WouldBlock = True"
| "is_transient_recv_error TimedOut = True"
| "is_transient_recv_error Interrupted = True"
| "is_transient_recv_error ConnectionReset = True"
| "is_transient_recv_error OtherKind = False"

fun is_transient_send_error :: "io_error_kind \<Rightarrow> bool" where
  "is_transient_send_error WouldBlock = True"
| "is_transient_send_error TimedOut = True"
| "is_transient_send_error Interrupted = True"
| "is_transient_send_error ConnectionReset = False"
| "is_transient_send_error OtherKind = False"

section \<open>Big-endian fields\<close>

lemma length_to_be_bytes [simp]: "length (to_be_bytes k n) = k"
  by (induction k arbitrary: n) simp_all

lemma to_be_from_be: "to_be_bytes (length bs) (from_be_bytes bs) = bs"
proof (induction bs)
  case (Cons b bs)
  have "from_be_bytes bs < 256 ^ length bs" by (rule from_be_bytes_bound)
  then show ?case using Cons by simp
qed simp

lemma unat_from_be:
  fixes w :: "'a::len word"
  assumes "w = of_nat (from_be_bytes bs)" "8 * length bs \<le> LENGTH('a)"
  shows "unat w = from_be_bytes bs"
proof -
  have "from_be_bytes bs < 256 ^ length bs" by (rule from_be_bytes_bound)
  also have "(256 :: nat) ^ length bs = 2 ^ (8 * length bs)" by (simp add: power_mult)
  also have "\<dots> \<le> 2 ^ LENGTH('a)" using assms(2) by (intro power_increasing) simp_all
  finally show ?thesis by (simp add: assms(1) unsigned_of_nat take_bit_nat_eq_self_iff)
qed

lemma be_field_bytes:
  assumes "off + k \<le> length frame"
  shows "to_be_bytes k (be_field frame off k) = take k (drop off frame)"
  using assms to_be_from_be [of "take k (drop off frame)"] by (simp add: be_field_def)

text \<open>A pong repeats the session, the sequence number and the client's time stamp of the ping.\<close>

lemma pong_reply_bytes:
  assumes "length frame = PING_FRAME_LEN"
  shows "pong_reply frame ts =
    take SESSION_ID_LEN frame @ [PONG_FRAME_TYPE] @ drop (SESSION_ID_LEN + 1) frame @ to_be_bytes 8 (unat ts)"
proof -
  let ?q = "take 4 (drop (SESSION_ID_LEN + 1) frame)" and ?t = "take 8 (drop (SESSION_ID_LEN + 5) frame)"
  have len: "length frame = 21" using assms by (simp add: PING_FRAME_LEN_def SESSION_ID_LEN_def)
  have "unat (of_nat (from_be_bytes ?q) :: u32) = from_be_bytes ?q" by (rule unat_from_be [OF refl]) simp
  moreover have "unat (of_nat (from_be_bytes ?t) :: u64) = from_be_bytes ?t" by (rule unat_from_be [OF refl]) simp
  moreover have "?q @ ?t = drop (SESSION_ID_LEN + 1) frame"
    using len append_take_drop_id [of 4 "drop (SESSION_ID_LEN + 1) frame"] by (simp add: SESSION_ID_LEN_def)
  ultimately show ?thesis
    using len be_field_bytes [of "SESSION_ID_LEN + 1" 4 frame] be_field_bytes [of "SESSION_ID_LEN + 5" 8 frame]
    by (simp add: pong_reply_def pong_frame_def be_field_def SESSION_ID_LEN_def Let_def)
qed

section \<open>Flow keys\<close>

lemma split_at_char:
  "c \<notin> set as \<Longrightarrow> c \<notin> set as' \<Longrightarrow> as @ c # bs = as' @ c # bs' \<longleftrightarrow> as = as' \<and> bs = bs'"
proof (induction as arbitrary: as')
  case Nil
  then show ?case by (cases as') auto
next
  case (Cons a as)
  then show ?case by (cases as') auto
qed

lemma dec_str_digits: "c \<in> set (dec_str n) \<Longrightarrow> 48 \<le> (of_char c :: nat) \<and> of_char c \<le> (57 :: nat)"
proof (induction n rule: dec_str.induct)
  case (1 n)
  have d: "of_char (char_of (48 + m) :: char) = (48 + m :: nat)" if "m < 10" for m
    using that by (simp add: of_char_of take_bit_eq_mod)
  show ?case
    using 1 d [of n] d [of "n mod 10"] by (subst (asm) (2) dec_str.simps) (auto split: if_splits)
qed

lemma no_separator [simp]: "CHR ''.'' \<notin> set (dec_str n)" "CHR '':'' \<notin> set (dec_str n)"
  using dec_str_digits [of "CHR ''.''" n] dec_str_digits [of "CHR '':''" n] by auto

lemma dec_str_inj: "dec_str n = dec_str m \<Longrightarrow> n = m"
proof (induction n arbitrary: m rule: dec_str.induct)
  case (1 n)
  have one: "length (dec_str k) = 1 \<longleftrightarrow> k < 10" for k
    by (subst dec_str.simps) (auto, subst (asm) dec_str.simps, auto split: if_splits)
  have d: "char_of (48 + i) = (char_of (48 + j) :: char) \<Longrightarrow> i = j" if "i < 10" "j < 10" for i j :: nat
    using that by (auto simp: char_of_eq_iff of_char_of take_bit_eq_mod)
  show ?case
  proof (cases "n < 10")
    case True
    then have "m < 10" using one [of n] one [of m] 1(2) by simp
    then show ?thesis using 1(2) True d dec_str.simps [of n] dec_str.simps [of m] by simp
  next
    case False
    then have m: "\<not> m < 10" using one [of n] one [of m] 1(2) by simp
    have "dec_str (n div 10) = dec_str (m div 10)" "n mod 10 = m mod 10"
      using 1(2) False m dec_str.simps [of n] dec_str.simps [of m] d [of "n mod 10" "m mod 10"] by auto
    then have "n div 10 = m div 10" "n mod 10 = m mod 10" using 1(1) False by auto
    then show ?thesis by (metis div_mult_mod_eq)
  qed
qed

lemma dotted_colon [simp]: "CHR '':'' \<notin> set (dotted ip)"
  by (cases ip) (simp add: dotted_def)

lemma dotted_inj: "dotted a = dotted b \<Longrightarrow> a = b"
  by (cases a; cases b) (auto simp: dotted_def split_at_char dest!: dec_str_inj intro: unsigned_word_eqI)

lemma sock_to_string_v4_inj:
  "sock_to_string (SockV4 a p) = sock_to_string (SockV4 b q) \<longleftrightarrow> a = b \<and> p = q"
  by (auto simp: split_at_char dest!: dotted_inj dec_str_inj intro: unsigned_word_eqI)

lemma flow_key_inj:
  assumes "length sid = SESSION_ID_LEN" "length sid' = SESSION_ID_LEN"
  shows "flow_key sid (SockV4 ip port) = flow_key sid' (SockV4 ip' port') \<longleftrightarrow> sid = sid' \<and> ip = ip' \<and> port = port'"
proof -
  have "length (hex16 sid) = length (hex16 sid')" by (simp add: hex16_def)
  then have "flow_key sid (SockV4 ip port) = flow_key sid' (SockV4 ip' port') \<longleftrightarrow>
      hex16 sid = hex16 sid' \<and> sock_to_string (SockV4 ip port) = sock_to_string (SockV4 ip' port')"
    by (simp add: flow_key_def del: sock_to_string.simps)
  then show ?thesis using hex16_inj [of sid sid'] assms by (auto simp: sock_to_string_v4_inj SESSION_ID_LEN_def simp del: sock_to_string.simps)
qed

text \<open>
  Two IPv4 flows of 8-byte sessions have the same key string only if they have the
  same session, the same game server address and the same port.
\<close>

theorem flow_keys_distinguish_flows:
  assumes "length sid = SESSION_ID_LEN" "length sid' = SESSION_ID_LEN"
    and "flow_key sid (SockV4 ip port) = flow_key sid' (SockV4 ip' port')"
  shows "sid = sid' \<and> ip = ip' \<and> port = port'"
  using flow_key_inj [OF assms(1,2)] assms(3) by blast

theorem flow_keys_distinguish_flows_witness:
  "flow_key sample_sid (SockV4 (Ipv4 9 0 0 2) 5000) \<noteq> flow_key sample_sid (SockV4 (Ipv4 9 0 0 25) 500)"
  using flow_keys_distinguish_flows [of sample_sid sample_sid "Ipv4 9 0 0 2" 5000 "Ipv4 9 0 0 25" 500]
  by (auto simp: sample_sid_def SESSION_ID_LEN_def)

end
