(* ===== verification/Http.thy ===== *)
theory Http
  imports Wire
begin

text \<open>
  The HTTP text of the statistics and health servers of \<^verbatim>\<open>src/src/main.rs\<close>: reading a
  request in pieces up to the end of its header, taking it apart, framing a response, and
  the hand-written escaping of JSON strings.  What a request is answered with is the
  argument \<open>route\<close> of the handlers; \<^verbatim>\<open>Stats_Api\<close> supplies it.

  A stream is the list of the results of its reads; after them the peer has closed.  A
  failed read carries the error kind, or \<open>Elapsed\<close> where the timer of the asynchronous
  handler ran out.
\<close>

section \<open>Definitions\<close>

definition MAX_HTTP_REQUEST_SIZE :: nat where
  "MAX_HTTP_REQUEST_SIZE = 8192"

definition crlf :: string where
  "crlf = [CHR 0x0D, CHR 0x0A]"

text \<open>\<^verbatim>\<open>buf.windows(4).position(..)\<close>: the first place where two line ends meet.\<close>

fun header_end_from :: "nat \<Rightarrow> bytes \<Rightarrow> nat option" where
  "header_end_from i (a # b # c # d # r) =
     (if a = 0x0D \<and> b = 0x0A \<and> c = 0x0D \<and> d = 0x0A then Some (i + 4) else header_end_from (Suc i) (b # c # d # r))"
| "header_end_from i _ = None"

definition find_http_header_end :: "bytes \<Rightarrow> nat option" where
  "find_http_header_end buf = header_end_from 0 buf"

text \<open>
  \<^verbatim>\<open>String::from_utf8_lossy\<close>: a well-formed character is kept, the longest prefix of one that
  breaks off is replaced by U+FFFD.
\<close>

definition utf8_chunk :: "bytes \<Rightarrow> nat \<times> bool" where
  "utf8_chunk bs =
     (let a = bs ! 0;
          second = (1 < length bs \<and> cont_byte (bs ! 1) \<and> (a = 0xE0 \<longrightarrow> 0xA0 \<le> bs ! 1) \<and> (a = 0xED \<longrightarrow> bs ! 1 \<le> 0x9F)
                    \<and> (a = 0xF0 \<longrightarrow> 0x90 \<le> bs ! 1) \<and> (a = 0xF4 \<longrightarrow> bs ! 1 \<le> 0x8F));
          third = (2 < length bs \<and> cont_byte (bs ! 2));
          fourth = (3 < length bs \<and> cont_byte (bs ! 3))
      in if a < 0x80 then (1, True)
         else if 0xC2 \<le> a \<and> a \<le> 0xDF then (if second then (2, True) else (1, False))
         else if 0xE0 \<le> a \<and> a \<le> 0xEF then
           (if \<not> second then (1, False) else if third then (3, True) else (2, False))
         else if 0xF0 \<le> a \<and> a \<le> 0xF4 then
           (if \<not> second then (1, False) else if \<not> third then (2, False) else if fourth then (4, True) else (3, False))
         else (1, False))"

lemma utf8_chunk_pos: "0 < fst (utf8_chunk bs)"
  by (simp add: utf8_chunk_def Let_def)

function from_utf8_lossy :: "bytes \<Rightarrow> string" where
  "from_utf8_lossy bs =
     (if bs = [] then []
      else let (n, ok) = utf8_chunk bs
           in (if ok then str_of_bytes (take n bs) else [CHR 0xEF, CHR 0xBF, CHR 0xBD]) @ from_utf8_lossy (drop n bs))"
  by pat_completeness auto
termination
proof (relation "measure length", simp)
  fix bs x and n :: nat and ok :: bool
  assume "bs \<noteq> []" "x = utf8_chunk bs" "(n, ok) = x"
  then show "(drop n bs, bs) \<in> measure length" using utf8_chunk_pos [of bs] by (cases bs) (auto dest!: arg_cong [where f = fst])
qed

declare from_utf8_lossy.simps [simp del]

fun split_crlf :: "string \<Rightarrow> string list" where
  "split_crlf (a # b # r) =
     (if a = CHR 0x0D \<and> b = CHR 0x0A then [] # split_crlf r
      else (case split_crlf (b # r) of [] \<Rightarrow> [[a]] | p # ps \<Rightarrow> (a # p) # ps))"
| "split_crlf s = [s]"

definition eq_ignore_ascii_case :: "string \<Rightarrow> string \<Rightarrow> bool" where
  "eq_ignore_ascii_case a b \<longleftrightarrow> to_ascii_lowercase a = to_ascii_lowercase b"

text \<open>The last \<^verbatim>\<open>Authorization\<close> line before the first empty one.\<close>

fun auth_header :: "string list \<Rightarrow> string option \<Rightarrow> string option" where
  "auth_header [] found = found"
| "auth_header (line # lines) found =
     (if line = [] then found
      else auth_header lines
        (case split_once (CHR '':'') line of
           None \<Rightarrow> found
         | Some (name, value) \<Rightarrow> if eq_ignore_ascii_case name ''authorization'' then Some (trim value) else found))"

definition nth_or_empty :: "string list \<Rightarrow> nat \<Rightarrow> string" where
  "nth_or_empty parts i = (if i < length parts then parts ! i else [])"

definition http_response :: "nat \<Rightarrow> string \<Rightarrow> string \<Rightarrow> string" where
  "http_response status_code status_text body =
     ''HTTP/1.1 '' @ dec_str status_code @ '' '' @ status_text @ crlf @
     ''Content-Type: application/json'' @ crlf @
     ''Content-Length: '' @ dec_str (length body) @ crlf @
     ''Connection: close'' @ crlf @ crlf @ body"

fun escape_json :: "string \<Rightarrow> string" where
  "escape_json [] = []"
| "escape_json (ch # cs) =
     (if ch = CHR 0x22 then [CHR 0x5C, CHR 0x22]
      else if ch = CHR 0x5C then [CHR 0x5C, CHR 0x5C]
      else if ch = CHR 0x0A then [CHR 0x5C, CHR ''n'']
      else if ch = CHR 0x0D then [CHR 0x5C, CHR ''r'']
      else if ch = CHR 0x09 then [CHR 0x5C, CHR ''t'']
      else [ch]) @ escape_json cs"

subsection \<open>Reading a request\<close>

datatype read_error = Elapsed | Io io_error_kind

datatype read_result = ReadData bytes | ReadErr read_error

datatype request_read = TooLarge | TimedOutReading | ReadFailed | Received bytes bool

fun read_request :: "(read_error \<Rightarrow> bool) \<Rightarrow> read_result list \<Rightarrow> bytes \<Rightarrow> request_read" where
  "read_request timed_out [] request_buf =
     (if length request_buf \<ge> MAX_HTTP_REQUEST_SIZE then TooLarge else Received request_buf False)"
| "read_request timed_out (r # rs) request_buf =
     (if length request_buf \<ge> MAX_HTTP_REQUEST_SIZE then TooLarge
      else (case r of
          ReadErr e \<Rightarrow> if timed_out e then TimedOutReading else ReadFailed
        | ReadData chunk \<Rightarrow>
            let got = take (MAX_HTTP_REQUEST_SIZE - length request_buf) chunk in
            if got = [] then Received request_buf False
            else
              let request_buf = request_buf @ got
              in if find_http_header_end request_buf \<noteq> None then Received request_buf True
                 else read_request timed_out rs request_buf))"

subsection \<open>Answering it\<close>

text \<open>The request line and the authorization of a complete header.\<close>

definition http_method :: "bytes \<Rightarrow> string" where
  "http_method header = nth_or_empty (split_whitespace (hd (split_crlf (from_utf8_lossy header)))) 0"

definition http_path :: "bytes \<Rightarrow> string" where
  "http_path header = nth_or_empty (split_whitespace (hd (split_crlf (from_utf8_lossy header)))) 1"

definition http_auth :: "bytes \<Rightarrow> string option" where
  "http_auth header = auth_header (tl (split_crlf (from_utf8_lossy header))) None"

text \<open>What is written to the stream, if anything, or the error the handler returns.\<close>

datatype http_outcome = NoReply | Reply nat string string | HandlerError

definition answer_header ::
  "string \<Rightarrow> (string \<Rightarrow> 's \<Rightarrow> string option \<times> 's) \<Rightarrow> bytes \<Rightarrow> 's \<Rightarrow> http_outcome \<times> 's" where
  "answer_header token route header s =
     (if http_method header = [] \<or> http_path header = [] then
        (Reply 400 ''Bad Request'' ''{\"error\":\"bad_request_line\"}'', s)
      else if http_method header \<noteq> ''GET'' then
        (Reply 405 ''Method Not Allowed'' ''{\"error\":\"method_not_allowed\"}'', s)
      else if http_auth header \<noteq> Some (''Bearer '' @ token) then
        (Reply 401 ''Unauthorized'' ''{\"error\":\"unauthorized\"}'', s)
      else (case route (http_path header) s of
          (Some body, s) \<Rightarrow> (Reply 200 ''OK'' body, s)
        | (None, s) \<Rightarrow> (Reply 404 ''Not Found'' ''{\"error\":\"not_found\"}'', s)))"

definition handle_http ::
  "(read_error \<Rightarrow> bool) \<Rightarrow> string \<Rightarrow> (string \<Rightarrow> 's \<Rightarrow> string option \<times> 's) \<Rightarrow> read_result list \<Rightarrow> 's \<Rightarrow> http_outcome \<times> 's" where
  "handle_http timed_out token route reads s =
     (case read_request timed_out reads [] of
        TooLarge \<Rightarrow> (Reply 431 ''Request Header Fields Too Large'' ''{\"error\":\"request_too_large\"}'', s)
      | TimedOutReading \<Rightarrow> (Reply 408 ''Request Timeout'' ''{\"error\":\"request_timeout\"}'', s)
      | ReadFailed \<Rightarrow> (HandlerError, s)
      | Received request_buf header_complete \<Rightarrow>
          if request_buf = [] then (NoReply, s)
          else if \<not> header_complete then
            (Reply 400 ''Bad Request'' ''{\"error\":\"incomplete_request_headers\"}'', s)
          else
            let header_end = (case find_http_header_end request_buf of None \<Rightarrow> length request_buf | Some n \<Rightarrow> n)
            in answer_header token route (take header_end request_buf) s)"

section \<open>The end of a header\<close>

lemma header_end_shift: "header_end_from (Suc i) bs = map_option Suc (header_end_from i bs)"
  by (induction i bs rule: header_end_from.induct) simp_all

lemma header_end_Cons:
  "find_http_header_end (a # r) =
     (if take 4 (a # r) = [0x0D, 0x0A, 0x0D, 0x0A] then Some 4 else map_option Suc (find_http_header_end r))"
  by (cases "(0 :: nat, a # r)" rule: header_end_from.cases) (auto simp: find_http_header_end_def header_end_shift)

lemma header_end_Nil [simp]: "find_http_header_end [] = None"
  by (simp add: find_http_header_end_def)

abbreviation blank_line :: bytes where
  "blank_line \<equiv> [0x0D, 0x0A, 0x0D, 0x0A]"

abbreviation blank_at :: "bytes \<Rightarrow> nat \<Rightarrow> bool" where
  "blank_at bs k \<equiv> take 4 (drop k bs) = blank_line"

lemma blank_at_length: "blank_at bs k \<Longrightarrow> k + 4 \<le> length bs"
  by (drule arg_cong [where f = length]) auto

lemma header_end_iff: "find_http_header_end bs = Some n \<longleftrightarrow> 4 \<le> n \<and> blank_at bs (n - 4) \<and> (\<forall>k < n - 4. \<not> blank_at bs k)"
proof (induction bs arbitrary: n)
  case Nil
  then show ?case by simp
next
  case (Cons a bs)
  show ?case
  proof (cases "blank_at (a # bs) 0")
    case True
    then have "find_http_header_end (a # bs) = Some 4" by (simp add: header_end_Cons)
    moreover have "n = 4" if "4 \<le> n" "\<forall>k < n - 4. \<not> blank_at (a # bs) k" using that(1) that(2) [rule_format, of 0] True by linarith
    ultimately show ?thesis using True by auto
  next
    case False
    then have eq: "find_http_header_end (a # bs) = map_option Suc (find_http_header_end bs)" by (auto simp: header_end_Cons)
    have all: "(\<forall>k < Suc m. \<not> blank_at (a # bs) k) \<longleftrightarrow> (\<forall>k < m. \<not> blank_at bs k)" for m
      using False by (auto simp: less_Suc_eq_0_disj)
    show ?thesis
    proof (cases "n \<le> 4")
      case True
      then show ?thesis using False Cons.IH [of "n - 1"] by (auto simp: eq)
    next
      case big: False
      then obtain m where m: "n = Suc m" "4 \<le> m" by (cases n) auto
      then have "n - 4 = Suc (m - 4)" by simp
      then show ?thesis using Cons.IH [of m] m all [of "m - 4"] by (auto simp: eq)
    qed
  qed
qed

lemma header_end_bound: "find_http_header_end bs = Some n \<Longrightarrow> 4 \<le> n \<and> n \<le> length bs"
  using blank_at_length [of "n - 4" bs] by (auto simp: header_end_iff)

lemma header_end_take:
  assumes "n \<le> m"
  shows "find_http_header_end (take m bs) = Some n \<longleftrightarrow> find_http_header_end bs = Some n"
proof -
  have "blank_at (take m bs) k \<longleftrightarrow> blank_at bs k" if "k + 4 \<le> m" for k
    using that by (simp add: drop_take min_def)
  then show ?thesis using assms unfolding header_end_iff by (cases "4 \<le> n") auto
qed

lemma header_end_append: "find_http_header_end xs = Some n \<Longrightarrow> find_http_header_end (xs @ ys) = Some n"
  using header_end_take [of n "length xs" "xs @ ys"] header_end_bound by auto

section \<open>A request arrives in pieces\<close>

text \<open>The bytes a stream delivers before its first failed or empty read.\<close>

fun stream_bytes :: "read_result list \<Rightarrow> bytes" where
  "stream_bytes (ReadData chunk # rs) = (if chunk = [] then [] else chunk @ stream_bytes rs)"
| "stream_bytes _ = []"

lemma stream_bytes_pieces: "\<forall>c \<in> set chunks. c \<noteq> [] \<Longrightarrow> stream_bytes (map ReadData chunks @ rs) = concat chunks @ stream_bytes rs"
  by (induction chunks) auto

text \<open>One read into the room that is left.\<close>

lemma read_request_step:
  assumes "length buf < MAX_HTTP_REQUEST_SIZE" "r = ReadData chunk" "chunk \<noteq> []"
  obtains got more where "read_request timed_out (r # rs) buf =
      (if find_http_header_end (buf @ got) \<noteq> None then Received (buf @ got) True else read_request timed_out rs (buf @ got))"
    "buf @ stream_bytes (r # rs) = (buf @ got) @ more" "length (buf @ got) \<le> MAX_HTTP_REQUEST_SIZE"
    "got = chunk \<and> more = stream_bytes rs \<or> length (buf @ got) = MAX_HTTP_REQUEST_SIZE"
    "got = take (MAX_HTTP_REQUEST_SIZE - length buf) chunk" "got \<noteq> []"
proof -
  define got where "got = take (MAX_HTTP_REQUEST_SIZE - length buf) chunk"
  define more where "more = drop (MAX_HTTP_REQUEST_SIZE - length buf) chunk @ stream_bytes rs"
  have ne: "got \<noteq> []" using assms by (simp add: got_def)
  show thesis
  proof (rule that [of got more])
    show "read_request timed_out (r # rs) buf =
      (if find_http_header_end (buf @ got) \<noteq> None then Received (buf @ got) True else read_request timed_out rs (buf @ got))"
      using assms(1,2) ne by (simp add: got_def Let_def)
    show "buf @ stream_bytes (r # rs) = (buf @ got) @ more" using assms(2,3) by (simp add: got_def more_def)
    show "got = chunk \<and> more = stream_bytes rs \<or> length (buf @ got) = MAX_HTTP_REQUEST_SIZE"
      using assms(1) by (auto simp: got_def more_def)
  qed (use assms(1) ne in \<open>auto simp: got_def\<close>)
qed

lemma read_request_complete:
  assumes "find_http_header_end (buf @ stream_bytes rs) = Some n" "n \<le> MAX_HTTP_REQUEST_SIZE" "find_http_header_end buf = None"
  shows "\<exists>b. read_request timed_out rs buf = Received b True \<and> find_http_header_end b = Some n \<and>
    take n b = take n (buf @ stream_bytes rs)"
  using assms
proof (induction timed_out rs buf rule: read_request.induct)
  case (1 timed_out buf)
  then show ?case by simp
next
  case (2 timed_out r rs buf)
  let ?all = "buf @ stream_bytes (r # rs)"
  have short: "length buf < n"
    using header_end_take [of n "length buf" ?all] 2(2,4) by (cases "n \<le> length buf") auto
  then have "stream_bytes (r # rs) \<noteq> []" using 2(2) header_end_bound [of ?all n] by auto
  then obtain chunk where r: "r = ReadData chunk" "chunk \<noteq> []" by (cases r) (auto split: if_splits)
  have room: "length buf < MAX_HTTP_REQUEST_SIZE" using short 2(3) by simp
  obtain got more where g: "read_request timed_out (r # rs) buf =
      (if find_http_header_end (buf @ got) \<noteq> None then Received (buf @ got) True else read_request timed_out rs (buf @ got))"
    "?all = (buf @ got) @ more" "length (buf @ got) \<le> MAX_HTTP_REQUEST_SIZE"
    "got = chunk \<and> more = stream_bytes rs \<or> length (buf @ got) = MAX_HTTP_REQUEST_SIZE"
    "got = take (MAX_HTTP_REQUEST_SIZE - length buf) chunk" "got \<noteq> []"
    by (rule read_request_step [OF room r])
  show ?case
  proof (cases "find_http_header_end (buf @ got)")
    case (Some m)
    have "m = n" using header_end_append [OF Some, of more] 2(2) unfolding g(2) by simp
    then show ?thesis using Some header_end_bound [OF Some] unfolding g(1,2) by simp
  next
    case None
    have "length (buf @ got) \<noteq> MAX_HTTP_REQUEST_SIZE"
      using None header_end_take [of n "length (buf @ got)" ?all] 2(2,3) unfolding g(2) by auto
    then have "?all = (buf @ got) @ stream_bytes rs" using g(2,4) by simp
    then show ?thesis
      using 2(1) [OF _ r(1) g(5) g(6) refl] None 2(2,3) room unfolding g(1) by simp
  qed
qed

lemma read_request_received:
  assumes "read_request timed_out rs buf = Received b True"
  shows "\<exists>n \<le> MAX_HTTP_REQUEST_SIZE. find_http_header_end b = Some n \<and>
    find_http_header_end (buf @ stream_bytes rs) = Some n \<and> take n b = take n (buf @ stream_bytes rs)"
  using assms
proof (induction timed_out rs buf rule: read_request.induct)
  case (1 timed_out buf)
  then show ?case by (simp split: if_splits)
next
  case (2 timed_out r rs buf)
  then obtain chunk where r: "r = ReadData chunk" "chunk \<noteq> []" and room: "length buf < MAX_HTTP_REQUEST_SIZE"
    by (auto simp: Let_def split: if_splits read_result.splits)
  obtain got more where g: "read_request timed_out (r # rs) buf =
      (if find_http_header_end (buf @ got) \<noteq> None then Received (buf @ got) True else read_request timed_out rs (buf @ got))"
    "buf @ stream_bytes (r # rs) = (buf @ got) @ more" "length (buf @ got) \<le> MAX_HTTP_REQUEST_SIZE"
    "got = chunk \<and> more = stream_bytes rs \<or> length (buf @ got) = MAX_HTTP_REQUEST_SIZE"
    "got = take (MAX_HTTP_REQUEST_SIZE - length buf) chunk" "got \<noteq> []"
    by (rule read_request_step [OF room r])
  show ?case
  proof (cases "find_http_header_end (buf @ got)")
    case (Some n)
    then show ?thesis
      using g(3) header_end_bound [OF Some] header_end_append [OF Some, of more] 2(2) unfolding g(1,2) by auto
  next
    case None
    have "length (buf @ got) \<noteq> MAX_HTTP_REQUEST_SIZE" using 2(2) None unfolding g(1) by (cases rs) auto
    then have more: "more = stream_bytes rs" using g(4) by simp
    then show ?thesis
      using 2(1) [OF _ r(1) g(5) g(6) refl] None 2(2) room unfolding g(1,2) by simp
  qed
qed

text \<open>However a request is cut into reads, the answer is that to its header.\<close>

lemma request_in_pieces:
  assumes "\<forall>c \<in> set chunks. c \<noteq> []" "find_http_header_end (concat chunks) = Some n" "n \<le> 8192"
  shows "handle_http timed_out token route (map ReadData chunks @ later) s = answer_header token route (take n (concat chunks)) s"
proof -
  let ?rs = "map ReadData chunks @ later"
  have bytes: "stream_bytes ?rs = concat chunks @ stream_bytes later" using assms(1) by (rule stream_bytes_pieces)
  then have "find_http_header_end ([] @ stream_bytes ?rs) = Some n" using header_end_append [OF assms(2)] by simp
  from read_request_complete [OF this, of timed_out] assms(3)
  obtain b where b: "read_request timed_out ?rs [] = Received b True" "find_http_header_end b = Some n"
    "take n b = take n (stream_bytes ?rs)"
    by (auto simp: MAX_HTTP_REQUEST_SIZE_def)
  moreover have "b \<noteq> []" using b(2) by auto
  ultimately show ?thesis using header_end_bound [OF assms(2)] by (simp add: handle_http_def bytes)
qed

section \<open>Who gets an answer\<close>

text \<open>
  A service answers exactly the requests for its paths and leaves its state alone for every
  other one.  Whatever it is, a client without the token gets what a service without any
  pages would say.
\<close>

definition no_pages :: "string \<Rightarrow> unit \<Rightarrow> string option \<times> unit" where
  "no_pages path s = (None, s)"

lemma no_pages_never_ok: "fst (handle_http timed_out token no_pages reads ()) \<noteq> Reply 200 text body"
  by (auto simp: handle_http_def answer_header_def no_pages_def Let_def split: request_read.splits)

locale http_service =
  fixes route :: "string \<Rightarrow> 's \<Rightarrow> string option \<times> 's"
    and paths :: "string set"
  assumes unknown: "p \<notin> paths \<Longrightarrow> route p s = (None, s)"
    and known: "p \<in> paths \<Longrightarrow> fst (route p s) \<noteq> None"
    and named: "[] \<notin> paths"
begin

definition authorized :: "string \<Rightarrow> bytes \<Rightarrow> bool" where
  "authorized token header \<longleftrightarrow> http_method header = ''GET'' \<and> http_path header \<in> paths \<and> http_auth header = Some (''Bearer '' @ token)"

lemma answer_unauthorized:
  assumes "\<not> authorized token header"
  shows "answer_header token route header s = (fst (answer_header token no_pages header ()), s)"
proof -
  have "route (http_path header) s = (None, s)" if "http_path header \<notin> paths" using that by (rule unknown)
  then show ?thesis
    using assms
    by (cases "http_method header = [] \<or> http_path header = []"; cases "http_method header = ''GET''";
        cases "http_auth header = Some (''Bearer '' @ token)"; simp add: authorized_def answer_header_def no_pages_def)
qed

lemma answer_authorized:
  assumes "authorized token header"
  shows "answer_header token route header s =
    (Reply 200 ''OK'' (the (fst (route (http_path header) s))), snd (route (http_path header) s))"
proof -
  obtain body s' where "route (http_path header) s = (Some body, s')"
    using known [of "http_path header" s] assms by (cases "route (http_path header) s") (auto simp: authorized_def)
  moreover have "http_path header \<noteq> []" "http_method header \<noteq> []" using assms named by (auto simp: authorized_def)
  ultimately show ?thesis using assms by (simp add: authorized_def answer_header_def)
qed

lemma handle_unauthorized:
  assumes "\<And>n. find_http_header_end (stream_bytes reads) = Some n \<Longrightarrow> n \<le> MAX_HTTP_REQUEST_SIZE \<Longrightarrow>
      \<not> authorized token (take n (stream_bytes reads))"
  shows "handle_http timed_out token route reads s = (fst (handle_http timed_out token no_pages reads ()), s)"
proof (cases "read_request timed_out reads []")
  case (Received b complete)
  show ?thesis
  proof (cases complete)
    case True
    then obtain n where n: "n \<le> MAX_HTTP_REQUEST_SIZE" "find_http_header_end b = Some n"
      "find_http_header_end (stream_bytes reads) = Some n" "take n b = take n (stream_bytes reads)"
      using read_request_received [of timed_out reads "[]" b] Received by auto
    then have "b \<noteq> []" by auto
    then show ?thesis
      using answer_unauthorized [OF assms [OF n(3,1)]] n True Received by (simp add: handle_http_def)
  next
    case False
    then show ?thesis using Received by (cases "b = []") (auto simp: handle_http_def)
  qed
qed (auto simp: handle_http_def)

end

section \<open>Framing of a response\<close>

lemma header_end_skip: "0x0D \<notin> set l \<Longrightarrow> find_http_header_end (l @ r) = map_option (\<lambda>n. length l + n) (find_http_header_end r)"
  by (induction l) (cases "find_http_header_end r"; auto simp: header_end_Cons)+

lemma header_end_lines:
  assumes "\<forall>l \<in> set ls. l \<noteq> [] \<and> 0x0D \<notin> set l" "ls \<noteq> []"
  shows "find_http_header_end (concat (map (\<lambda>l. l @ [0x0D, 0x0A]) ls) @ [0x0D, 0x0A] @ body) =
    Some (length (concat (map (\<lambda>l. l @ [0x0D, 0x0A]) ls)) + 2)"
  using assms
proof (induction ls)
  case (Cons l ls)
  show ?case
  proof (cases "ls = []")
    case True
    then show ?thesis using Cons.prems by (simp add: header_end_skip header_end_Cons)
  next
    case False
    then obtain a m ms where ls: "ls = (a # m) # ms" "a \<noteq> 0x0D" using Cons.prems by (cases ls; cases "hd ls") auto
    then show ?thesis using Cons False by (simp add: header_end_skip header_end_Cons [of "0x0D"] header_end_Cons [of "0x0A"] option.map_comp comp_def)
  qed
qed simp

lemma split_crlf_line: "CHR 0x0D \<notin> set l \<Longrightarrow> split_crlf (l @ crlf @ r) = l # split_crlf r"
proof (induction l)
  case (Cons a l)
  then show ?case by (cases "l @ crlf @ r") (auto simp: crlf_def)
qed (simp add: crlf_def)

lemma bytes_of_str_append [simp]: "bytes_of_str (s @ t) = bytes_of_str s @ bytes_of_str t"
  by (simp add: bytes_of_str_def)

lemma length_bytes_of_str [simp]: "length (bytes_of_str s) = length s"
  by (simp add: bytes_of_str_def)

lemma bytes_of_str_empty: "bytes_of_str s = [] \<longleftrightarrow> s = []"
  by (simp add: bytes_of_str_def)

lemma bytes_of_crlf: "bytes_of_str crlf = [0x0D, 0x0A]"
  by code_simp

lemma cr_in_bytes: "0x0D \<in> set (bytes_of_str s) \<longleftrightarrow> CHR 0x0D \<in> set s"
proof -
  have key: "(of_nat (of_char c) :: u8) = 0x0D \<longleftrightarrow> c = CHR 0x0D" for c
  proof
    assume "(of_nat (of_char c) :: u8) = 0x0D"
    then have "unat (of_nat (of_char c) :: u8) = 13" by simp
    then have "(of_char c :: nat) = 13" by (simp add: unat_of_nat)
    then have "char_of (of_char c :: nat) = (char_of (13 :: nat) :: char)" by simp
    moreover have "char_of (13 :: nat) = CHR 0x0D" by code_simp
    ultimately show "c = CHR 0x0D" by simp
  qed simp
  show ?thesis
  proof (induction s)
    case (Cons c s)
    then show ?case using key [of c] by (auto simp: bytes_of_str_def)
  qed (simp add: bytes_of_str_def)
qed

lemma dec_str_no_cr [simp]: "CHR 0x0D \<notin> set (dec_str n)"
  using dec_str_digits [of "CHR 0x0D" n] by auto

text \<open>A header: its lines, each ended, and an empty one.\<close>

definition header_of :: "string list \<Rightarrow> string" where
  "header_of ls = concat (map (\<lambda>l. l @ crlf) ls) @ crlf"

lemma header_of_lines: "\<forall>l \<in> set ls. CHR 0x0D \<notin> set l \<Longrightarrow> split_crlf (header_of ls) = ls @ [[], []]"
proof (induction ls)
  case Nil
  then show ?case by (simp add: header_of_def crlf_def)
next
  case (Cons l ls)
  have "header_of (l # ls) = l @ crlf @ header_of ls" by (simp add: header_of_def)
  then have "split_crlf (header_of (l # ls)) = l # split_crlf (header_of ls)" using Cons.prems by (simp add: split_crlf_line)
  then show ?case using Cons by simp
qed

lemma header_of_end:
  assumes "\<forall>l \<in> set ls. l \<noteq> [] \<and> CHR 0x0D \<notin> set l" "ls \<noteq> []"
  shows "find_http_header_end (bytes_of_str (header_of ls @ body)) = Some (length (header_of ls))"
proof -
  have eq: "bytes_of_str (concat (map (\<lambda>l. l @ crlf) ls)) = concat (map (\<lambda>l. l @ [0x0D, 0x0A]) (map bytes_of_str ls))"
    by (induction ls) (simp_all add: bytes_of_crlf, simp add: bytes_of_str_def)
  have "l \<noteq> [] \<and> 0x0D \<notin> set l" if "l \<in> set (map bytes_of_str ls)" for l
    using that assms(1) by (auto simp: cr_in_bytes bytes_of_str_empty)
  then have "find_http_header_end (concat (map (\<lambda>l. l @ [0x0D, 0x0A]) (map bytes_of_str ls)) @ [0x0D, 0x0A] @ bytes_of_str body) =
      Some (length (concat (map (\<lambda>l. l @ [0x0D, 0x0A]) (map bytes_of_str ls))) + 2)"
    by (intro header_end_lines) (use assms(2) in auto)
  moreover have "length crlf = 2" by (simp add: crlf_def)
  ultimately show ?thesis unfolding eq [symmetric] by (simp add: header_of_def bytes_of_crlf)
qed

text \<open>
  A client finds the body where the header ends and its length in the header.
\<close>

theorem http_response_frames_its_body:
  assumes "CHR 0x0D \<notin> set status_text"
  shows "\<exists>head. http_response status_code status_text body = head @ body \<and>
    find_http_header_end (bytes_of_str (http_response status_code status_text body)) = Some (length head) \<and>
    ''Content-Length: '' @ dec_str (length body) \<in> set (split_crlf head)"
proof -
  define ls where "ls = [''HTTP/1.1 '' @ dec_str status_code @ '' '' @ status_text, ''Content-Type: application/json'',
    ''Content-Length: '' @ dec_str (length body), ''Connection: close'']"
  have "\<forall>l \<in> set ls. l \<noteq> [] \<and> CHR 0x0D \<notin> set l" "ls \<noteq> []" using assms by (auto simp: ls_def)
  moreover have "http_response status_code status_text body = header_of ls @ body"
    by (simp add: http_response_def header_of_def ls_def)
  ultimately show ?thesis
    using header_of_end [of ls body] header_of_lines [of ls] by (intro exI [of _ "header_of ls"]) (simp add: ls_def)
qed

lemma lossy_ascii: "\<forall>c \<in> set s. (of_char c :: nat) < 128 \<Longrightarrow> from_utf8_lossy (bytes_of_str s) = s"
proof (induction s)
  case Nil
  then show ?case by (simp add: bytes_of_str_def from_utf8_lossy.simps)
next
  case (Cons c s)
  let ?b = "of_nat (of_char c) :: u8"
  have b: "unat ?b = of_char c" using Cons.prems by (simp add: unat_of_nat)
  then have "?b < 0x80" using Cons.prems by (simp add: word_less_nat_alt)
  then have "utf8_chunk (?b # bytes_of_str s) = (1, True)" by (simp add: utf8_chunk_def)
  moreover have "bytes_of_str (c # s) = ?b # bytes_of_str s" by (simp add: bytes_of_str_def)
  moreover have "str_of_bytes [?b] = [c]" by (simp add: str_of_bytes_def b)
  ultimately show ?case using Cons by (subst from_utf8_lossy.simps) simp
qed

section \<open>Strings in JSON\<close>

text \<open>
  A reader of JSON strings: it starts after the opening quote and returns the string and
  what follows its closing quote.  A control character may not stand in a string.
\<close>

definition json_unescape :: "char \<Rightarrow> char option" where
  "json_unescape c =
     (if c = CHR 0x22 \<or> c = CHR 0x5C \<or> c = CHR ''/'' then Some c
      else if c = CHR ''n'' then Some (CHR 0x0A) else if c = CHR ''r'' then Some (CHR 0x0D)
      else if c = CHR ''t'' then Some (CHR 0x09) else if c = CHR ''b'' then Some (CHR 0x08)
      else if c = CHR ''f'' then Some (CHR 0x0C) else None)"

definition is_control :: "char \<Rightarrow> bool" where
  "is_control c \<longleftrightarrow> (of_char c :: nat) < 32"

fun read_json_string :: "string \<Rightarrow> (string \<times> string) option" where
  "read_json_string [] = None"
| "read_json_string (c # cs) =
     (if c = CHR 0x22 then Some ([], cs)
      else if c = CHR 0x5C then
        (case cs of
           [] \<Rightarrow> None
         | e # r \<Rightarrow> (case json_unescape e of
              None \<Rightarrow> None
            | Some x \<Rightarrow> map_option (map_prod (Cons x) id) (read_json_string r)))
      else if is_control c then None
      else map_option (map_prod (Cons c) id) (read_json_string cs))"

lemma escaped_string:
  "read_json_string (escape_json s @ CHR 0x22 # rest) =
     (if \<forall>c \<in> set s. is_control c \<longrightarrow> c = CHR 0x0A \<or> c = CHR 0x0D \<or> c = CHR 0x09 then Some (s, rest) else None)"
  by (induction s) (auto simp: json_unescape_def is_control_def)

text \<open>
  An escaped string reads back as it was, unless it holds a control character other than
  newline, return and tab: then it is not a JSON string at all.
\<close>

theorem escaped_string_roundtrip:
  "read_json_string (escape_json s @ CHR 0x22 # rest) =
     (if \<forall>c \<in> set s. is_control c \<longrightarrow> c = CHR 0x0A \<or> c = CHR 0x0D \<or> c = CHR 0x09 then Some (s, rest) else None)"
  by (rule escaped_string)

theorem escaped_string_roundtrip_witness:
  "read_json_string (escape_json [CHR ''a'', CHR 0x22, CHR 0x0A] @ [CHR 0x22, CHR '','']) = Some ([CHR ''a'', CHR 0x22, CHR 0x0A], '','')"
  using escaped_string_roundtrip [of "[CHR ''a'', CHR 0x22, CHR 0x0A]" "'',''"] by (simp add: is_control_def)

section \<open>Witnesses\<close>

theorem http_response_frames_its_body_witness:
  "\<exists>head. http_response 200 ''OK'' ''{}'' = head @ ''{}'' \<and>
    find_http_header_end (bytes_of_str (http_response 200 ''OK'' ''{}'')) = Some (length head)"
  using http_response_frames_its_body [of "''OK''" 200 "''{}''"] by auto

definition sample_lines :: "string list" where
  "sample_lines = [''GET /v1/config HTTP/1.1'', ''Authorization: Bearer t'']"

definition sample_request :: "bytes list" where
  "sample_request = [bytes_of_str (''GET /v1/config HTTP/1.1'' @ crlf @ ''Authori''),
     bytes_of_str (''zation: Bearer t'' @ crlf), bytes_of_str crlf]"

lemma sample_request_all: "concat sample_request = bytes_of_str (header_of sample_lines)"
  by (simp add: sample_request_def header_of_def sample_lines_def) (simp add: bytes_of_str_def)

lemma sample_lines_ok: "\<forall>l \<in> set sample_lines. l \<noteq> [] \<and> CHR 0x0D \<notin> set l" "sample_lines \<noteq> []"
  by (simp_all add: sample_lines_def)

lemma sample_request_end: "find_http_header_end (concat sample_request) = Some (length (concat sample_request))"
  using header_of_end [OF sample_lines_ok, of "[]"] by (simp add: sample_request_all)

lemma sample_request_parts:
  "http_method (concat sample_request) = ''GET''" "http_path (concat sample_request) = ''/v1/config''"
  "http_auth (concat sample_request) = Some ''Bearer t''"
proof -
  have "\<forall>c \<in> set (header_of sample_lines). (of_char c :: nat) < 128" by code_simp
  then have "split_crlf (from_utf8_lossy (concat sample_request)) = sample_lines @ [[], []]"
    using sample_lines_ok by (simp add: sample_request_all lossy_ascii header_of_lines)
  moreover have "split_whitespace (hd (sample_lines @ [[], []])) = [''GET'', ''/v1/config'', ''HTTP/1.1'']"
    "auth_header (tl (sample_lines @ [[], []])) None = Some ''Bearer t''"
    by code_simp+
  ultimately show "http_method (concat sample_request) = ''GET''" "http_path (concat sample_request) = ''/v1/config''"
    "http_auth (concat sample_request) = Some ''Bearer t''"
    by (simp_all add: http_method_def http_path_def http_auth_def nth_or_empty_def)
qed

end
