(* ===== verification/Json_Text.thy ===== *)
theory Json_Text
  imports Http Json_Value
begin

text \<open>
  A reader for JSON text without white space, as an independent measure of the text the
  relay writes by hand: \<^verbatim>\<open>read_json_string\<close> for strings, numbers, arrays and objects.  The last
  section builds texts the reader understands from parts it understands.
\<close>

section \<open>The reader\<close>

definition is_digit :: "char \<Rightarrow> bool" where
  "is_digit c \<longleftrightarrow> digit_val c \<noteq> None"

definition digits_value :: "string \<Rightarrow> nat" where
  "digits_value ds = fold (\<lambda>c n. n * 10 + the (digit_val c)) ds 0"

fun json_read :: "nat \<Rightarrow> string \<Rightarrow> (json \<times> string) option"
  and json_members :: "nat \<Rightarrow> string \<Rightarrow> ((string \<times> json) list \<times> string) option"
  and json_elements :: "nat \<Rightarrow> string \<Rightarrow> (json list \<times> string) option" where
  "json_read 0 s = None"
| "json_read (Suc k) s =
     (case s of
        [] \<Rightarrow> None
      | c # cs \<Rightarrow>
          if c = CHR 0x22 then map_option (map_prod JStr id) (read_json_string cs)
          else if c = CHR ''{'' then
            (if take 1 cs = ''}'' then Some (JObj [], tl cs) else map_option (map_prod JObj id) (json_members k cs))
          else if c = CHR ''['' then
            (if take 1 cs = '']'' then Some (JArr [], tl cs) else map_option (map_prod JArr id) (json_elements k cs))
          else if is_digit c then Some (JNum (digits_value (takeWhile is_digit s)), dropWhile is_digit s)
          else None)"
| "json_members 0 s = None"
| "json_members (Suc k) s =
     (if take 1 s \<noteq> [CHR 0x22] then None
      else (case read_json_string (tl s) of
          None \<Rightarrow> None
        | Some (key, r) \<Rightarrow>
            if take 1 r \<noteq> '':'' then None
            else (case json_read k (tl r) of
                None \<Rightarrow> None
              | Some (v, r) \<Rightarrow>
                  if take 1 r = ''}'' then Some ([(key, v)], tl r)
                  else if take 1 r = '','' then map_option (map_prod (Cons (key, v)) id) (json_members k (tl r))
                  else None)))"
| "json_elements 0 s = None"
| "json_elements (Suc k) s =
     (case json_read k s of
        None \<Rightarrow> None
      | Some (v, r) \<Rightarrow>
          if take 1 r = '']'' then Some ([v], tl r)
          else if take 1 r = '','' then map_option (map_prod (Cons v) id) (json_elements k (tl r))
          else None)"

section \<open>Texts it reads\<close>

definition no_digit :: "string \<Rightarrow> bool" where
  "no_digit rest \<longleftrightarrow> (\<forall>c r. rest = c # r \<longrightarrow> \<not> is_digit c)"

definition reads :: "string \<Rightarrow> json \<Rightarrow> bool" where
  "reads t j \<longleftrightarrow> (\<forall>k rest. length t \<le> k \<longrightarrow> no_digit rest \<longrightarrow> json_read k (t @ rest) = Some (j, rest))"

fun join_comma :: "string list \<Rightarrow> string" where
  "join_comma [] = []"
| "join_comma [s] = s"
| "join_comma (s # ss) = s @ '','' @ join_comma ss"

text \<open>A field of an object, with its text and its value.\<close>

definition field_text :: "string \<times> string \<times> json \<Rightarrow> string" where
  "field_text f = [CHR 0x22] @ escape_json (fst f) @ [CHR 0x22] @ '':'' @ fst (snd f)"

definition field_value :: "string \<times> string \<times> json \<Rightarrow> string \<times> json" where
  "field_value f = (fst f, snd (snd f))"

definition plain :: "string \<Rightarrow> bool" where
  "plain s \<longleftrightarrow> (\<forall>c \<in> set s. is_control c \<longrightarrow> c = CHR 0x0A \<or> c = CHR 0x0D \<or> c = CHR 0x09)"

lemma no_digit_simps [simp]:
  "no_digit []" "no_digit (CHR '','' # r)" "no_digit (CHR ''}'' # r)" "no_digit (CHR '']'' # r)"
  by (simp_all add: no_digit_def is_digit_def digit_val_def)

lemma reads_str: "plain s \<Longrightarrow> reads ([CHR 0x22] @ escape_json s @ [CHR 0x22]) (JStr s)"
  unfolding reads_def
proof (intro allI impI)
  fix k rest
  assume "plain s" "length ([CHR 0x22] @ escape_json s @ [CHR 0x22]) \<le> k"
  moreover then obtain m where "k = Suc m" by (cases k) auto
  ultimately show "json_read k (([CHR 0x22] @ escape_json s @ [CHR 0x22]) @ rest) = Some (JStr s, rest)"
    by (simp add: escaped_string plain_def)
qed

lemma members_read:
  assumes "\<forall>f \<in> set fs. plain (fst f) \<and> reads (fst (snd f)) (snd (snd f))" "fs \<noteq> []"
    and "length (join_comma (map field_text fs)) \<le> k"
  shows "json_members k (join_comma (map field_text fs) @ CHR ''}'' # rest) = Some (map field_value fs, rest)"
  using assms
proof (induction fs arbitrary: k)
  case (Cons f fs)
  obtain key t j where f: "f = (key, t, j)" by (cases f)
  have t: "plain key" "reads t j" using Cons.prems(1) f by simp_all
  have ft: "field_text f = CHR 0x22 # escape_json key @ CHR 0x22 # CHR '':'' # t" "field_value f = (key, j)"
    by (simp_all add: f field_text_def field_value_def)
  obtain m where m: "k = Suc m" "length t \<le> m" using Cons.prems(3) f by (cases k; cases fs) (auto simp: field_text_def)
  have key: "read_json_string (escape_json key @ CHR 0x22 # r) = Some (key, r)" for r using t(1) by (simp add: escaped_string plain_def)
  have val: "json_read m (t @ r) = Some (j, r)" if "no_digit r" for r using t(2) m(2) that by (simp add: reads_def)
  show ?case
  proof (cases fs)
    case Nil
    then show ?thesis by (simp add: m ft key val)
  next
    case (Cons g gs)
    then have "length (join_comma (map field_text fs)) \<le> m" using Cons.prems(3) m(1) by simp
    then have "json_members m (join_comma (map field_text fs) @ CHR ''}'' # rest) = Some (map field_value fs, rest)"
      using Cons.IH Cons.prems(1) Cons by simp
    then show ?thesis using Cons by (simp add: m ft key val)
  qed
qed simp

lemma elements_read:
  assumes "\<forall>e \<in> set es. reads (fst e) (snd e)" "es \<noteq> []" "length (join_comma (map fst es)) < k"
  shows "json_elements k (join_comma (map fst es) @ CHR '']'' # rest) = Some (map snd es, rest)"
  using assms
proof (induction es arbitrary: k)
  case (Cons e es)
  obtain t j where e: "e = (t, j)" "reads t j" using Cons.prems(1) by (cases e) simp
  obtain m where m: "k = Suc m" "length t \<le> m" using Cons.prems(3) e(1) by (cases k; cases es) auto
  have val: "json_read m (t @ r) = Some (j, r)" if "no_digit r" for r using e(2) m(2) that by (simp add: reads_def)
  show ?case
  proof (cases es)
    case Nil
    then show ?thesis by (simp add: m e val)
  next
    case (Cons g gs)
    then have "length (join_comma (map fst es)) < m" using Cons.prems(3) m(1) by simp
    then have "json_elements m (join_comma (map fst es) @ CHR '']'' # rest) = Some (map snd es, rest)"
      using Cons.IH Cons.prems(1) Cons by simp
    then show ?thesis using Cons by (simp add: m e val)
  qed
qed simp

lemma reads_obj:
  assumes "\<forall>f \<in> set fs. plain (fst f) \<and> reads (fst (snd f)) (snd (snd f))" "fs \<noteq> []"
  shows "reads (''{'' @ join_comma (map field_text fs) @ ''}'') (JObj (map field_value fs))"
  unfolding reads_def
proof (intro allI impI)
  fix k rest
  let ?t = "join_comma (map field_text fs)"
  assume "length (''{'' @ ?t @ ''}'') \<le> k"
  then obtain m where m: "k = Suc m" "length ?t \<le> m" by (cases k) auto
  obtain r where "?t = CHR 0x22 # r" using assms(2) by (cases fs; cases "tl fs") (auto simp: field_text_def)
  then show "json_read k ((''{'' @ ?t @ ''}'') @ rest) = Some (JObj (map field_value fs), rest)"
    using members_read [OF assms m(2), of rest] by (simp add: m(1))
qed

lemma reads_start: "reads t j \<Longrightarrow> \<exists>c r. t = c # r \<and> c \<noteq> CHR '']''"
proof (rule ccontr)
  assume a: "reads t j" "\<nexists>c r. t = c # r \<and> c \<noteq> CHR '']''"
  have "json_read (Suc (length t)) (t @ '']'') = Some (j, '']'')"
    using a(1) [unfolded reads_def, rule_format, of "Suc (length t)" "'']''"] by (simp del: json_read.simps)
  moreover have "take 1 (t @ '']'') = '']''" using a(2) by (cases t) auto
  ultimately show False by (cases t) (auto simp: is_digit_def digit_val_def)
qed

lemma reads_arr:
  assumes "\<forall>e \<in> set es. reads (fst e) (snd e)"
  shows "reads (''['' @ join_comma (map fst es) @ '']'') (JArr (map snd es))"
  unfolding reads_def
proof (intro allI impI)
  fix k rest
  let ?t = "join_comma (map fst es)"
  assume "length (''['' @ ?t @ '']'') \<le> k"
  then obtain m where m: "k = Suc m" "length ?t < m" by (cases k) auto
  show "json_read k ((''['' @ ?t @ '']'') @ rest) = Some (JArr (map snd es), rest)"
  proof (cases "es = []")
    case True
    then show ?thesis by (simp add: m(1) is_digit_def digit_val_def)
  next
    case False
    then obtain e es' where es: "es = e # es'" by (cases es) auto
    then obtain c r where "fst e = c # r" "c \<noteq> CHR '']''" using reads_start [of "fst e" "snd e"] assms by auto
    then obtain c r where "?t = c # r" "c \<noteq> CHR '']''" by (cases es') (auto simp: es)
    then show ?thesis using elements_read [OF assms False m(2), of rest] by (simp add: m(1))
  qed
qed

lemma dec_str_all_digits: "c \<in> set (dec_str n) \<Longrightarrow> is_digit c"
  using dec_str_digits [of c n] by (auto simp: is_digit_def digit_val_def)

lemma dec_str_value: "digits_value (dec_str n) = n"
proof (induction n rule: dec_str.induct)
  case (1 n)
  have d: "digit_val (char_of (48 + k)) = Some k" if "k < 10" for k :: nat using that by (simp add: digit_val_def of_char_of)
  show ?case
    using 1 d [of n] d [of "n mod 10"] by (subst dec_str.simps) (auto simp: digits_value_def)
qed

lemma reads_num: "reads (dec_str n) (JNum n)"
  unfolding reads_def
proof (intro allI impI)
  fix k rest
  assume "length (dec_str n) \<le> k" and rest: "no_digit rest"
  moreover have "dec_str n \<noteq> []" by (subst dec_str.simps) simp
  then obtain c cs where c: "dec_str n = c # cs" by (cases "dec_str n") auto
  ultimately obtain m where m: "k = Suc m" by (cases k) auto
  have tw: "takeWhile is_digit (dec_str n @ rest) = dec_str n" "dropWhile is_digit (dec_str n @ rest) = rest"
    using rest dec_str_all_digits [of _ n] by (cases rest; auto simp: no_digit_def takeWhile_append dropWhile_append)+
  have "is_digit c" using dec_str_all_digits [of c n] c by simp
  then have "c \<noteq> CHR 0x22" "c \<noteq> CHR ''{''" "c \<noteq> CHR ''[''" "is_digit c" by (auto simp: is_digit_def digit_val_def)
  then show "json_read k (dec_str n @ rest) = Some (JNum n, rest)"
    using tw dec_str_value [of n] by (simp add: m c)
qed

end
