(* ===== verification/Dest_Policy.thy ===== *)
theory Dest_Policy
  imports Net_Addr "HOL-Library.Product_Lexorder"
begin

unbundle bit_operations_syntax

text \<open>
  The destination policy of \<^verbatim>\<open>src/src/dest_policy.rs\<close>: parsing of the allowlist,
  the sorted set of disjoint prefixes with its binary search, the decision on a
  packet and the sampled, capped tally of unlisted destinations.

  \<^verbatim>\<open>partition_point\<close> of the standard library is the length of the longest prefix on
  which the predicate holds, which is what it returns on a partitioned slice;
  \<open>netset_new\<close> sorts its elements, so its slices are partitioned.  Two networks
  with the same sort key are equal, so the unstable sort of the source has one
  result.
\<close>

section \<open>Definitions\<close>

datatype dest_mode = Mode_Off | Mode_Observe | Mode_Enforce

definition mode_parse :: "string option \<Rightarrow> dest_mode" where
  "mode_parse raw =
     (case map_option (\<lambda>v. to_ascii_lowercase (trim v)) raw of
        Some v \<Rightarrow> if v = ''off'' then Mode_Off else if v = ''enforce'' then Mode_Enforce else Mode_Observe
      | None \<Rightarrow> Mode_Observe)"

fun mode_as_str :: "dest_mode \<Rightarrow> string" where
  "mode_as_str Mode_Off = ''off''"
| "mode_as_str Mode_Observe = ''observe''"
| "mode_as_str Mode_Enforce = ''enforce''"

record net =
  net_base :: u32
  net_mask :: u32

definition MIN_PREFIX_LEN :: nat where
  "MIN_PREFIX_LEN = 8"

definition prefix_mask :: "nat \<Rightarrow> u32" where
  "prefix_mask len = push_bit (32 - len) (- 1)"

definition net_parse :: "string \<Rightarrow> net option" where
  "net_parse cidr =
     (case split_once (CHR ''/'') (trim cidr) of
        None \<Rightarrow> None
      | Some (addr, len) \<Rightarrow>
          (case parse_ipv4 addr of
             None \<Rightarrow> None
           | Some ip \<Rightarrow>
               (case parse_uint 4294967295 len of
                  None \<Rightarrow> None
                | Some l \<Rightarrow>
                    if \<not> (MIN_PREFIX_LEN \<le> l \<and> l \<le> 32) then None
                    else Some \<lparr>net_base = u32_of_ipv4 ip AND prefix_mask l, net_mask = prefix_mask l\<rparr>)))"

definition net_contains :: "net \<Rightarrow> u32 \<Rightarrow> bool" where
  "net_contains n ip \<longleftrightarrow> (ip AND net_mask n) = net_base n"

definition net_covers :: "net \<Rightarrow> net \<Rightarrow> bool" where
  "net_covers self other \<longleftrightarrow> net_mask self \<le> net_mask other \<and> net_contains self (net_base other)"

type_synonym net_set = "net list"

definition netset_push :: "net_set \<Rightarrow> net \<Rightarrow> net_set" where
  "netset_push kept n = (if kept \<noteq> [] \<and> net_covers (last kept) n then kept else kept @ [n])"

definition net_key :: "net \<Rightarrow> u32 \<times> u32" where
  "net_key n = (net_base n, net_mask n)"

definition netset_new :: "net list \<Rightarrow> net_set" where
  "netset_new nets = foldl netset_push [] (sort_key net_key nets)"

definition partition_point :: "('a \<Rightarrow> bool) \<Rightarrow> 'a list \<Rightarrow> nat" where
  "partition_point p xs = length (takeWhile p xs)"

definition netset_contains :: "net_set \<Rightarrow> ipv4 \<Rightarrow> bool" where
  "netset_contains ns ip =
     (let v = u32_of_ipv4 ip; after = partition_point (\<lambda>n. net_base n \<le> v) ns
      in 0 < after \<and> net_contains (ns ! (after - 1)) v)"

record allowlist =
  al_udp :: "net list"
  al_tcp :: "net list"
  al_invalid_lines :: nat

definition parse_entry :: "string list \<Rightarrow> (bool \<times> bool \<times> net) option" where
  "parse_entry words =
     (case words of
        [cidr] \<Rightarrow> map_option (\<lambda>n. (True, True, n)) (net_parse cidr)
      | [proto, cidr] \<Rightarrow>
          if proto = ''udp'' then map_option (\<lambda>n. (True, False, n)) (net_parse cidr)
          else if proto = ''tcp'' then map_option (\<lambda>n. (False, True, n)) (net_parse cidr)
          else None
      | _ \<Rightarrow> None)"

definition parse_allowlist_line :: "allowlist \<Rightarrow> string \<Rightarrow> allowlist" where
  "parse_allowlist_line l raw =
     (let line = trim (takeWhile (\<lambda>c. c \<noteq> CHR ''#'') raw) in
      if line = [] then l
      else (case parse_entry (split_whitespace line) of
              Some (udp, tcp, n) \<Rightarrow>
                let l = (if udp then l\<lparr>al_udp := al_udp l @ [n]\<rparr> else l)
                in (if tcp then l\<lparr>al_tcp := al_tcp l @ [n]\<rparr> else l)
            | None \<Rightarrow> l\<lparr>al_invalid_lines := al_invalid_lines l + 1\<rparr>))"

definition parse_allowlist :: "string \<Rightarrow> allowlist" where
  "parse_allowlist text =
     foldl parse_allowlist_line \<lparr>al_udp = [], al_tcp = [], al_invalid_lines = 0\<rparr> (str_lines text)"

definition DEFAULT_TCP_PORTS :: "u16 list" where
  "DEFAULT_TCP_PORTS = [80, 443]"

definition parse_ports :: "string option \<Rightarrow> u16 list" where
  "parse_ports raw =
     (let ports = filter (\<lambda>p. p \<noteq> 0)
        (List.map_filter (\<lambda>p. map_option of_nat (parse_uint 65535 (trim p)))
          (split_char (CHR '','') (case raw of None \<Rightarrow> '''' | Some s \<Rightarrow> s)))
      in if ports = [] then DEFAULT_TCP_PORTS else ports)"

record dest_counters =
  udp_unlisted :: u64
  tcp_unlisted_network :: u64
  tcp_unlisted_port :: u64
  dest_dropped :: u64

record dest_tally =
  ta_networks :: "(u8 \<times> u32, u64) dmap"
  ta_tcp_ports :: "(u16, u64) dmap"
  ta_overflow :: u64

datatype unlisted = UnNetwork | UnPort

record dest_policy =
  dp_mode :: dest_mode
  dp_enforce_refused :: "string option"
  dp_notes :: "string list"
  dp_source :: string
  dp_udp :: net_set
  dp_tcp :: net_set
  dp_tcp_ports :: "u16 list"
  dp_sample_every :: u64
  dp_counters :: dest_counters
  dp_tick :: u64
  dp_tally :: dest_tally

definition SAMPLE_EVERY :: u64 where
  "SAMPLE_EVERY = 16"

definition SAMPLE_CAP :: nat where
  "SAMPLE_CAP = 256"

definition SNAPSHOT_TOP :: nat where
  "SNAPSHOT_TOP = 32"

definition BUILT_IN_ROBLOX :: "string list" where
  "BUILT_IN_ROBLOX =
     [''128.116.0.0/17'', ''103.140.28.0/23'', ''141.193.3.0/24'', ''205.201.62.0/24'',
      ''204.13.168.0/24'', ''204.13.169.0/24'', ''204.13.170.0/24'', ''204.13.171.0/24'',
      ''204.13.172.0/24'', ''204.13.173.0/24'', ''204.13.174.0/24'', ''204.9.184.0/24'',
      ''23.173.192.0/24'']"

definition enforce_refused_text :: string where
  "enforce_refused_text =
     ''enforce needs a readable RELAY_DEST_ALLOWLIST_FILE covering UDP and TCP. '' @
     ''The built-in list has no CloudFront ranges, so enforcing it would cut '' @
     ''Route Assist''"

text \<open>
  The notes of \<^verbatim>\<open>DestPolicy::build\<close> and the list it loaded.  A read error is given
  by the text it displays as.
\<close>

definition load_allowlist ::
  "(string \<times> (string + string)) option \<Rightarrow> string list \<times> (string \<times> allowlist) option" where
  "load_allowlist file =
     (case file of
        None \<Rightarrow> ([], None)
      | Some (path, Inl err) \<Rightarrow>
          ([''cannot read '' @ path @ '': '' @ err @ ''; using the built-in list''], None)
      | Some (path, Inr text) \<Rightarrow>
          (let l = parse_allowlist text;
               skipped = (if 0 < al_invalid_lines l
                 then [path @ '': skipped '' @ dec_str (al_invalid_lines l) @ '' unreadable lines'']
                 else [])
           in if al_udp l = [] \<or> al_tcp l = []
              then (skipped @ [path @ '' needs prefixes for both UDP and TCP; using the built-in list''], None)
              else (skipped, Some (path, l))))"

definition dest_build ::
  "dest_mode \<Rightarrow> (string \<times> (string + string)) option \<Rightarrow> u16 list \<Rightarrow> dest_policy" where
  "dest_build requested file tcp_ports =
     (let (notes, loaded) = load_allowlist file;
          refused = (requested = Mode_Enforce \<and> loaded = None);
          roblox = List.map_filter net_parse BUILT_IN_ROBLOX;
          (source, udp, tcp) = (case loaded of
              Some (path, l) \<Rightarrow> (path, al_udp l, al_tcp l)
            | None \<Rightarrow> (''built-in'', roblox, roblox))
      in \<lparr>dp_mode = (if refused then Mode_Observe else requested),
          dp_enforce_refused = (if refused then Some enforce_refused_text else None),
          dp_notes = notes,
          dp_source = source,
          dp_udp = netset_new udp,
          dp_tcp = netset_new tcp,
          dp_tcp_ports = tcp_ports,
          dp_sample_every = SAMPLE_EVERY,
          dp_counters = \<lparr>udp_unlisted = 0, tcp_unlisted_network = 0, tcp_unlisted_port = 0, dest_dropped = 0\<rparr>,
          dp_tick = 0,
          dp_tally = \<lparr>ta_networks = [], ta_tcp_ports = [], ta_overflow = 0\<rparr>\<rparr>)"

definition dest_from_env ::
  "(string \<Rightarrow> string option) \<Rightarrow> (string \<Rightarrow> string + string) \<Rightarrow> dest_policy" where
  "dest_from_env env read_to_string =
     (let mode = mode_parse (env ''RELAY_DEST_POLICY_MODE'');
          file = (case map_option trim (env ''RELAY_DEST_ALLOWLIST_FILE'') of
              None \<Rightarrow> None
            | Some path \<Rightarrow> if path = [] then None else Some (path, read_to_string path));
          tcp_ports = parse_ports (env ''RELAY_DEST_TCP_PORTS'')
      in dest_build mode file tcp_ports)"

definition bump :: "'k \<Rightarrow> ('k, u64) dmap \<Rightarrow> u64 \<Rightarrow> ('k, u64) dmap \<times> u64" where
  "bump key m overflow =
     (case dm_get m key of
        Some count \<Rightarrow> (dm_insert key (count + 1) m, overflow)
      | None \<Rightarrow> if dm_len m < SAMPLE_CAP then (dm_insert key 1 m, overflow) else (m, overflow + 1))"

definition dest_tally_step ::
  "dest_policy \<Rightarrow> u8 \<Rightarrow> ipv4 \<Rightarrow> u16 option \<Rightarrow> unlisted \<Rightarrow> dest_policy" where
  "dest_tally_step p protocol dst dst_port un =
     (let tick = dp_tick p; p = p\<lparr>dp_tick := tick + 1\<rparr>; t = dp_tally p in
      if tick mod dp_sample_every p \<noteq> 0 then p
      else (case un of
              UnNetwork \<Rightarrow>
                let (m, ov) = bump (protocol, u32_of_ipv4 dst AND 0xFFFFFF00) (ta_networks t) (ta_overflow t)
                in p\<lparr>dp_tally := t\<lparr>ta_networks := m, ta_overflow := ov\<rparr>\<rparr>
            | UnPort \<Rightarrow>
                (case dst_port of
                   None \<Rightarrow> p
                 | Some port \<Rightarrow>
                     let (m, ov) = bump port (ta_tcp_ports t) (ta_overflow t)
                     in p\<lparr>dp_tally := t\<lparr>ta_tcp_ports := m, ta_overflow := ov\<rparr>\<rparr>)))"

definition dest_finish ::
  "dest_policy \<Rightarrow> u8 \<Rightarrow> ipv4 \<Rightarrow> u16 option \<Rightarrow> unlisted \<Rightarrow> bool \<times> dest_policy" where
  "dest_finish p protocol dst dst_port un =
     (let p = dest_tally_step p protocol dst dst_port un in
      if dp_mode p = Mode_Enforce
      then (False, p\<lparr>dp_counters := (dp_counters p)\<lparr>dest_dropped := dest_dropped (dp_counters p) + 1\<rparr>\<rparr>)
      else (True, p))"

definition dest_permits ::
  "dest_policy \<Rightarrow> u8 \<Rightarrow> ipv4 \<Rightarrow> u16 option \<Rightarrow> bool \<times> dest_policy" where
  "dest_permits p protocol dst dst_port =
     (let c = dp_counters p in
      if dp_mode p = Mode_Off then (True, p)
      else if protocol = 6 then
        (if \<not> netset_contains (dp_tcp p) dst then
           dest_finish (p\<lparr>dp_counters := c\<lparr>tcp_unlisted_network := tcp_unlisted_network c + 1\<rparr>\<rparr>)
             protocol dst dst_port UnNetwork
         else if (case dst_port of Some port \<Rightarrow> port \<notin> set (dp_tcp_ports p) | None \<Rightarrow> False) then
           dest_finish (p\<lparr>dp_counters := c\<lparr>tcp_unlisted_port := tcp_unlisted_port c + 1\<rparr>\<rparr>)
             protocol dst dst_port UnPort
         else (True, p))
      else if netset_contains (dp_udp p) dst then (True, p)
      else
        dest_finish (p\<lparr>dp_counters := c\<lparr>udp_unlisted := udp_unlisted c + 1\<rparr>\<rparr>)
          protocol dst dst_port UnNetwork)"

text \<open>The ranking of the tally that the snapshot reports, busiest first.\<close>

definition snapshot_networks :: "dest_policy \<Rightarrow> (u64 \<times> u8 \<times> u32) list" where
  "snapshot_networks p =
     take SNAPSHOT_TOP (rev (sort (map (\<lambda>((protocol, network), samples). (samples, protocol, network))
       (ta_networks (dp_tally p)))))"

definition snapshot_ports :: "dest_policy \<Rightarrow> (u64 \<times> u16) list" where
  "snapshot_ports p =
     take SNAPSHOT_TOP (rev (sort (map (\<lambda>(port, samples). (samples, port)) (ta_tcp_ports (dp_tally p)))))"


section \<open>Prefixes as aligned blocks\<close>

text \<open>A network as \<^verbatim>\<open>Net::parse\<close> builds it: a prefix mask and a base without host bits.\<close>

definition net_wf :: "net \<Rightarrow> bool" where
  "net_wf n \<longleftrightarrow> (\<exists>len\<in>{8..32}. net_mask n = prefix_mask len) \<and> (net_base n AND net_mask n) = net_base n"

lemma len32: "LENGTH(32) = 32"
  by simp

lemma unat_and_prefix:
  fixes v :: u32
  assumes "k \<le> 32"
  shows "unat (v AND push_bit k (- 1)) = unat v div 2 ^ k * 2 ^ k"
proof -
  have "v AND push_bit k (- 1) = push_bit k (drop_bit k v)"
    by (rule bit_word_eqI) (auto simp: bit_simps)
  moreover have "unat (push_bit k (drop_bit k v)) = take_bit 32 (unat (drop_bit k v) * 2 ^ k)"
    by (simp only: unsigned_push_bit_eq len32) (simp only: push_bit_eq_mult)
  moreover have "unat (drop_bit k v) = unat v div 2 ^ k"
    by (simp only: unat_drop_bit_eq) (simp only: drop_bit_eq_div)
  moreover have "unat v div 2 ^ k * 2 ^ k < 2 ^ 32"
  proof -
    have "unat v < 2 ^ LENGTH(32)" by (rule unsigned_less)
    thus ?thesis by (metis div_times_less_eq_dividend order_le_less_trans len32)
  qed
  ultimately show ?thesis by (simp add: take_bit_eq_mod)
qed

lemma unat_prefix_mask:
  assumes "k \<le> 32"
  shows "unat (push_bit k (- 1) :: u32) = 2 ^ 32 - 2 ^ k"
proof -
  have "unat (- 1 AND push_bit k (- 1) :: u32) = (2 ^ 32 - 1) div 2 ^ k * 2 ^ k"
    using unat_and_prefix [OF assms, of "- 1"] by (simp add: unsigned_minus_1_eq_mask mask_eq_exp_minus_1)
  moreover have "(2 ^ 32 - 1 :: nat) div 2 ^ k * 2 ^ k = 2 ^ 32 - 2 ^ k"
  proof -
    obtain j where j: "(32::nat) = k + j" using assms le_iff_add by blast
    have "(2 ^ (k + j) - 1 :: nat) = (2 ^ k - 1) + (2 ^ j - 1) * 2 ^ k"
      by (simp add: power_add algebra_simps)
    moreover have "((2 ^ k - 1) + (2 ^ j - 1) * 2 ^ k :: nat) div 2 ^ k = (2 ^ j - 1) + (2 ^ k - 1) div 2 ^ k"
      by (rule div_mult_self1) simp
    ultimately have "(2 ^ (k + j) - 1 :: nat) div 2 ^ k = 2 ^ j - 1" by simp
    thus ?thesis unfolding j by (simp add: power_add algebra_simps)
  qed
  ultimately show ?thesis by simp
qed

text \<open>
  A well-formed network is the block of \<open>2 ^ k\<close> addresses from its base, and the
  base is a multiple of the size.
\<close>

definition net_block :: "nat \<Rightarrow> net \<Rightarrow> bool" where
  "net_block k n \<longleftrightarrow> k \<le> 24 \<and> net_mask n = push_bit k (- 1) \<and> 2 ^ k dvd unat (net_base n)"

lemma net_wf_block: "net_wf n \<Longrightarrow> \<exists>k. net_block k n"
proof -
  assume "net_wf n"
  then obtain len where l: "8 \<le> len" "len \<le> 32" "net_mask n = prefix_mask len"
    and b: "(net_base n AND net_mask n) = net_base n"
    by (auto simp: net_wf_def)
  have "unat (net_base n) = unat (net_base n) div 2 ^ (32 - len) * 2 ^ (32 - len)"
    using unat_and_prefix [of "32 - len" "net_base n"] b l by (simp add: prefix_mask_def)
  hence "2 ^ (32 - len) dvd unat (net_base n)" by (metis dvd_triv_right)
  thus ?thesis using l by (intro exI [of _ "32 - len"]) (auto simp: net_block_def prefix_mask_def)
qed

lemma net_contains_block:
  assumes "net_block k n"
  shows "net_contains n v \<longleftrightarrow> unat (net_base n) \<le> unat v \<and> unat v < unat (net_base n) + 2 ^ k"
proof -
  have k: "k \<le> 32" and m: "net_mask n = push_bit k (- 1)" using assms by (auto simp: net_block_def)
  obtain q where q: "unat (net_base n) = 2 ^ k * q" using assms by (auto simp: net_block_def)
  have "net_contains n v \<longleftrightarrow> unat (v AND net_mask n) = unat (net_base n)"
    by (simp only: net_contains_def word_unat_eq_iff)
  also have "\<dots> \<longleftrightarrow> unat v div 2 ^ k * 2 ^ k = 2 ^ k * q" by (simp only: m unat_and_prefix [OF k] q)
  also have "\<dots> \<longleftrightarrow> unat v div 2 ^ k = q" by simp
  also have "\<dots> \<longleftrightarrow> 2 ^ k * q \<le> unat v \<and> unat v < 2 ^ k * q + 2 ^ k"
    using div_nat_eqI [of "2 ^ k" q "unat v"] div_times_less_eq_dividend [of "unat v" "2 ^ k"]
      dividend_less_div_times [of "2 ^ k" "unat v"]
    by (auto simp: algebra_simps)
  finally show ?thesis by (simp only: q)
qed

lemma net_mask_le_block:
  assumes "net_block k a" "net_block j b"
  shows "net_mask a \<le> net_mask b \<longleftrightarrow> j \<le> k"
proof -
  have k: "k \<le> 32" "j \<le> 32" using assms by (auto simp: net_block_def)
  have le: "(2::nat) ^ k \<le> 2 ^ 32" "(2::nat) ^ j \<le> 2 ^ 32"
    using k by (metis one_le_numeral power_increasing)+
  have "net_mask a \<le> net_mask b \<longleftrightarrow> (2::nat) ^ 32 - 2 ^ k \<le> 2 ^ 32 - 2 ^ j"
    using assms k by (simp only: net_block_def word_le_nat_alt unat_prefix_mask)
  also have "\<dots> \<longleftrightarrow> (2::nat) ^ j \<le> 2 ^ k" using le by linarith
  finally show ?thesis by simp
qed

text \<open>Two aligned blocks of which the second starts inside the first: nested by size.\<close>

lemma aligned_nested:
  fixes a b :: nat
  assumes "2 ^ k dvd a" "2 ^ j dvd b" "j \<le> k" "a \<le> b" "b < a + 2 ^ k"
  shows "b + 2 ^ j \<le> a + 2 ^ k"
proof -
  have "2 ^ j dvd a" using assms(1,3) by (meson dvd_trans le_imp_power_dvd)
  moreover have "(2::nat) ^ j dvd 2 ^ k" using assms(3) by (rule le_imp_power_dvd)
  ultimately have "2 ^ j dvd a + 2 ^ k - b" using assms(2) by simp
  moreover have "0 < a + 2 ^ k - b" using assms(5) by simp
  ultimately have "2 ^ j \<le> a + 2 ^ k - b" by (metis dvd_imp_le)
  thus ?thesis using assms(5) by linarith
qed

lemma aligned_base:
  fixes a b :: nat
  assumes "2 ^ k dvd a" "2 ^ j dvd b" "k \<le> j" "a \<le> b" "b < a + 2 ^ k"
  shows "a = b"
proof -
  have "2 ^ k dvd b" using assms(2,3) by (meson dvd_trans le_imp_power_dvd)
  hence "2 ^ k dvd b - a" using assms(1) by simp
  moreover have "b - a < 2 ^ k" using assms(4,5) by linarith
  ultimately have "b - a = 0" by (meson dvd_imp_le linorder_not_less neq0_conv)
  thus ?thesis using assms(4) by simp
qed


section \<open>The sorted set of disjoint prefixes\<close>

definition net_before :: "net \<Rightarrow> net \<Rightarrow> bool" where
  "net_before a b \<longleftrightarrow> (\<exists>k. net_block k a \<and> unat (net_base a) + 2 ^ k \<le> unat (net_base b))"

definition covers_any :: "net list \<Rightarrow> u32 \<Rightarrow> bool" where
  "covers_any nets v \<longleftrightarrow> (\<exists>n\<in>set nets. net_contains n v)"

lemma net_before_base: "net_before a b \<Longrightarrow> unat (net_base a) < unat (net_base b)"
  by (auto simp: net_before_def elim!: order_less_le_trans [rotated])

lemma net_before_trans: "net_before a b \<Longrightarrow> net_before b c \<Longrightarrow> net_before a c"
  using net_before_base [of b c] by (force simp: net_before_def)

lemma net_before_not_contains: "net_before a b \<Longrightarrow> net_base b \<le> v \<Longrightarrow> \<not> net_contains a v"
  by (auto simp: net_before_def net_contains_block word_le_nat_alt)

lemma net_covers_subset:
  assumes "net_wf a" "net_wf b" "net_covers a b" "net_contains b v"
  shows "net_contains a v"
proof -
  obtain k j where kj: "net_block k a" "net_block j b" using assms(1,2) net_wf_block by blast
  have le: "j \<le> k" using assms(3) net_mask_le_block [OF kj] by (simp add: net_covers_def)
  have "unat (net_base a) \<le> unat (net_base b)" "unat (net_base b) < unat (net_base a) + 2 ^ k"
    using assms(3) net_contains_block [OF kj(1)] by (auto simp: net_covers_def)
  moreover from this have "unat (net_base b) + 2 ^ j \<le> unat (net_base a) + 2 ^ k"
    using kj le by (intro aligned_nested) (auto simp: net_block_def)
  ultimately show ?thesis
    using assms(4) by (simp add: net_contains_block [OF kj(1)] net_contains_block [OF kj(2)])
qed

text \<open>In key order a network either lies inside the one before it or starts after its end.\<close>

lemma net_key_before:
  assumes "net_wf a" "net_wf b" "net_key a \<le> net_key b" "\<not> net_covers a b"
  shows "net_before a b"
proof (rule ccontr)
  assume nb: "\<not> net_before a b"
  obtain k j where kj: "net_block k a" "net_block j b" using assms(1,2) net_wf_block by blast
  have base: "unat (net_base a) \<le> unat (net_base b)"
    using assms(3) by (auto simp: net_key_def less_eq_prod_def word_le_nat_alt word_less_nat_alt)
  have inside: "unat (net_base b) < unat (net_base a) + 2 ^ k"
    using nb kj(1) by (auto simp: net_before_def not_le)
  hence "\<not> net_mask a \<le> net_mask b"
    using assms(4) base by (simp add: net_covers_def net_contains_block [OF kj(1)])
  moreover from this have "k \<le> j" using net_mask_le_block [OF kj] by simp
  hence "unat (net_base a) = unat (net_base b)"
    using kj base inside by (intro aligned_base [where j = j]) (auto simp: net_block_def)
  ultimately show False using assms(3) by (simp add: net_key_def less_eq_prod_def word_unat_eq_iff word_less_nat_alt)
qed

definition netset_ok :: "net_set \<Rightarrow> bool" where
  "netset_ok kept \<longleftrightarrow> (\<forall>n\<in>set kept. net_wf n) \<and> sorted_wrt net_before kept"

lemma netset_push_ok:
  assumes "netset_ok kept" "net_wf n" "\<forall>m\<in>set kept. net_key m \<le> net_key n"
  shows "netset_ok (netset_push kept n)"
proof (cases "kept = [] \<or> net_covers (last kept) n")
  case True
  thus ?thesis using assms(1,2) by (auto simp: netset_push_def netset_ok_def)
next
  case False
  have last: "net_before (last kept) n"
    using False assms by (intro net_key_before) (auto simp: netset_ok_def)
  moreover have "m = last kept \<or> net_before m (last kept)" if "m \<in> set kept" for m
    using that False assms(1) sorted_wrt_append [of net_before "butlast kept" "[last kept]"]
    by (auto simp: netset_ok_def) (metis append_butlast_last_id Un_iff set_append empty_iff insert_iff list.set)
  ultimately have "\<forall>m\<in>set kept. net_before m n" using net_before_trans by blast
  thus ?thesis using False assms by (auto simp: netset_push_def netset_ok_def sorted_wrt_append)
qed

lemma netset_push_covers:
  assumes "netset_ok kept" "net_wf n"
  shows "covers_any (netset_push kept n) v \<longleftrightarrow> covers_any kept v \<or> net_contains n v"
  using assms net_covers_subset [of "last kept" n v]
  by (auto simp: netset_push_def covers_any_def netset_ok_def)

lemma netset_push_subset: "set (netset_push kept n) \<subseteq> insert n (set kept)"
  by (auto simp: netset_push_def)

lemma netset_fold:
  assumes "netset_ok kept" "\<forall>n\<in>set ns. net_wf n" "sorted (map net_key ns)"
    "\<forall>m\<in>set kept. \<forall>n\<in>set ns. net_key m \<le> net_key n"
  shows "netset_ok (foldl netset_push kept ns) \<and>
    (covers_any (foldl netset_push kept ns) v \<longleftrightarrow> covers_any kept v \<or> covers_any ns v)"
  using assms
proof (induction ns arbitrary: kept)
  case Nil
  thus ?case by (simp add: covers_any_def)
next
  case (Cons n ns)
  have "netset_ok (netset_push kept n)" using Cons.prems by (intro netset_push_ok) auto
  moreover have "\<forall>m\<in>set (netset_push kept n). \<forall>x\<in>set ns. net_key m \<le> net_key x"
    using Cons.prems netset_push_subset [of kept n] by auto
  ultimately have "netset_ok (foldl netset_push (netset_push kept n) ns) \<and>
    (covers_any (foldl netset_push (netset_push kept n) ns) v \<longleftrightarrow>
       covers_any (netset_push kept n) v \<or> covers_any ns v)"
    using Cons.prems by (intro Cons.IH) auto
  moreover have "covers_any (netset_push kept n) v \<longleftrightarrow> covers_any kept v \<or> net_contains n v"
    using Cons.prems by (intro netset_push_covers) auto
  ultimately show ?case by (auto simp: covers_any_def)
qed

lemma netset_new_ok:
  assumes "\<forall>n\<in>set nets. net_wf n"
  shows "netset_ok (netset_new nets)" "covers_any (netset_new nets) v \<longleftrightarrow> covers_any nets v"
proof -
  have "netset_ok (netset_new nets) \<and>
    (covers_any (netset_new nets) v \<longleftrightarrow> covers_any [] v \<or> covers_any (sort_key net_key nets) v)"
    unfolding netset_new_def using assms by (intro netset_fold) (auto simp: netset_ok_def)
  thus "netset_ok (netset_new nets)" "covers_any (netset_new nets) v \<longleftrightarrow> covers_any nets v"
    by (auto simp: covers_any_def)
qed

lemma netset_contains_ok:
  assumes ok: "netset_ok ns"
  shows "netset_contains ns ip \<longleftrightarrow> covers_any ns (u32_of_ipv4 ip)"
proof -
  define v where "v = u32_of_ipv4 ip"
  define after where "after = length (takeWhile (\<lambda>n. net_base n \<le> v) ns)"
  have len: "after \<le> length ns" by (simp add: after_def length_takeWhile_le)
  have before: "net_before (ns ! i) (ns ! j)" if "i < j" "j < length ns" for i j
    using ok that by (simp add: netset_ok_def sorted_wrt_iff_nth_less)
  have below: "net_base (ns ! i) \<le> v" if "i < after" for i
    using that nth_mem [of i "takeWhile (\<lambda>n. net_base n \<le> v) ns"] set_takeWhileD takeWhile_nth
    by (fastforce simp: after_def)
  have "i = after - 1 \<and> 0 < after" if i: "i < length ns" "net_contains (ns ! i) v" for i
  proof -
    obtain k where "net_block k (ns ! i)" using ok i(1) net_wf_block [of "ns ! i"] by (auto simp: netset_ok_def)
    hence base: "net_base (ns ! i) \<le> v" using i(2) by (simp add: net_contains_block word_le_nat_alt)
    have "i < after"
    proof (rule ccontr)
      assume "\<not> i < after"
      hence "after < length ns" "after \<le> i" using i(1) by simp_all
      moreover from this have "\<not> net_base (ns ! after) \<le> v"
        unfolding after_def by (rule_tac nth_length_takeWhile) simp
      ultimately show False
        using base net_before_base [OF before [of after i]] i(1)
        by (cases "after = i") (auto simp: word_le_nat_alt)
    qed
    moreover have "\<not> i < after - 1"
    proof
      assume "i < after - 1"
      moreover from this have "after - 1 < length ns" "after - 1 < after" using len by linarith+
      ultimately show False using net_before_not_contains [OF before] below i(2) by blast
    qed
    ultimately show ?thesis by simp
  qed
  moreover have "0 < after \<Longrightarrow> ns ! (after - 1) \<in> set ns" using len by simp
  moreover have "netset_contains ns ip \<longleftrightarrow> 0 < after \<and> net_contains (ns ! (after - 1)) v"
    by (simp only: netset_contains_def partition_point_def Let_def v_def after_def)
  ultimately show ?thesis unfolding covers_any_def v_def [symmetric] by (metis in_set_conv_nth)
qed


section \<open>Loading and deciding\<close>

lemma net_parse_wf: "net_parse s = Some n \<Longrightarrow> net_wf n"
  by (auto simp: net_parse_def net_wf_def MIN_PREFIX_LEN_def and.assoc
      split: option.splits if_splits prod.splits)

definition allowlist_wf :: "allowlist \<Rightarrow> bool" where
  "allowlist_wf l \<longleftrightarrow> (\<forall>n\<in>set (al_udp l) \<union> set (al_tcp l). net_wf n)"

lemma parse_entry_wf: "parse_entry words = Some (u, t, n) \<Longrightarrow> net_wf n"
  by (auto simp: parse_entry_def dest: net_parse_wf split: list.splits if_splits)

lemma parse_allowlist_line_wf: "allowlist_wf l \<Longrightarrow> allowlist_wf (parse_allowlist_line l raw)"
  by (auto simp: parse_allowlist_line_def allowlist_wf_def Let_def dest: parse_entry_wf
      split: option.splits)

lemma parse_allowlist_wf: "allowlist_wf (parse_allowlist text)"
proof -
  have "allowlist_wf l \<Longrightarrow> allowlist_wf (foldl parse_allowlist_line l ls)" for l ls
    by (induction ls arbitrary: l) (auto intro: parse_allowlist_line_wf)
  moreover have "allowlist_wf \<lparr>al_udp = [], al_tcp = [], al_invalid_lines = 0\<rparr>"
    by (simp add: allowlist_wf_def)
  ultimately show ?thesis by (simp only: parse_allowlist_def)
qed

lemma load_allowlist_wf: "load_allowlist file = (notes, Some (path, l)) \<Longrightarrow> allowlist_wf l"
  using parse_allowlist_wf
  by (auto simp: load_allowlist_def Let_def split: option.splits sum.splits if_splits)

text \<open>The packets a policy judges, one after the other, and the decisions it takes.\<close>

type_synonym dest_query = "u8 \<times> ipv4 \<times> u16 option"

definition dest_step :: "dest_policy \<Rightarrow> dest_query \<Rightarrow> dest_policy" where
  "dest_step p q = snd (dest_permits p (fst q) (fst (snd q)) (snd (snd q)))"

definition dest_run :: "dest_policy \<Rightarrow> dest_query list \<Rightarrow> dest_policy" where
  "dest_run p qs = foldl dest_step p qs"

text \<open>What the policy would let through if it enforced its lists.\<close>

definition dest_listed :: "dest_policy \<Rightarrow> u8 \<Rightarrow> ipv4 \<Rightarrow> u16 option \<Rightarrow> bool" where
  "dest_listed p protocol dst dst_port \<longleftrightarrow>
     (if protocol = 6
      then netset_contains (dp_tcp p) dst \<and> (case dst_port of Some port \<Rightarrow> port \<in> set (dp_tcp_ports p) | None \<Rightarrow> True)
      else netset_contains (dp_udp p) dst)"

lemmas dest_step_defs = dest_permits_def dest_finish_def dest_tally_step_def Let_def

lemma dest_permits_fst:
  "fst (dest_permits p protocol dst dst_port) \<longleftrightarrow>
     dp_mode p \<noteq> Mode_Enforce \<or> dest_listed p protocol dst dst_port"
  by (auto simp: dest_step_defs dest_listed_def split: option.splits prod.splits unlisted.splits)

lemma dest_permits_config [simp]:
  "dp_mode (snd (dest_permits p protocol dst dst_port)) = dp_mode p"
  "dp_udp (snd (dest_permits p protocol dst dst_port)) = dp_udp p"
  "dp_tcp (snd (dest_permits p protocol dst dst_port)) = dp_tcp p"
  "dp_tcp_ports (snd (dest_permits p protocol dst dst_port)) = dp_tcp_ports p"
  "dp_sample_every (snd (dest_permits p protocol dst dst_port)) = dp_sample_every p"
  by (auto simp: dest_step_defs split: option.splits prod.splits unlisted.splits)

lemma dest_run_config [simp]:
  "dp_mode (dest_run p qs) = dp_mode p"
  "dp_udp (dest_run p qs) = dp_udp p"
  "dp_tcp (dest_run p qs) = dp_tcp p"
  "dp_tcp_ports (dest_run p qs) = dp_tcp_ports p"
  "dp_sample_every (dest_run p qs) = dp_sample_every p"
  by (induction qs arbitrary: p) (simp_all add: dest_run_def dest_step_def)

lemma dest_listed_run [simp]: "dest_listed (dest_run p qs) = dest_listed p"
  by (simp add: dest_listed_def fun_eq_iff split: option.split)

lemma enforce_permits:
  assumes "load_allowlist file = (notes, Some (path, l))"
  shows "fst (dest_permits (dest_run (dest_build Mode_Enforce file ports) qs) protocol dst dst_port) \<longleftrightarrow>
    (if protocol = 6
     then (\<exists>n\<in>set (al_tcp l). net_contains n (u32_of_ipv4 dst)) \<and>
       (case dst_port of Some port \<Rightarrow> port \<in> set ports | None \<Rightarrow> True)
     else (\<exists>n\<in>set (al_udp l). net_contains n (u32_of_ipv4 dst)))"
proof -
  have wf: "\<forall>n\<in>set (al_tcp l). net_wf n" "\<forall>n\<in>set (al_udp l). net_wf n"
    using load_allowlist_wf [OF assms] by (auto simp: allowlist_wf_def)
  have cfg: "dp_mode (dest_build Mode_Enforce file ports) = Mode_Enforce"
    "dp_tcp (dest_build Mode_Enforce file ports) = netset_new (al_tcp l)"
    "dp_udp (dest_build Mode_Enforce file ports) = netset_new (al_udp l)"
    "dp_tcp_ports (dest_build Mode_Enforce file ports) = ports"
    by (simp_all add: dest_build_def assms)
  have "netset_contains (netset_new nets) dst \<longleftrightarrow> (\<exists>n\<in>set nets. net_contains n (u32_of_ipv4 dst))"
    if "\<forall>n\<in>set nets. net_wf n" for nets
    using netset_new_ok [OF that] netset_contains_ok by (simp add: covers_any_def)
  from this [OF wf(1)] this [OF wf(2)] show ?thesis
    by (simp add: dest_permits_fst dest_listed_def cfg split: option.split)
qed

text \<open>
  C28. In enforce mode with a loaded allowlist, after any sequence of earlier packets, a
  packet is permitted exactly when its destination lies in one of the prefixes of the
  file for its protocol (TCP also needs a listed port, when it carries one): the sorted,
  deduplicated set with its binary search decides like the plain list of prefixes.
\<close>

theorem enforce_decision:
  assumes "load_allowlist file = (notes, Some (path, l))"
  shows "fst (dest_permits (dest_run (dest_build Mode_Enforce file ports) qs) protocol dst dst_port) \<longleftrightarrow>
    (if protocol = 6
     then (\<exists>n\<in>set (al_tcp l). net_contains n (u32_of_ipv4 dst)) \<and>
       (case dst_port of Some port \<Rightarrow> port \<in> set ports | None \<Rightarrow> True)
     else (\<exists>n\<in>set (al_udp l). net_contains n (u32_of_ipv4 dst)))"
  using assms by (rule enforce_permits)

lemma dest_build_enforce:
  "dp_mode (dest_build requested file ports) = Mode_Enforce \<longleftrightarrow>
     requested = Mode_Enforce \<and>
     (\<exists>path text. file = Some (path, Inr text) \<and>
        al_udp (parse_allowlist text) \<noteq> [] \<and> al_tcp (parse_allowlist text) \<noteq> [])"
  by (auto simp: dest_build_def load_allowlist_def Let_def split: option.splits sum.splits if_splits)

text \<open>
  The destination policy refuses a packet only if the operator asked for enforce
  mode and the allowlist file was readable and held prefixes for both UDP and TCP; in
  every other configuration nothing is dropped, whatever was judged before.
\<close>

theorem policy_fails_open:
  assumes "\<not> fst (dest_permits (dest_run (dest_build requested file ports) qs) protocol dst dst_port)"
  shows "requested = Mode_Enforce \<and>
    (\<exists>path text. file = Some (path, Inr text) \<and>
       al_udp (parse_allowlist text) \<noteq> [] \<and> al_tcp (parse_allowlist text) \<noteq> [])"
  using assms dest_build_enforce by (simp add: dest_permits_fst)

section \<open>The ledger of unlisted packets\<close>

lemma dest_build_fresh:
  "dp_counters (dest_build requested f ports) =
     \<lparr>udp_unlisted = 0, tcp_unlisted_network = 0, tcp_unlisted_port = 0, dest_dropped = 0\<rparr>"
  "dp_tick (dest_build requested f ports) = 0"
  "dp_tally (dest_build requested f ports) = \<lparr>ta_networks = [], ta_tcp_ports = [], ta_overflow = 0\<rparr>"
  "dp_sample_every (dest_build requested f ports) = SAMPLE_EVERY"
  by (simp_all add: dest_build_def Let_def split: prod.split)

definition unlisted_count :: "dest_policy \<Rightarrow> dest_query list \<Rightarrow> nat" where
  "unlisted_count p qs =
     (if dp_mode p = Mode_Off then 0
      else length (filter (\<lambda>q. \<not> dest_listed p (fst q) (fst (snd q)) (snd (snd q))) qs))"

definition tally_total :: "dest_tally \<Rightarrow> u64" where
  "tally_total t = dm_sum id (ta_networks t) + dm_sum id (ta_tcp_ports t) + ta_overflow t"

definition dest_ledger :: "nat \<Rightarrow> dest_policy \<Rightarrow> bool" where
  "dest_ledger n p \<longleftrightarrow>
     dp_tick p = of_nat n \<and>
     udp_unlisted (dp_counters p) + tcp_unlisted_network (dp_counters p) + tcp_unlisted_port (dp_counters p) = of_nat n \<and>
     dest_dropped (dp_counters p) = (if dp_mode p = Mode_Enforce then of_nat n else 0) \<and>
     tally_total (dp_tally p) = of_nat ((n + 15) div 16)"

lemma bump_total:
  "bump k m ov = (m', ov') \<Longrightarrow> dm_sum id m' + ov' = dm_sum id m + ov + 1"
proof -
  assume b: "bump k m ov = (m', ov')"
  have "dm_get m k = Some c \<Longrightarrow> dm_sum id (dm_insert k (c + 1) m) = dm_sum id m + 1" for c
    using dm_sum_insert_old [of m k c id "c + 1"] by (simp add: algebra_simps)
  thus ?thesis using b dm_sum_insert_new [of m k id 1]
    by (auto simp: bump_def algebra_simps split: option.splits if_splits)
qed

definition sample_ok :: "('k, u64) dmap \<Rightarrow> bool" where
  "sample_ok m \<longleftrightarrow> dm_ok m \<and> dm_len m \<le> SAMPLE_CAP"

lemma bump_cap: "bump k m ov = (m', ov') \<Longrightarrow> sample_ok m \<Longrightarrow> sample_ok m'"
  by (auto simp: bump_def sample_ok_def intro!: dm.capped_insert split: option.splits if_splits)

lemma sampled_iff: "(of_nat n :: u64) mod SAMPLE_EVERY = 0 \<longleftrightarrow> n mod 16 = 0"
proof -
  have "unat ((of_nat n :: u64) mod 16) = n mod 2 ^ 64 mod 16"
    by (simp add: unat_mod unat_of_nat)
  also have "\<dots> = n mod 16" by (rule mod_mod_cancel) simp
  finally show ?thesis by (simp add: SAMPLE_EVERY_def word_unat_eq_iff)
qed

lemma tally_step:
  assumes "sample_ok (ta_networks (dp_tally p))" "sample_ok (ta_tcp_ports (dp_tally p))"
    "un = UnPort \<Longrightarrow> dst_port \<noteq> None"
  shows "tally_total (dp_tally (dest_tally_step p protocol dst dst_port un)) =
      tally_total (dp_tally p) + (if dp_tick p mod dp_sample_every p = 0 then 1 else 0)"
    and "sample_ok (ta_networks (dp_tally (dest_tally_step p protocol dst dst_port un)))"
    and "sample_ok (ta_tcp_ports (dp_tally (dest_tally_step p protocol dst dst_port un)))"
proof -
  let ?p = "dest_tally_step p protocol dst dst_port un" and ?t = "dp_tally p"
  obtain m ov m' ov' where
    net: "bump (protocol, u32_of_ipv4 dst AND 0xFFFFFF00) (ta_networks ?t) (ta_overflow ?t) = (m, ov)" and
    port: "bump (the dst_port) (ta_tcp_ports ?t) (ta_overflow ?t) = (m', ov')"
    by (metis surj_pair)
  note eqs = bump_total [OF net] bump_total [OF port]
  have shape: "dp_tally ?p = (if dp_tick p mod dp_sample_every p \<noteq> 0 then ?t
     else if un = UnNetwork then ?t\<lparr>ta_networks := m, ta_overflow := ov\<rparr>
     else ?t\<lparr>ta_tcp_ports := m', ta_overflow := ov'\<rparr>)"
    using assms(3) net port by (cases un) (auto simp: dest_tally_step_def Let_def)
  show "tally_total (dp_tally ?p) = tally_total ?t + (if dp_tick p mod dp_sample_every p = 0 then 1 else 0)"
    using eqs by (simp only: shape tally_total_def) (simp add: algebra_simps)
  show "sample_ok (ta_networks (dp_tally ?p))" "sample_ok (ta_tcp_ports (dp_tally ?p))"
    using assms(1,2) bump_cap [OF net] bump_cap [OF port] by (simp_all only: shape) simp_all
qed

lemma tally_step_frame [simp]:
  "dp_mode (dest_tally_step p protocol dst dst_port un) = dp_mode p"
  "dp_counters (dest_tally_step p protocol dst dst_port un) = dp_counters p"
  "dp_tick (dest_tally_step p protocol dst dst_port un) = dp_tick p + 1"
  by (auto simp: dest_tally_step_def Let_def split: unlisted.splits option.splits prod.splits)

definition dest_tables_ok :: "dest_policy \<Rightarrow> bool" where
  "dest_tables_ok p \<longleftrightarrow> sample_ok (ta_networks (dp_tally p)) \<and> sample_ok (ta_tcp_ports (dp_tally p))
     \<and> dp_sample_every p = SAMPLE_EVERY"

lemma next_sample: "(Suc n + 15) div 16 = (n + 15) div 16 + (if n mod 16 = 0 then 1 else 0 :: nat)"
proof -
  obtain q r where n: "n = 16 * q + r" "r < 16" by (metis mod_less_divisor mult_div_mod_eq zero_less_numeral)
  hence "n mod 16 = r" by simp
  moreover have "(Suc n + 15) div 16 = q + 1" using n by simp
  moreover have "(n + 15) div 16 = q + (r + 15) div 16" using n by simp
  moreover have "(r + 15) div 16 = (if r = 0 then 0 else 1)"
    using n(2) div_nat_eqI [of 16 1 "r + 15"] by (cases "r = 0") auto
  ultimately show ?thesis by simp
qed

lemma finish_ledger:
  assumes "dest_tables_ok p" "un = UnPort \<Longrightarrow> dst_port \<noteq> None" "dp_tick p = of_nat n"
    "udp_unlisted (dp_counters p) + tcp_unlisted_network (dp_counters p) + tcp_unlisted_port (dp_counters p) = of_nat (Suc n)"
    "dest_dropped (dp_counters p) = (if dp_mode p = Mode_Enforce then of_nat n else 0)"
    "tally_total (dp_tally p) = of_nat ((n + 15) div 16)"
  shows "dest_ledger (Suc n) (snd (dest_finish p protocol dst dst_port un))"
    and "dest_tables_ok (snd (dest_finish p protocol dst dst_port un))"
proof -
  note t = tally_step [of p un dst_port protocol dst]
  have "dp_sample_every (dest_tally_step p protocol dst dst_port un) = dp_sample_every p"
    by (auto simp: dest_tally_step_def Let_def split: unlisted.splits option.splits prod.splits)
  thus "dest_tables_ok (snd (dest_finish p protocol dst dst_port un))"
    using assms(1,2) t(2,3) by (simp add: dest_finish_def dest_tables_ok_def Let_def)
  have "tally_total (dp_tally (dest_tally_step p protocol dst dst_port un)) = of_nat ((Suc n + 15) div 16)"
    using t(1) assms by (simp only: dest_tables_ok_def next_sample sampled_iff) simp
  thus "dest_ledger (Suc n) (snd (dest_finish p protocol dst dst_port un))"
    using assms by (auto simp: dest_finish_def dest_ledger_def Let_def algebra_simps)
qed

lemma permits_pass:
  "dp_mode p = Mode_Off \<or> dest_listed p protocol dst dst_port \<Longrightarrow> dest_permits p protocol dst dst_port = (True, p)"
  by (auto simp: dest_permits_def dest_listed_def Let_def split: option.splits)

lemma permits_unlisted:
  assumes "dp_mode p \<noteq> Mode_Off" "\<not> dest_listed p protocol dst dst_port"
  obtains c un where
    "dest_permits p protocol dst dst_port = dest_finish (p\<lparr>dp_counters := c\<rparr>) protocol dst dst_port un"
    "un = UnPort \<Longrightarrow> dst_port \<noteq> None"
    "dest_dropped c = dest_dropped (dp_counters p)"
    "udp_unlisted c + tcp_unlisted_network c + tcp_unlisted_port c =
       udp_unlisted (dp_counters p) + tcp_unlisted_network (dp_counters p) + tcp_unlisted_port (dp_counters p) + 1"
proof -
  let ?c = "dp_counters p"
  consider (udp) "protocol \<noteq> 6" "\<not> netset_contains (dp_udp p) dst"
    | (net) "protocol = 6" "\<not> netset_contains (dp_tcp p) dst"
    | (port) w where "protocol = 6" "netset_contains (dp_tcp p) dst" "dst_port = Some w" "w \<notin> set (dp_tcp_ports p)"
    using assms(2) by (auto simp: dest_listed_def split: if_splits option.splits)
  thus ?thesis
  proof cases
    case udp
    show ?thesis using that [of "?c\<lparr>udp_unlisted := udp_unlisted ?c + 1\<rparr>" UnNetwork] udp assms(1)
      by (simp add: dest_permits_def Let_def)
  next
    case net
    show ?thesis using that [of "?c\<lparr>tcp_unlisted_network := tcp_unlisted_network ?c + 1\<rparr>" UnNetwork] net assms(1)
      by (simp add: dest_permits_def Let_def)
  next
    case port
    show ?thesis using that [of "?c\<lparr>tcp_unlisted_port := tcp_unlisted_port ?c + 1\<rparr>" UnPort] port assms(1)
      by (simp add: dest_permits_def Let_def)
  qed
qed

lemma permits_ledger:
  assumes "dest_ledger n p" "dest_tables_ok p"
  shows "dest_ledger (if dp_mode p \<noteq> Mode_Off \<and> \<not> dest_listed p protocol dst dst_port then Suc n else n)
      (snd (dest_permits p protocol dst dst_port)) \<and>
    dest_tables_ok (snd (dest_permits p protocol dst dst_port))"
proof (cases "dp_mode p = Mode_Off \<or> dest_listed p protocol dst dst_port")
  case True
  thus ?thesis using assms by (auto simp: permits_pass)
next
  case False
  then obtain c un where c:
    "dest_permits p protocol dst dst_port = dest_finish (p\<lparr>dp_counters := c\<rparr>) protocol dst dst_port un"
    "un = UnPort \<Longrightarrow> dst_port \<noteq> None"
    "dest_dropped c = dest_dropped (dp_counters p)"
    "udp_unlisted c + tcp_unlisted_network c + tcp_unlisted_port c =
       udp_unlisted (dp_counters p) + tcp_unlisted_network (dp_counters p) + tcp_unlisted_port (dp_counters p) + 1"
    using permits_unlisted by metis
  let ?p = "p\<lparr>dp_counters := c\<rparr>"
  have ok: "dest_tables_ok ?p" using assms(2) by (simp add: dest_tables_ok_def)
  have "dp_tick ?p = of_nat n"
    "udp_unlisted (dp_counters ?p) + tcp_unlisted_network (dp_counters ?p) + tcp_unlisted_port (dp_counters ?p) = of_nat (Suc n)"
    "dest_dropped (dp_counters ?p) = (if dp_mode ?p = Mode_Enforce then of_nat n else 0)"
    "tally_total (dp_tally ?p) = of_nat ((n + 15) div 16)"
    using assms(1) c(3,4) by (simp_all add: dest_ledger_def)
  from finish_ledger [OF ok c(2) this] show ?thesis using False by (simp add: c(1))
qed

lemma run_ledger:
  assumes "dest_ledger n p" "dest_tables_ok p"
  shows "dest_ledger (n + unlisted_count p qs) (dest_run p qs) \<and> dest_tables_ok (dest_run p qs)"
  using assms
proof (induction qs arbitrary: n p)
  case Nil
  thus ?case by (simp add: dest_run_def unlisted_count_def)
next
  case (Cons q qs)
  obtain a b c where q: "q = (a, b, c)" by (cases q)
  let ?n = "if dp_mode p \<noteq> Mode_Off \<and> \<not> dest_listed p a b c then Suc n else n"
  let ?p = "dest_run p [q]"
  have "dest_ledger ?n ?p" "dest_tables_ok ?p"
    using permits_ledger [OF Cons.prems, of a b c] by (simp_all add: q dest_run_def dest_step_def)
  hence "dest_ledger (?n + unlisted_count ?p qs) (dest_run ?p qs) \<and> dest_tables_ok (dest_run ?p qs)"
    by (rule Cons.IH)
  moreover have "?n + unlisted_count ?p qs = n + unlisted_count p (q # qs)"
    by (simp add: unlisted_count_def q)
  moreover have "dest_run ?p qs = dest_run p (q # qs)" by (simp add: dest_run_def)
  ultimately show ?case by simp
qed

text \<open>
  After any sequence of packets the three unlisted counters add up to the number of
  unlisted packets, the drop counter is that number in enforce mode and zero otherwise,
  every sixteenth unlisted packet is in the tally or its overflow count, and each table
  of the tally holds at most 256 entries.
\<close>

theorem unlisted_ledger:
  "let p0 = dest_build requested allowlist_file ports; p = dest_run p0 qs;
       n = unlisted_count p0 qs; c = dp_counters p; t = dp_tally p
   in udp_unlisted c + tcp_unlisted_network c + tcp_unlisted_port c = of_nat n
     \<and> dest_dropped c = (if dp_mode p0 = Mode_Enforce then of_nat n else 0)
     \<and> dm_sum id (ta_networks t) + dm_sum id (ta_tcp_ports t) + ta_overflow t = of_nat ((n + 15) div 16)
     \<and> dm_len (ta_networks t) \<le> 256 \<and> dm_len (ta_tcp_ports t) \<le> 256"
proof -
  let ?p0 = "dest_build requested allowlist_file ports"
  have "dest_ledger 0 ?p0" "dest_tables_ok ?p0"
    by (simp_all add: dest_build_fresh dest_ledger_def dest_tables_ok_def tally_total_def sample_ok_def dm_len_def)
  thus ?thesis using run_ledger [of 0 ?p0 qs]
    by (simp add: Let_def dest_ledger_def dest_tables_ok_def sample_ok_def SAMPLE_CAP_def tally_total_def)
qed

section \<open>Witnesses\<close>

definition sample_file :: "(string \<times> (string + string)) option" where
  "sample_file = Some (''allow'', Inr ''9.0.0.0/8'')"

definition sample_net :: net where
  "sample_net = \<lparr>net_base = 0x09000000, net_mask = 0xFF000000\<rparr>"

definition sample_list :: allowlist where
  "sample_list = \<lparr>al_udp = [sample_net], al_tcp = [sample_net], al_invalid_lines = 0\<rparr>"

lemma sample_file_load: "load_allowlist sample_file = ([], Some (''allow'', sample_list))"
  by code_simp

theorem enforce_decision_witness:
  "load_allowlist sample_file = ([], Some (''allow'', sample_list)) \<and>
   fst (dest_permits (dest_run (dest_build Mode_Enforce sample_file [443]) []) 17 (Ipv4 9 1 2 3) (Some 5000)) \<and>
   fst (dest_permits (dest_run (dest_build Mode_Enforce sample_file [443]) []) 6 (Ipv4 9 1 2 3) (Some 443)) \<and>
   \<not> fst (dest_permits (dest_run (dest_build Mode_Enforce sample_file [443]) []) 6 (Ipv4 9 1 2 3) (Some 80)) \<and>
   \<not> fst (dest_permits (dest_run (dest_build Mode_Enforce sample_file [443]) []) 6 (Ipv4 10 0 0 1) (Some 443))"
  unfolding enforce_decision [OF sample_file_load] by (simp only: sample_file_load) code_simp

theorem policy_fails_open_witness:
  "\<not> fst (dest_permits (dest_run (dest_build Mode_Enforce sample_file [443]) []) 17 (Ipv4 8 8 8 8) (Some 53)) \<and>
   (\<exists>path text. sample_file = Some (path, Inr text) \<and>
      al_udp (parse_allowlist text) \<noteq> [] \<and> al_tcp (parse_allowlist text) \<noteq> [])"
proof -
  have "\<not> fst (dest_permits (dest_run (dest_build Mode_Enforce sample_file [443]) []) 17 (Ipv4 8 8 8 8) (Some 53))"
    unfolding enforce_permits [OF sample_file_load] by code_simp
  thus ?thesis using policy_fails_open by blast
qed

end
