(* ===== verification/Relay_Stats.thy ===== *)
theory Relay_Stats
  imports Relay_Prelude
begin

text \<open>
  The global counters of \<^verbatim>\<open>src/src/main.rs\<close>: \<^verbatim>\<open>Stats\<close>, the drop reasons and their
  counters.  The counters are \<^verbatim>\<open>AtomicU64\<close>s, so they wrap at \<open>2 ^ 64\<close>.
\<close>

datatype drop_reason =
    Auth | RateLimit | Capacity | TooSmall | Parse | Fragment | ForbiddenDst | TcpDisabled
  | Pool | StaleQueue | ShardQueue | TxQueue | TunQueue | FlowQueue | FlowCreate | FlowSend
  | SocketSend

record drop_reason_counters =
  dr_auth :: u64
  dr_rate_limit :: u64
  dr_capacity :: u64
  dr_too_small :: u64
  dr_parse :: u64
  dr_fragment :: u64
  dr_forbidden_dst :: u64
  dr_tcp_disabled :: u64
  dr_pool :: u64
  dr_stale_queue :: u64
  dr_shard_queue :: u64
  dr_tx_queue :: u64
  dr_tun_queue :: u64
  dr_flow_queue :: u64
  dr_flow_create :: u64
  dr_flow_send :: u64
  dr_socket_send :: u64

definition drop_reason_counters_new :: drop_reason_counters where
  "drop_reason_counters_new =
     \<lparr>dr_auth = 0, dr_rate_limit = 0, dr_capacity = 0, dr_too_small = 0, dr_parse = 0,
      dr_fragment = 0, dr_forbidden_dst = 0, dr_tcp_disabled = 0, dr_pool = 0, dr_stale_queue = 0,
      dr_shard_queue = 0, dr_tx_queue = 0, dr_tun_queue = 0, dr_flow_queue = 0, dr_flow_create = 0,
      dr_flow_send = 0, dr_socket_send = 0\<rparr>"

fun drop_increment :: "drop_reason \<Rightarrow> drop_reason_counters \<Rightarrow> drop_reason_counters" where
  "drop_increment Auth c = c\<lparr>dr_auth := dr_auth c + 1\<rparr>"
| "drop_increment RateLimit c = c\<lparr>dr_rate_limit := dr_rate_limit c + 1\<rparr>"
| "drop_increment Capacity c = c\<lparr>dr_capacity := dr_capacity c + 1\<rparr>"
| "drop_increment TooSmall c = c\<lparr>dr_too_small := dr_too_small c + 1\<rparr>"
| "drop_increment Parse c = c\<lparr>dr_parse := dr_parse c + 1\<rparr>"
| "drop_increment Fragment c = c\<lparr>dr_fragment := dr_fragment c + 1\<rparr>"
| "drop_increment ForbiddenDst c = c\<lparr>dr_forbidden_dst := dr_forbidden_dst c + 1\<rparr>"
| "drop_increment TcpDisabled c = c\<lparr>dr_tcp_disabled := dr_tcp_disabled c + 1\<rparr>"
| "drop_increment Pool c = c\<lparr>dr_pool := dr_pool c + 1\<rparr>"
| "drop_increment StaleQueue c = c\<lparr>dr_stale_queue := dr_stale_queue c + 1\<rparr>"
| "drop_increment ShardQueue c = c\<lparr>dr_shard_queue := dr_shard_queue c + 1\<rparr>"
| "drop_increment TxQueue c = c\<lparr>dr_tx_queue := dr_tx_queue c + 1\<rparr>"
| "drop_increment TunQueue c = c\<lparr>dr_tun_queue := dr_tun_queue c + 1\<rparr>"
| "drop_increment FlowQueue c = c\<lparr>dr_flow_queue := dr_flow_queue c + 1\<rparr>"
| "drop_increment FlowCreate c = c\<lparr>dr_flow_create := dr_flow_create c + 1\<rparr>"
| "drop_increment FlowSend c = c\<lparr>dr_flow_send := dr_flow_send c + 1\<rparr>"
| "drop_increment SocketSend c = c\<lparr>dr_socket_send := dr_socket_send c + 1\<rparr>"

record stats =
  packets_in :: u64
  packets_out :: u64
  bytes_in :: u64
  bytes_out :: u64
  active_flows :: u64
  active_sessions :: u64
  dropped_in :: u64
  dropped_out :: u64
  throttled_users :: u64
  tcp_forwarded :: u64
  tun_udp_forwarded :: u64
  pool_exhausted :: u64
  drop_reasons :: drop_reason_counters

definition stats_new :: stats where
  "stats_new =
     \<lparr>packets_in = 0, packets_out = 0, bytes_in = 0, bytes_out = 0, active_flows = 0,
      active_sessions = 0, dropped_in = 0, dropped_out = 0, throttled_users = 0,
      tcp_forwarded = 0, tun_udp_forwarded = 0, pool_exhausted = 0,
      drop_reasons = drop_reason_counters_new\<rparr>"

definition drop_in :: "drop_reason \<Rightarrow> stats \<Rightarrow> stats" where
  "drop_in r s = s\<lparr>dropped_in := dropped_in s + 1, drop_reasons := drop_increment r (drop_reasons s)\<rparr>"

definition drop_out :: "drop_reason \<Rightarrow> stats \<Rightarrow> stats" where
  "drop_out r s = s\<lparr>dropped_out := dropped_out s + 1, drop_reasons := drop_increment r (drop_reasons s)\<rparr>"

definition drop_total :: "drop_reason_counters \<Rightarrow> u64" where
  "drop_total c =
     dr_auth c + dr_rate_limit c + dr_capacity c + dr_too_small c + dr_parse c + dr_fragment c
     + dr_forbidden_dst c + dr_tcp_disabled c + dr_pool c + dr_stale_queue c + dr_shard_queue c
     + dr_tx_queue c + dr_tun_queue c + dr_flow_queue c + dr_flow_create c + dr_flow_send c
     + dr_socket_send c"

text \<open>Every drop is filed under exactly one reason: the ledger balances.\<close>

definition drops_balanced :: "stats \<Rightarrow> bool" where
  "drops_balanced s \<longleftrightarrow> dropped_in s + dropped_out s = drop_total (drop_reasons s)"

lemma drop_total_increment: "drop_total (drop_increment r c) = drop_total c + 1"
  by (cases r) (simp_all add: drop_total_def)

lemma drops_balanced_new [simp]: "drops_balanced stats_new"
  by (simp add: drops_balanced_def stats_new_def drop_reason_counters_new_def drop_total_def)

lemma drops_balanced_in [simp]: "drops_balanced (drop_in r s) \<longleftrightarrow> drops_balanced s"
  by (simp add: drops_balanced_def drop_in_def drop_total_increment algebra_simps)

lemma drops_balanced_out [simp]: "drops_balanced (drop_out r s) \<longleftrightarrow> drops_balanced s"
  by (simp add: drops_balanced_def drop_out_def drop_total_increment algebra_simps)

lemma active_sessions_drop [simp, frame_simps]:
  "active_sessions (drop_in r s) = active_sessions s"
  "active_sessions (drop_out r s) = active_sessions s"
  by (simp_all add: drop_in_def drop_out_def)

end
