(* ===== verification/Rate_Limit.thy ===== *)
theory Rate_Limit
  imports Relay_Stats Net_Addr
begin

text \<open>
  The per-source limits of \<^verbatim>\<open>src/src/main.rs\<close>: the one-second windows of
  \<^verbatim>\<open>SourceRateState\<close>, the table of sources with its pruning and its capacity,
  and the fixed buckets that guard ticket verification.  The three limits are
  far below \<^verbatim>\<open>u32::MAX\<close>, so the counters are natural numbers.

  The locale \<open>window_limiter\<close> is the contract of a counter over windows of a
  fixed length; the bound on accepted events is proved there once and holds of
  the source table and of the buckets by interpretation.
\<close>

section \<open>Windows\<close>

text \<open>
  \<open>opened s\<close> is the start of the current window, if there is one, and \<open>used s\<close> the
  number of events accepted in it.  An accepted event falls in the open window or
  opens a new one; a window is only replaced or dropped when it has run out.
\<close>

locale window_limiter =
  fixes step :: "'s \<Rightarrow> 'e \<Rightarrow> bool \<times> 's"
    and time :: "'e \<Rightarrow> nat"
    and counts :: "'e \<Rightarrow> bool"
    and opened :: "'s \<Rightarrow> nat option"
    and used :: "'s \<Rightarrow> nat"
    and ok :: "'s \<Rightarrow> bool"
    and window :: nat
    and limit :: nat
  assumes ok_step: "ok s \<Longrightarrow> ok (snd (step s e))"
    and used_limit: "ok s \<Longrightarrow> used s \<le> limit"
    and step_cases: "ok s \<Longrightarrow>
      (opened (snd (step s e)) = opened s \<and> used (snd (step s e)) = used s + of_bool (fst (step s e) \<and> counts e)
         \<and> (fst (step s e) \<and> counts e \<longrightarrow> (\<exists>w. opened s = Some w)))
      \<or> (opened (snd (step s e)) = Some (time e) \<and> used (snd (step s e)) = of_bool (fst (step s e) \<and> counts e)
         \<and> (\<forall>w. opened s = Some w \<longrightarrow> w + window \<le> time e))
      \<or> (opened (snd (step s e)) = None \<and> \<not> (fst (step s e) \<and> counts e)
         \<and> (\<forall>w. opened s = Some w \<longrightarrow> w + window \<le> time e))"
begin

fun run :: "'s \<Rightarrow> 'e list \<Rightarrow> 's" where
  "run s [] = s"
| "run s (e # es) = run (snd (step s e)) es"

fun accepted :: "'s \<Rightarrow> 'e list \<Rightarrow> nat" where
  "accepted s [] = 0"
| "accepted s (e # es) = of_bool (fst (step s e) \<and> counts e) + accepted (snd (step s e)) es"

lemma ok_run: "ok s \<Longrightarrow> ok (run s es)"
  by (induction es arbitrary: s) (auto intro: ok_step)

text \<open>Within the window that is open, what is left of the limit bounds what is accepted.\<close>

lemma accepted_in_window:
  "ok s \<Longrightarrow> opened s = Some w \<Longrightarrow> \<forall>e\<in>set es. time e < w + window \<Longrightarrow> used s + accepted s es \<le> limit"
proof (induction es arbitrary: s)
  case Nil
  thus ?case using used_limit by simp
next
  case (Cons e es)
  let ?s = "snd (step s e)"
  have live: "\<not> w + window \<le> time e" using Cons.prems(3) by simp
  have "opened ?s = Some w \<and> used ?s = used s + of_bool (fst (step s e) \<and> counts e)"
    using step_cases [OF Cons.prems(1), of e] Cons.prems(2) live by auto
  thus ?case using Cons.IH [of ?s] Cons.prems ok_step [OF Cons.prems(1)] by simp
qed

lemma accepted_from_closed:
  "ok s \<Longrightarrow> opened s = None \<Longrightarrow> \<forall>e\<in>set es. t \<le> time e \<and> time e < t + window \<Longrightarrow> accepted s es \<le> limit"
proof (induction es arbitrary: s)
  case (Cons e es)
  let ?s = "snd (step s e)"
  have ok: "ok ?s" using Cons.prems(1) by (rule ok_step)
  consider (closed) "opened ?s = None" "\<not> (fst (step s e) \<and> counts e)"
    | (fresh) "opened ?s = Some (time e)" "used ?s = of_bool (fst (step s e) \<and> counts e)"
    using step_cases [OF Cons.prems(1), of e] Cons.prems(2) by auto
  thus ?case
  proof cases
    case closed
    thus ?thesis using Cons.IH [OF ok] Cons.prems(3) by auto
  next
    case fresh
    have "used ?s + accepted ?s es \<le> limit"
      using accepted_in_window [OF ok fresh(1)] Cons.prems(3) by force
    thus ?thesis using fresh(2) by simp
  qed
qed simp

text \<open>In any stretch of time no longer than a window, two windows at most contribute.\<close>

lemma accepted_in_interval:
  "ok s \<Longrightarrow> \<forall>e\<in>set es. t \<le> time e \<and> time e < t + window \<Longrightarrow> used s + accepted s es \<le> 2 * limit"
proof (induction es arbitrary: s)
  case Nil
  thus ?case using used_limit [OF Nil.prems(1)] by simp
next
  case (Cons e es)
  let ?s = "snd (step s e)"
  let ?a = "of_bool (fst (step s e) \<and> counts e) :: nat"
  have ok: "ok ?s" using Cons.prems(1) by (rule ok_step)
  have IH: "used ?s + accepted ?s es \<le> 2 * limit" using Cons.IH [OF ok] Cons.prems(2) by simp
  have us: "used s \<le> limit" using used_limit [OF Cons.prems(1)] .
  consider (keep) "used ?s = used s + ?a"
    | (fresh) "opened ?s = Some (time e)" "used ?s = ?a"
    | (gone) "opened ?s = None" "?a = 0" "\<forall>w. opened s = Some w \<longrightarrow> w + window \<le> time e"
    using step_cases [OF Cons.prems(1), of e] by auto
  thus ?case
  proof cases
    case keep
    thus ?thesis using IH by simp
  next
    case fresh
    have "used ?s + accepted ?s es \<le> limit"
      using accepted_in_window [OF ok fresh(1)] Cons.prems(2) by force
    thus ?thesis using fresh(2) us by simp
  next
    case gone
    have "accepted ?s es \<le> limit" using accepted_from_closed [OF ok gone(1), of es t] Cons.prems(2) by simp
    thus ?thesis using gone(2) us by auto
  qed
qed

end

section \<open>Definitions\<close>

datatype source_limit_kind = KPacket | KNewSession | KNewFlow

definition SOURCE_RATE_WINDOW :: nat where
  "SOURCE_RATE_WINDOW = duration_secs 1"

definition SOURCE_RATE_PRUNE_INTERVAL :: nat where
  "SOURCE_RATE_PRUNE_INTERVAL = duration_secs 30"

definition SOURCE_RATE_IDLE_TTL :: nat where
  "SOURCE_RATE_IDLE_TTL = duration_secs 120"

definition MAX_PACKETS_PER_SOURCE_WINDOW :: nat where
  "MAX_PACKETS_PER_SOURCE_WINDOW = 50000"

definition MAX_NEW_SESSIONS_PER_SOURCE_WINDOW :: nat where
  "MAX_NEW_SESSIONS_PER_SOURCE_WINDOW = 256"

definition MAX_NEW_FLOWS_PER_SOURCE_WINDOW :: nat where
  "MAX_NEW_FLOWS_PER_SOURCE_WINDOW = 4096"

definition MAX_SESSIONS_TOTAL :: nat where
  "MAX_SESSIONS_TOTAL = 65536"

record source_rate_state =
  window_start :: instant
  rs_packets :: nat
  rs_new_sessions :: nat
  rs_new_flows :: nat

definition source_rate_state_new :: "instant \<Rightarrow> source_rate_state" where
  "source_rate_state_new now = \<lparr>window_start = now, rs_packets = 0, rs_new_sessions = 0, rs_new_flows = 0\<rparr>"

definition source_rate_state_allow ::
  "source_rate_state \<Rightarrow> source_limit_kind \<Rightarrow> instant \<Rightarrow> bool \<times> source_rate_state" where
  "source_rate_state_allow st kind now =
     (let st = (if saturating_duration_since now (window_start st) \<ge> SOURCE_RATE_WINDOW
                then source_rate_state_new now else st)
      in case kind of
           KPacket \<Rightarrow>
             if rs_packets st \<ge> MAX_PACKETS_PER_SOURCE_WINDOW then (False, st)
             else (True, st\<lparr>rs_packets := rs_packets st + 1\<rparr>)
         | KNewSession \<Rightarrow>
             if rs_new_sessions st \<ge> MAX_NEW_SESSIONS_PER_SOURCE_WINDOW then (False, st)
             else (True, st\<lparr>rs_new_sessions := rs_new_sessions st + 1\<rparr>)
         | KNewFlow \<Rightarrow>
             if rs_new_flows st \<ge> MAX_NEW_FLOWS_PER_SOURCE_WINDOW then (False, st)
             else (True, st\<lparr>rs_new_flows := rs_new_flows st + 1\<rparr>))"

record source_rate_limiter =
  rl_sources :: "(ip_addr, source_rate_state) dmap"
  rl_created_at :: instant
  rl_last_prune_ms :: nat

definition source_rate_limiter_new :: "instant \<Rightarrow> source_rate_limiter" where
  "source_rate_limiter_new now = \<lparr>rl_sources = [], rl_created_at = now, rl_last_prune_ms = 0\<rparr>"

definition duration_millis_u64 :: "nat \<Rightarrow> nat" where
  "duration_millis_u64 d = min (d div 1000000) u64_max"

text \<open>
  The compare-and-exchange of \<^verbatim>\<open>prune_idle\<close> fails only when another thread has
  pruned since the load; a step runs alone, so it succeeds.
\<close>

definition prune_idle :: "instant \<Rightarrow> source_rate_limiter \<Rightarrow> source_rate_limiter" where
  "prune_idle now l =
     (let now_ms = duration_millis_u64 (saturating_duration_since now (rl_created_at l)) in
      if now_ms - rl_last_prune_ms l < duration_millis_u64 SOURCE_RATE_PRUNE_INTERVAL then l
      else l\<lparr>rl_last_prune_ms := now_ms,
             rl_sources := dm_retain (\<lambda>_ st. saturating_duration_since now (window_start st) < SOURCE_RATE_IDLE_TTL)
               (rl_sources l)\<rparr>)"

definition source_rate_limiter_allow ::
  "source_rate_limiter \<Rightarrow> ip_addr \<Rightarrow> source_limit_kind \<Rightarrow> instant \<Rightarrow> bool \<times> source_rate_limiter" where
  "source_rate_limiter_allow l ip kind now =
     (let l = prune_idle now l in
      if \<not> dm_contains (rl_sources l) ip \<and> dm_len (rl_sources l) \<ge> MAX_SESSIONS_TOTAL then (False, l)
      else
        let st = (case dm_get (rl_sources l) ip of Some st \<Rightarrow> st | None \<Rightarrow> source_rate_state_new now);
            (allowed, st) = source_rate_state_allow st kind now
        in (allowed, l\<lparr>rl_sources := dm_insert ip st (rl_sources l)\<rparr>))"

definition allow_source_event ::
  "source_rate_limiter \<Rightarrow> stats \<Rightarrow> sock_addr \<Rightarrow> source_limit_kind \<Rightarrow> instant
    \<Rightarrow> bool \<times> source_rate_limiter \<times> stats" where
  "allow_source_event l stats client_addr kind now =
     (let (allowed, l) = source_rate_limiter_allow l (sock_ip client_addr) kind now in
      if allowed then (True, l, stats)
      else (False, l, drop_in RateLimit (stats\<lparr>throttled_users := throttled_users stats + 1\<rparr>)))"

text \<open>The buckets; \<open>hash\<close> is the value \<^verbatim>\<open>RandomState::hash_one\<close> gives for an address.\<close>

type_synonym pending_auth_limiter = "source_rate_state list"

definition pending_auth_limiter_new :: "instant \<Rightarrow> pending_auth_limiter" where
  "pending_auth_limiter_new now = replicate 4096 (source_rate_state_new now)"

definition pending_auth_limiter_allow ::
  "(ip_addr \<Rightarrow> nat) \<Rightarrow> pending_auth_limiter \<Rightarrow> ip_addr \<Rightarrow> instant \<Rightarrow> bool \<times> pending_auth_limiter" where
  "pending_auth_limiter_allow hash buckets ip now =
     (let index = hash ip mod length buckets;
          (allowed, bucket) = source_rate_state_allow (buckets ! index) KNewSession now
      in (allowed, buckets[index := bucket]))"

section \<open>One window\<close>

fun kind_limit :: "source_limit_kind \<Rightarrow> nat" where
  "kind_limit KPacket = 50000"
| "kind_limit KNewSession = 256"
| "kind_limit KNewFlow = 4096"

fun kind_used :: "source_limit_kind \<Rightarrow> source_rate_state \<Rightarrow> nat" where
  "kind_used KPacket st = rs_packets st"
| "kind_used KNewSession st = rs_new_sessions st"
| "kind_used KNewFlow st = rs_new_flows st"

definition rate_state_ok :: "source_rate_state \<Rightarrow> bool" where
  "rate_state_ok st \<longleftrightarrow> (\<forall>k. kind_used k st \<le> kind_limit k)"

lemmas rate_defs = source_rate_state_allow_def source_rate_state_new_def SOURCE_RATE_WINDOW_def
  MAX_PACKETS_PER_SOURCE_WINDOW_def MAX_NEW_SESSIONS_PER_SOURCE_WINDOW_def
  MAX_NEW_FLOWS_PER_SOURCE_WINDOW_def saturating_duration_since_def duration_secs_def Let_def

lemma all_kinds: "(\<forall>k. P k) \<longleftrightarrow> P KPacket \<and> P KNewSession \<and> P KNewFlow"
  using source_limit_kind.exhaust by metis

lemma rate_state_new_ok [simp]: "rate_state_ok (source_rate_state_new now)"
  by (simp add: rate_state_ok_def all_kinds source_rate_state_new_def)

lemma kind_used_new [simp]: "kind_used k (source_rate_state_new now) = 0"
  by (cases k) (simp_all add: source_rate_state_new_def)

lemma rate_allow_ok: "rate_state_ok st \<Longrightarrow> rate_state_ok (snd (source_rate_state_allow st kind now))"
  by (cases kind) (auto simp: rate_state_ok_def all_kinds rate_defs)

lemma rate_allow_live:
  assumes "now < window_start st + SOURCE_RATE_WINDOW"
  shows "window_start (snd (source_rate_state_allow st kind now)) = window_start st"
    and "kind_used k (snd (source_rate_state_allow st kind now)) =
      kind_used k st + of_bool (fst (source_rate_state_allow st kind now) \<and> kind = k)"
    and "fst (source_rate_state_allow st kind now) \<longleftrightarrow> kind_used kind st < kind_limit kind"
  using assms by (cases kind; cases k; auto simp: rate_defs)+

lemma rate_allow_expired:
  assumes "window_start st + SOURCE_RATE_WINDOW \<le> now"
  shows "window_start (snd (source_rate_state_allow st kind now)) = now"
    and "kind_used k (snd (source_rate_state_allow st kind now)) = of_bool (kind = k)"
    and "fst (source_rate_state_allow st kind now)"
  using assms by (cases kind; cases k; auto simp: rate_defs)+

section \<open>The table of sources\<close>

type_synonym source_event = "ip_addr \<times> source_limit_kind \<times> instant"

definition limiter_step :: "source_rate_limiter \<Rightarrow> source_event \<Rightarrow> bool \<times> source_rate_limiter" where
  "limiter_step l e = source_rate_limiter_allow l (fst e) (fst (snd e)) (snd (snd e))"

definition limiter_opened :: "ip_addr \<Rightarrow> source_rate_limiter \<Rightarrow> instant option" where
  "limiter_opened ip l = map_option window_start (dm_get (rl_sources l) ip)"

definition limiter_used :: "ip_addr \<Rightarrow> source_limit_kind \<Rightarrow> source_rate_limiter \<Rightarrow> nat" where
  "limiter_used ip k l = (case dm_get (rl_sources l) ip of None \<Rightarrow> 0 | Some st \<Rightarrow> kind_used k st)"

definition limiter_ok :: "source_rate_limiter \<Rightarrow> bool" where
  "limiter_ok l \<longleftrightarrow> dm_ok (rl_sources l) \<and> dm_len (rl_sources l) \<le> MAX_SESSIONS_TOTAL
     \<and> (\<forall>ip st. dm_get (rl_sources l) ip = Some st \<longrightarrow> rate_state_ok st)"

lemma limiter_new_ok [simp]: "limiter_ok (source_rate_limiter_new now)"
  by (simp add: limiter_ok_def source_rate_limiter_new_def dm_len_def)

lemma prune_idle_get:
  assumes "dm_ok (rl_sources l)"
  shows "dm_get (rl_sources (prune_idle now l)) ip = dm_get (rl_sources l) ip \<or>
    dm_get (rl_sources (prune_idle now l)) ip = None \<and>
    (\<forall>st. dm_get (rl_sources l) ip = Some st \<longrightarrow> window_start st + SOURCE_RATE_WINDOW \<le> now)"
  using assms
  by (auto simp: prune_idle_def Let_def saturating_duration_since_def SOURCE_RATE_IDLE_TTL_def
      SOURCE_RATE_WINDOW_def duration_secs_def split: option.splits)

lemma prune_idle_ok: "limiter_ok l \<Longrightarrow> limiter_ok (prune_idle now l)"
  using dm_len_retain_le [of _ "rl_sources l"]
  by (auto simp: limiter_ok_def prune_idle_def Let_def intro: order_trans split: option.splits if_splits)

lemma limiter_step_ok: "limiter_ok l \<Longrightarrow> limiter_ok (snd (limiter_step l e))"
proof -
  assume "limiter_ok l"
  obtain ip kind now where e: "e = (ip, kind, now)" by (cases e)
  let ?l = "prune_idle now l"
  have ok: "limiter_ok ?l" using \<open>limiter_ok l\<close> by (rule prune_idle_ok)
  show ?thesis
  proof (cases "\<not> dm_contains (rl_sources ?l) ip \<and> dm_len (rl_sources ?l) \<ge> MAX_SESSIONS_TOTAL")
    case True
    thus ?thesis using ok by (simp add: limiter_step_def source_rate_limiter_allow_def e Let_def)
  next
    case False
    define st where "st = (case dm_get (rl_sources ?l) ip of Some st \<Rightarrow> st | None \<Rightarrow> source_rate_state_new now)"
    have "rate_state_ok st" using ok by (auto simp: st_def limiter_ok_def split: option.splits)
    hence st': "rate_state_ok (snd (source_rate_state_allow st kind now))" by (rule rate_allow_ok)
    have "dm_len (dm_insert ip (snd (source_rate_state_allow st kind now)) (rl_sources ?l)) \<le> MAX_SESSIONS_TOTAL"
      using ok False by (intro dm.capped_insert) (auto simp: limiter_ok_def dm_contains_get)
    thus ?thesis using ok False st'
      by (auto simp: limiter_step_def source_rate_limiter_allow_def e Let_def limiter_ok_def
          st_def [symmetric] split: prod.splits)
  qed
qed

text \<open>What one event does to the entry of a source.\<close>

lemma limiter_step_entry:
  assumes "limiter_ok l" "e = (ip', kind, now)"
  shows "(dm_get (rl_sources (snd (limiter_step l e))) ip = dm_get (rl_sources (prune_idle now l)) ip
      \<and> \<not> (fst (limiter_step l e) \<and> ip' = ip))
    \<or> (ip' = ip \<and> (\<exists>st. st = (case dm_get (rl_sources (prune_idle now l)) ip of Some st \<Rightarrow> st | None \<Rightarrow> source_rate_state_new now)
        \<and> dm_get (rl_sources (snd (limiter_step l e))) ip = Some (snd (source_rate_state_allow st kind now))
        \<and> fst (limiter_step l e) = fst (source_rate_state_allow st kind now)))"
  by (auto simp: assms(2) limiter_step_def source_rate_limiter_allow_def Let_def split: prod.splits)

lemma limiter_step_cases:
  assumes ok: "limiter_ok l"
  shows "(limiter_opened ip (snd (limiter_step l e)) = limiter_opened ip l
       \<and> limiter_used ip k (snd (limiter_step l e)) =
           limiter_used ip k l + of_bool (fst (limiter_step l e) \<and> (fst e = ip \<and> fst (snd e) = k))
       \<and> (fst (limiter_step l e) \<and> (fst e = ip \<and> fst (snd e) = k) \<longrightarrow> (\<exists>w. limiter_opened ip l = Some w)))
    \<or> (limiter_opened ip (snd (limiter_step l e)) = Some (snd (snd e))
       \<and> limiter_used ip k (snd (limiter_step l e)) = of_bool (fst (limiter_step l e) \<and> (fst e = ip \<and> fst (snd e) = k))
       \<and> (\<forall>w. limiter_opened ip l = Some w \<longrightarrow> w + SOURCE_RATE_WINDOW \<le> snd (snd e)))
    \<or> (limiter_opened ip (snd (limiter_step l e)) = None
       \<and> \<not> (fst (limiter_step l e) \<and> (fst e = ip \<and> fst (snd e) = k))
       \<and> (\<forall>w. limiter_opened ip l = Some w \<longrightarrow> w + SOURCE_RATE_WINDOW \<le> snd (snd e)))"
proof -
  obtain ip' kind now where e: "e = (ip', kind, now)" by (cases e)
  let ?g = "dm_get (rl_sources (prune_idle now l)) ip" and ?l = "snd (limiter_step l e)"
  have pr: "?g = dm_get (rl_sources l) ip \<or>
    ?g = None \<and> (\<forall>st. dm_get (rl_sources l) ip = Some st \<longrightarrow> window_start st + SOURCE_RATE_WINDOW \<le> now)"
    using ok by (intro prune_idle_get) (simp add: limiter_ok_def)
  note views = limiter_opened_def limiter_used_def
  show ?thesis
  proof (cases "dm_get (rl_sources ?l) ip = ?g \<and> \<not> (fst (limiter_step l e) \<and> ip' = ip)")
    case True
    thus ?thesis using pr by (auto simp: views e)
  next
    case False
    then obtain st where st: "ip' = ip"
      "st = (case ?g of Some st \<Rightarrow> st | None \<Rightarrow> source_rate_state_new now)"
      "dm_get (rl_sources ?l) ip = Some (snd (source_rate_state_allow st kind now))"
      "fst (limiter_step l e) = fst (source_rate_state_allow st kind now)"
      using limiter_step_entry [OF ok e, of ip] by blast
    show ?thesis
    proof (cases "?g")
      case None
      have "now < window_start st + SOURCE_RATE_WINDOW" "window_start st = now"
        using st(2) None by (simp_all add: source_rate_state_new_def SOURCE_RATE_WINDOW_def duration_secs_def)
      thus ?thesis using st pr None by (auto simp: views e rate_allow_live)
    next
      case (Some st0)
      hence old: "dm_get (rl_sources l) ip = Some st" using pr st(2) by fastforce
      show ?thesis
      proof (cases "now < window_start st + SOURCE_RATE_WINDOW")
        case True
        thus ?thesis using st old by (auto simp: views e rate_allow_live)
      next
        case False
        thus ?thesis using st old by (auto simp: views e rate_allow_expired)
      qed
    qed
  qed
qed

lemma limiter_used_limit: "limiter_ok l \<Longrightarrow> limiter_used ip k l \<le> kind_limit k"
  by (auto simp: limiter_used_def limiter_ok_def rate_state_ok_def split: option.splits)

interpretation src: window_limiter limiter_step "\<lambda>e. snd (snd e)" "\<lambda>e. fst e = ip \<and> fst (snd e) = k"
  "limiter_opened ip" "limiter_used ip k" limiter_ok SOURCE_RATE_WINDOW "kind_limit k" for ip k
  by unfold_locales (use limiter_step_ok limiter_used_limit limiter_step_cases in blast)+

fun limiter_run :: "source_rate_limiter \<Rightarrow> source_event list \<Rightarrow> source_rate_limiter" where
  "limiter_run l [] = l"
| "limiter_run l (e # es) = limiter_run (snd (limiter_step l e)) es"

fun limiter_accepted :: "ip_addr \<Rightarrow> source_limit_kind \<Rightarrow> source_rate_limiter \<Rightarrow> source_event list \<Rightarrow> nat" where
  "limiter_accepted ip k l [] = 0"
| "limiter_accepted ip k l (e # es) =
     of_bool (fst (limiter_step l e) \<and> fst e = ip \<and> fst (snd e) = k)
     + limiter_accepted ip k (snd (limiter_step l e)) es"

lemma limiter_run_eq: "limiter_run l es = src.run l es"
  by (induction es arbitrary: l) auto

lemma limiter_accepted_eq: "limiter_accepted ip k l es = src.accepted ip k l es"
  by (induction es arbitrary: l) auto

lemma limiter_run_append: "limiter_run l (es @ fs) = limiter_run (limiter_run l es) fs"
  by (induction es arbitrary: l) auto

text \<open>
  C29. In any stretch of events within one window of a second, whatever happened before,
  a source address gets at most twice the limit of packets, new sessions or new flows
  accepted, pruning included, and the table never tracks more than 65536 sources.
\<close>

theorem source_rate_bound:
  assumes "\<forall>e\<in>set mid. t \<le> snd (snd e) \<and> snd (snd e) < t + SOURCE_RATE_WINDOW"
  shows "limiter_accepted ip kind (limiter_run (source_rate_limiter_new t0) pre) mid \<le> 2 * kind_limit kind
    \<and> dm_len (rl_sources (limiter_run (source_rate_limiter_new t0) (pre @ mid))) \<le> MAX_SESSIONS_TOTAL"
proof -
  have ok: "limiter_ok (limiter_run (source_rate_limiter_new t0) es)" for es
    unfolding limiter_run_eq by (rule src.ok_run) simp
  have "limiter_accepted ip kind (limiter_run (source_rate_limiter_new t0) pre) mid \<le> 2 * kind_limit kind"
    using src.accepted_in_interval [OF ok assms, of ip kind pre] by (simp only: limiter_accepted_eq)
  thus ?thesis using ok [of "pre @ mid"] by (simp add: limiter_ok_def)
qed

theorem source_rate_bound_witness:
  "limiter_accepted (IpV4 (Ipv4 9 9 9 9)) KNewSession (limiter_run (source_rate_limiter_new 0) [])
     (replicate 3 (IpV4 (Ipv4 9 9 9 9), KNewSession, 5)) \<le> 2 * kind_limit KNewSession"
  using source_rate_bound [of "replicate 3 (IpV4 (Ipv4 9 9 9 9), KNewSession, 5)" 0
      "IpV4 (Ipv4 9 9 9 9)" KNewSession 0 "[]"]
  by (simp add: SOURCE_RATE_WINDOW_def duration_secs_def)

section \<open>The buckets before verification\<close>

type_synonym pending_event = "ip_addr \<times> instant"

definition pending_step ::
  "(ip_addr \<Rightarrow> nat) \<Rightarrow> pending_auth_limiter \<Rightarrow> pending_event \<Rightarrow> bool \<times> pending_auth_limiter" where
  "pending_step hash bs e = pending_auth_limiter_allow hash bs (fst e) (snd e)"

definition pending_ok :: "pending_auth_limiter \<Rightarrow> bool" where
  "pending_ok bs \<longleftrightarrow> length bs = 4096 \<and> (\<forall>st\<in>set bs. rate_state_ok st)"

lemma pending_new_ok [simp]: "pending_ok (pending_auth_limiter_new now)"
  by (simp add: pending_ok_def pending_auth_limiter_new_def)

lemma pending_step_bucket:
  assumes "pending_ok bs" "i < 4096"
  shows "snd (pending_step hash bs e) ! i =
      (if hash (fst e) mod 4096 = i then snd (source_rate_state_allow (bs ! i) KNewSession (snd e)) else bs ! i)"
    and "fst (pending_step hash bs e) = fst (source_rate_state_allow (bs ! (hash (fst e) mod 4096)) KNewSession (snd e))"
  using assms by (auto simp: pending_step_def pending_auth_limiter_allow_def pending_ok_def Let_def split: prod.splits)

lemma pending_step_ok: "pending_ok bs \<Longrightarrow> pending_ok (snd (pending_step hash bs e))"
  using rate_allow_ok [of "bs ! (hash (fst e) mod 4096)" KNewSession "snd e"]
  by (auto simp: pending_step_def pending_auth_limiter_allow_def pending_ok_def Let_def set_update_subset_insert
      split: prod.splits dest!: subsetD [OF set_update_subset_insert])

interpretation pend: window_limiter "pending_step hash" snd "\<lambda>e. hash (fst e) mod 4096 = i mod 4096"
  "\<lambda>bs. Some (window_start (bs ! (i mod 4096)))" "\<lambda>bs. rs_new_sessions (bs ! (i mod 4096))"
  pending_ok SOURCE_RATE_WINDOW 256 for hash i
proof unfold_locales
  fix bs :: pending_auth_limiter and e :: pending_event
  assume ok: "pending_ok bs"
  let ?i = "i mod 4096"
  have i: "?i < 4096" by simp
  note b = pending_step_bucket [OF ok i, of hash e]
  show "pending_ok (snd (pending_step hash bs e))" using ok by (rule pending_step_ok)
  have "rate_state_ok (bs ! ?i)" using ok i by (auto simp: pending_ok_def)
  thus "rs_new_sessions (bs ! ?i) \<le> 256" by (simp add: rate_state_ok_def all_kinds)
  show "(Some (window_start (snd (pending_step hash bs e) ! ?i)) = Some (window_start (bs ! ?i)) \<and>
        rs_new_sessions (snd (pending_step hash bs e) ! ?i) =
        rs_new_sessions (bs ! ?i) + of_bool (fst (pending_step hash bs e) \<and> hash (fst e) mod 4096 = ?i) \<and>
        (fst (pending_step hash bs e) \<and> hash (fst e) mod 4096 = ?i \<longrightarrow>
         (\<exists>w. Some (window_start (bs ! ?i)) = Some w))) \<or>
       Some (window_start (snd (pending_step hash bs e) ! ?i)) = Some (snd e) \<and>
       rs_new_sessions (snd (pending_step hash bs e) ! ?i) =
       of_bool (fst (pending_step hash bs e) \<and> hash (fst e) mod 4096 = ?i) \<and>
       (\<forall>w. Some (window_start (bs ! ?i)) = Some w \<longrightarrow> w + SOURCE_RATE_WINDOW \<le> snd e) \<or>
       Some (window_start (snd (pending_step hash bs e) ! ?i)) = None \<and>
       \<not> (fst (pending_step hash bs e) \<and> hash (fst e) mod 4096 = ?i) \<and>
       (\<forall>w. Some (window_start (bs ! ?i)) = Some w \<longrightarrow> w + SOURCE_RATE_WINDOW \<le> snd e)"
  proof (cases "snd e < window_start (bs ! ?i) + SOURCE_RATE_WINDOW")
    case True
    thus ?thesis using b rate_allow_live(1,2) [OF True, of KNewSession] rate_allow_live(2) [OF True, of KNewSession KNewSession] by auto
  next
    case False
    hence exp: "window_start (bs ! ?i) + SOURCE_RATE_WINDOW \<le> snd e" by simp
    show ?thesis using b rate_allow_expired(1,3) [OF exp, of KNewSession] rate_allow_expired(2) [OF exp, of KNewSession KNewSession] exp
      by auto
  qed
qed

fun pending_run :: "(ip_addr \<Rightarrow> nat) \<Rightarrow> pending_auth_limiter \<Rightarrow> pending_event list \<Rightarrow> pending_auth_limiter" where
  "pending_run hash bs [] = bs"
| "pending_run hash bs (e # es) = pending_run hash (snd (pending_step hash bs e)) es"

fun pending_accepted :: "(ip_addr \<Rightarrow> nat) \<Rightarrow> ip_addr \<Rightarrow> pending_auth_limiter \<Rightarrow> pending_event list \<Rightarrow> nat" where
  "pending_accepted hash ip bs [] = 0"
| "pending_accepted hash ip bs (e # es) =
     of_bool (fst (pending_step hash bs e) \<and> fst e = ip) + pending_accepted hash ip (snd (pending_step hash bs e)) es"

lemma pending_run_ok: "pending_ok bs \<Longrightarrow> pending_ok (pending_run hash bs es)"
  by (induction es arbitrary: bs) (auto intro: pending_step_ok)

lemma pending_accepted_le: "pending_accepted hash ip bs es \<le> pend.accepted hash (hash ip) bs es"
proof (induction es arbitrary: bs)
  case (Cons e es)
  have "of_bool (fst (pending_step hash bs e) \<and> fst e = ip) \<le>
    (of_bool (fst (pending_step hash bs e) \<and> hash (fst e) mod 4096 = hash ip mod 4096) :: nat)"
    by auto
  thus ?case using Cons.IH by (simp add: add_mono)
qed simp

text \<open>
  In any stretch of events no longer than a second, one address gets at most twice
  the new-session limit of hello verifications, and the limiter keeps its 4096 buckets.
\<close>

theorem verification_attempts_bound:
  assumes "\<forall>e\<in>set mid. t \<le> snd e \<and> snd e < t + SOURCE_RATE_WINDOW"
  shows "pending_accepted hash ip (pending_run hash (pending_auth_limiter_new t0) pre) mid
      \<le> 2 * MAX_NEW_SESSIONS_PER_SOURCE_WINDOW
    \<and> length (pending_run hash (pending_auth_limiter_new t0) (pre @ mid)) = 4096"
proof -
  have ok: "pending_ok (pending_run hash (pending_auth_limiter_new t0) es)" for es
    by (rule pending_run_ok) simp
  let ?bs = "pending_run hash (pending_auth_limiter_new t0) pre"
  have "rs_new_sessions (?bs ! (hash ip mod 4096)) + pend.accepted hash (hash ip) ?bs mid \<le> 2 * 256"
    by (rule pend.accepted_in_interval [OF ok assms])
  thus ?thesis
    using pending_accepted_le [of hash ip ?bs mid] ok [of "pre @ mid"]
    by (simp add: pending_ok_def MAX_NEW_SESSIONS_PER_SOURCE_WINDOW_def)
qed

theorem verification_attempts_bound_witness:
  "pending_accepted (\<lambda>_. 7) (IpV4 (Ipv4 9 9 9 9)) (pending_run (\<lambda>_. 7) (pending_auth_limiter_new 0) [])
     [(IpV4 (Ipv4 9 9 9 9), 5)] \<le> 2 * MAX_NEW_SESSIONS_PER_SOURCE_WINDOW"
  using verification_attempts_bound [of "[(IpV4 (Ipv4 9 9 9 9), 5)]" 0 "\<lambda>_. 7" "IpV4 (Ipv4 9 9 9 9)" 0 "[]"]
  by (simp add: SOURCE_RATE_WINDOW_def duration_secs_def)

end
