(* ===== verification/Session.thy ===== *)
theory Session
  imports Rate_Limit Ticket
begin

text \<open>
  Sessions in \<^verbatim>\<open>src/src/main.rs\<close>: the entry of a session and its traffic counters,
  the number of sessions per source address, the conditions under which a packet is
  carried for a session, and the state both datapaths share when they admit a packet.
\<close>

section \<open>Definitions\<close>

record session_entry =
  user_id :: string
  auth_state :: session_auth_state
  lease_expires_at_unix :: "nat option"
  client_addr :: sock_addr
  created_at_unix :: nat
  last_activity :: instant
  last_activity_unix :: nat

record session_traffic =
  st_connected_at_unix :: nat
  st_bytes_in :: u64
  st_bytes_out :: u64
  st_packets_in :: u64
  st_packets_out :: u64
  st_last_activity_unix :: nat
  st_last_rtt_us :: u64

definition session_traffic_new :: "nat \<Rightarrow> session_traffic" where
  "session_traffic_new connected_at_unix =
     \<lparr>st_connected_at_unix = connected_at_unix, st_bytes_in = 0, st_bytes_out = 0, st_packets_in = 0,
      st_packets_out = 0, st_last_activity_unix = connected_at_unix, st_last_rtt_us = 0\<rparr>"

type_synonym sessions = "(session_id, session_entry) dmap"
type_synonym source_counts = "(ip_addr, nat) dmap"
type_synonym traffic = "(session_id, session_traffic) dmap"

definition derive_user_id :: "session_id \<Rightarrow> string" where
  "derive_user_id sid = ''session-'' @ hex16 sid"

definition record_session_ingress :: "traffic \<Rightarrow> session_id \<Rightarrow> nat \<Rightarrow> nat \<Rightarrow> traffic" where
  "record_session_ingress tr sid connected_at_unix packet_len =
     (let t = (case dm_get tr sid of Some t \<Rightarrow> t | None \<Rightarrow> session_traffic_new connected_at_unix)
      in dm_insert sid
           (t\<lparr>st_bytes_in := st_bytes_in t + of_nat packet_len,
              st_packets_in := st_packets_in t + 1,
              st_last_activity_unix := connected_at_unix\<rparr>) tr)"

definition record_session_egress :: "traffic \<Rightarrow> session_id \<Rightarrow> nat \<Rightarrow> traffic" where
  "record_session_egress tr sid n =
     (case dm_get tr sid of
        None \<Rightarrow> tr
      | Some t \<Rightarrow> dm_insert sid (t\<lparr>st_bytes_out := st_bytes_out t + of_nat n,
                                  st_packets_out := st_packets_out t + 1\<rparr>) tr)"

definition touch_session_traffic :: "traffic \<Rightarrow> session_id \<Rightarrow> nat \<Rightarrow> traffic" where
  "touch_session_traffic tr sid now_unix =
     (case dm_get tr sid of
        None \<Rightarrow> tr
      | Some t \<Rightarrow> dm_insert sid (t\<lparr>st_last_activity_unix := now_unix\<rparr>) tr)"

definition source_session_count :: "source_counts \<Rightarrow> ip_addr \<Rightarrow> nat" where
  "source_session_count counts ip = (case dm_get counts ip of None \<Rightarrow> 0 | Some n \<Rightarrow> n)"

definition increment_source_session_count :: "source_counts \<Rightarrow> ip_addr \<Rightarrow> source_counts" where
  "increment_source_session_count counts ip =
     (let n = (case dm_get counts ip of None \<Rightarrow> 0 | Some n \<Rightarrow> n) in dm_insert ip (n + 1) counts)"

definition decrement_source_session_count :: "source_counts \<Rightarrow> ip_addr \<Rightarrow> source_counts" where
  "decrement_source_session_count counts ip =
     (case dm_get counts ip of
        Some n \<Rightarrow> if n > 1 then dm_insert ip (n - 1) counts else dm_remove ip counts
      | None \<Rightarrow> dm_remove ip counts)"

definition update_source_session_count_for_rebind ::
  "source_counts \<Rightarrow> ip_addr \<Rightarrow> ip_addr \<Rightarrow> source_counts" where
  "update_source_session_count_for_rebind counts old_ip new_ip =
     (if old_ip = new_ip then counts
      else increment_source_session_count (decrement_source_session_count counts old_ip) new_ip)"

definition authenticated_session_source_allowed ::
  "session_entry \<Rightarrow> bool \<Rightarrow> sock_addr \<Rightarrow> bool \<Rightarrow> bool" where
  "authenticated_session_source_allowed session auth_required addr is_auth_hello =
     (if \<not> auth_required \<or> auth_state session \<noteq> Authenticated then True
      else is_auth_hello \<or> client_addr session = addr)"

definition session_lease_is_current :: "session_entry \<Rightarrow> nat \<Rightarrow> bool" where
  "session_lease_is_current session now_unix =
     (case lease_expires_at_unix session of None \<Rightarrow> True | Some expires_at \<Rightarrow> now_unix < expires_at)"

definition session_auth_is_current :: "session_entry \<Rightarrow> nat \<Rightarrow> bool" where
  "session_auth_is_current session now_unix =
     (auth_state session = Authenticated \<and>
      (case lease_expires_at_unix session of None \<Rightarrow> False | Some expires_at \<Rightarrow> now_unix < expires_at))"

definition forwarding_addr :: "sessions \<Rightarrow> session_id \<Rightarrow> bool \<Rightarrow> nat \<Rightarrow> sock_addr option" where
  "forwarding_addr ss sid auth_required now_unix =
     (case dm_get ss sid of
        None \<Rightarrow> None
      | Some session \<Rightarrow>
          let current = (if auth_required then session_auth_is_current session now_unix
                         else session_lease_is_current session now_unix)
          in if current then Some (client_addr session) else None)"

definition MAX_SESSIONS_PER_SRC_IP :: nat where
  "MAX_SESSIONS_PER_SRC_IP = 512"

definition v1_session_capacity_available ::
  "sessions \<Rightarrow> source_counts \<Rightarrow> stats \<Rightarrow> ip_addr \<Rightarrow> bool \<times> stats" where
  "v1_session_capacity_available ss counts stats ip =
     (if dm_len ss \<ge> MAX_SESSIONS_TOTAL then (False, drop_in Capacity stats)
      else if source_session_count counts ip \<ge> MAX_SESSIONS_PER_SRC_IP then (False, drop_in Capacity stats)
      else (True, stats))"

section \<open>The number of sessions per source\<close>

text \<open>
  The counts describe the sessions: for every address the count is the number of
  sessions bound to it, and an address without sessions has no entry.
\<close>

definition sessions_from :: "ip_addr \<Rightarrow> sessions \<Rightarrow> nat" where
  "sessions_from ip ss = dm_sum (\<lambda>s. of_bool (sock_ip (client_addr s) = ip)) ss"

definition counts_ok :: "sessions \<Rightarrow> source_counts \<Rightarrow> bool" where
  "counts_ok ss counts \<longleftrightarrow> dm_ok ss \<and> dm_ok counts \<and>
     (\<forall>ip. dm_get counts ip = (if sessions_from ip ss = 0 then None else Some (sessions_from ip ss)))"

lemma counts_ok_Nil [simp]: "counts_ok [] []"
  by (simp add: counts_ok_def sessions_from_def)

lemma source_session_count_ok: "counts_ok ss counts \<Longrightarrow> source_session_count counts ip = sessions_from ip ss"
  by (simp add: counts_ok_def source_session_count_def)

lemma dm_ok_counts_ops [simp]:
  "dm_ok c \<Longrightarrow> dm_ok (increment_source_session_count c ip)"
  "dm_ok c \<Longrightarrow> dm_ok (decrement_source_session_count c ip)"
  "dm_ok c \<Longrightarrow> dm_ok (update_source_session_count_for_rebind c ip ip')"
  by (auto simp: increment_source_session_count_def decrement_source_session_count_def
      update_source_session_count_for_rebind_def Let_def split: option.splits)

lemma get_increment:
  "dm_get (increment_source_session_count c ip) ip' =
     (if ip' = ip then Some (source_session_count c ip + 1) else dm_get c ip')"
  by (simp add: increment_source_session_count_def source_session_count_def Let_def)

lemma get_decrement:
  "dm_get (decrement_source_session_count c ip) ip' =
     (if ip' = ip then (if source_session_count c ip > 1 then Some (source_session_count c ip - 1) else None)
      else dm_get c ip')"
  by (auto simp: decrement_source_session_count_def source_session_count_def split: option.splits)

lemma counts_ok_insert_new:
  assumes "counts_ok ss counts" "dm_get ss sid = None"
  shows "counts_ok (dm_insert sid s ss) (increment_source_session_count counts (sock_ip (client_addr s)))"
  using assms source_session_count_ok [OF assms(1)]
  by (auto simp: counts_ok_def get_increment sessions_from_def dm_sum_insert_new)

lemma sessions_from_update:
  "dm_get ss sid = Some old \<Longrightarrow> client_addr s = client_addr old \<Longrightarrow>
     sessions_from ip (dm_insert sid s ss) = sessions_from ip ss"
  using dm_sum_insert_old [of ss sid old "\<lambda>s. of_bool (sock_ip (client_addr s) = ip) :: nat" s]
  by (simp add: sessions_from_def)

lemma counts_ok_insert_same:
  "counts_ok ss counts \<Longrightarrow> dm_get ss sid = Some old \<Longrightarrow> client_addr s = client_addr old
    \<Longrightarrow> counts_ok (dm_insert sid s ss) counts"
  by (simp add: counts_ok_def sessions_from_update)

lemma counts_ok_rebind:
  assumes "counts_ok ss counts" "dm_get ss sid = Some old"
  shows "counts_ok (dm_insert sid s ss)
    (update_source_session_count_for_rebind counts (sock_ip (client_addr old)) (sock_ip (client_addr s)))"
proof -
  let ?f = "\<lambda>ip s. of_bool (sock_ip (client_addr s) = ip) :: nat"
  have sum: "sessions_from ip (dm_insert sid s ss) + ?f ip old = sessions_from ip ss + ?f ip s" for ip
    using dm_sum_insert_old [OF assms(2), of "?f ip" s] by (simp add: sessions_from_def)
  have pos: "sessions_from (sock_ip (client_addr old)) ss > 0"
    using dm_sum_member_le [OF assms(2), of "?f (sock_ip (client_addr old))"] by (simp add: sessions_from_def)
  note cnt = source_session_count_ok [OF assms(1)]
  show ?thesis
  proof (cases "sock_ip (client_addr old) = sock_ip (client_addr s)")
    case True
    have "sessions_from ip (dm_insert sid s ss) = sessions_from ip ss" for ip using sum [of ip] True by simp
    thus ?thesis using assms(1) True by (simp add: counts_ok_def update_source_session_count_for_rebind_def)
  next
    case False
    let ?o = "sock_ip (client_addr old)" and ?n = "sock_ip (client_addr s)"
    have new: "sessions_from ip (dm_insert sid s ss) =
      (if ip = ?o then sessions_from ip ss - 1 else if ip = ?n then sessions_from ip ss + 1 else sessions_from ip ss)" for ip
      using sum [of ip] False pos by (auto split: if_splits)
    have mid: "source_session_count (decrement_source_session_count counts ?o) ?n = sessions_from ?n ss"
      using cnt [of ?n] False by (simp add: source_session_count_def get_decrement)
    show ?thesis using assms(1) False pos mid cnt
      by (auto simp: counts_ok_def update_source_session_count_for_rebind_def get_increment get_decrement new)
  qed
qed

lemma counts_ok_remove:
  assumes "counts_ok ss counts" "dm_get ss sid = Some old"
  shows "counts_ok (dm_remove sid ss) (decrement_source_session_count counts (sock_ip (client_addr old)))"
proof -
  let ?f = "\<lambda>ip s. of_bool (sock_ip (client_addr s) = ip) :: nat"
  have sum: "sessions_from ip (dm_remove sid ss) + ?f ip old = sessions_from ip ss" for ip
    using dm_sum_remove [OF _ assms(2), of "?f ip"] assms(1) by (simp add: sessions_from_def counts_ok_def)
  note cnt = source_session_count_ok [OF assms(1)]
  have new: "sessions_from ip (dm_remove sid ss) =
      (if ip = sock_ip (client_addr old) then sessions_from ip ss - 1 else sessions_from ip ss)" for ip
    using sum [of ip] by (auto split: if_splits)
  show ?thesis using assms(1) cnt by (auto simp: counts_ok_def get_decrement new)
qed

text \<open>What it takes to be sent traffic: a session whose lease has not run out.\<close>

lemma egress_needs_current_session:
  "forwarding_addr ss sid auth_required now_unix = Some addr \<longleftrightarrow>
     (\<exists>s. dm_get ss sid = Some s \<and> addr = client_addr s \<and>
        (\<forall>e. lease_expires_at_unix s = Some e \<longrightarrow> now_unix < e) \<and>
        (auth_required \<longrightarrow> auth_state s = Authenticated \<and> lease_expires_at_unix s \<noteq> None))"
  by (auto simp: forwarding_addr_def session_auth_is_current_def session_lease_is_current_def Let_def
      split: option.splits if_splits)

end
