(* ===== verification/Account_Budget.thy ===== *)
theory Account_Budget
  imports Session Json_Value
begin

unbundle bit_operations_syntax

text \<open>
  Account-wide budgets (\<^verbatim>\<open>src/src/account_budget.rs\<close>): packets and bytes per second and
  new flows per minute of an authenticated account, shared by all its sessions, with
  a bound on the tracked accounts and flows.

  An account is in the table under its user id; the slots its flows occupy are
  counted in the shared counter, which dropping the account gives back.  A reference
  a packet holds on an account while \<^verbatim>\<open>maintain\<close> runs is the argument \<open>in_use\<close>.
\<close>

section \<open>Definitions\<close>

definition FLOW_IDLE_SECONDS :: nat where
  "FLOW_IDLE_SECONDS = 120"

definition ACCOUNT_IDLE_SECONDS :: nat where
  "ACCOUNT_IDLE_SECONDS = 600"

definition MAX_FLOWS_TOTAL :: nat where
  "MAX_FLOWS_TOTAL = 262144"

record budget_policy =
  bp_enforce :: bool
  bp_packets :: nat
  bp_bytes :: nat
  bp_new_flows :: nat

definition budget_policy_from_env :: "(string \<Rightarrow> string option) \<Rightarrow> budget_policy" where
  "budget_policy_from_env env =
     (let number = (\<lambda>key. case env key of
            None \<Rightarrow> 0
          | Some s \<Rightarrow> (case parse_uint u64_max s of None \<Rightarrow> 0 | Some n \<Rightarrow> n))
      in \<lparr>bp_enforce = (env ''RELAY_ACCOUNT_BUDGET_MODE'' = Some ''enforce''),
          bp_packets = number ''RELAY_ACCOUNT_PACKETS_PER_SECOND'',
          bp_bytes = number ''RELAY_ACCOUNT_BYTES_PER_SECOND'',
          bp_new_flows = number ''RELAY_ACCOUNT_NEW_FLOWS_PER_MINUTE''\<rparr>)"

record budget_flow =
  bf_sid :: session_id
  bf_proto :: u8
  bf_src :: ipv4
  bf_dst :: ipv4
  bf_sport :: u16
  bf_dport :: u16

definition budget_flow_parse :: "session_id \<Rightarrow> bytes \<Rightarrow> budget_flow option" where
  "budget_flow_parse sid p =
     (if length p < 20 \<or> drop_bit 4 (p ! 0) \<noteq> 4 \<or> \<not> (p ! 9 = 6 \<or> p ! 9 = 17) then None
      else if (be16 (p ! 6) (p ! 7) AND 0x1FFF) \<noteq> 0 then None
      else
        let offset = unat (p ! 0 AND 15) * 4 in
        if offset < 20 \<or> length p < offset + 4 then None
        else Some
          \<lparr>bf_sid = sid, bf_proto = p ! 9,
           bf_src = Ipv4 (p ! 12) (p ! 13) (p ! 14) (p ! 15),
           bf_dst = Ipv4 (p ! 16) (p ! 17) (p ! 18) (p ! 19),
           bf_sport = be16 (p ! offset) (p ! (offset + 1)),
           bf_dport = be16 (p ! (offset + 2)) (p ! (offset + 3))\<rparr>)"

text \<open>Packets and bytes in, packets and bytes out.\<close>

record quad =
  q0 :: nat
  q1 :: nat
  q2 :: nat
  q3 :: nat

definition quad_zero :: quad where
  "quad_zero = \<lparr>q0 = 0, q1 = 0, q2 = 0, q3 = 0\<rparr>"

record budget_state =
  bs_second :: nat
  bs_minute :: nat
  bs_counts :: quad
  bs_totals :: quad
  bs_peaks :: quad
  bs_samples :: "quad list"
  bs_new_flows :: u64
  bs_total_new_flows :: u64
  bs_peak_flows :: nat
  bs_breaches :: u64
  bs_drops :: u64
  bs_untracked :: u64
  bs_flows :: "(budget_flow, nat) dmap"

definition budget_state_new :: "nat \<Rightarrow> budget_state" where
  "budget_state_new now =
     \<lparr>bs_second = now, bs_minute = now div 60, bs_counts = quad_zero, bs_totals = quad_zero,
      bs_peaks = quad_zero, bs_samples = [], bs_new_flows = 0, bs_total_new_flows = 0,
      bs_peak_flows = 0, bs_breaches = 0, bs_drops = 0, bs_untracked = 0, bs_flows = []\<rparr>"

record account =
  acc_state :: budget_state
  acc_last_used :: nat

record budgets =
  bu_policy :: budget_policy
  bu_accounts :: "(string, account) dmap"
  bu_slots :: nat
  bu_capacity_packets :: u64
  bu_capacity_drops :: u64
  bu_account_limit :: nat
  bu_flow_limit :: nat

definition budgets_new :: "budget_policy \<Rightarrow> budgets" where
  "budgets_new p =
     \<lparr>bu_policy = p, bu_accounts = [], bu_slots = 0, bu_capacity_packets = 0, bu_capacity_drops = 0,
      bu_account_limit = MAX_SESSIONS_TOTAL, bu_flow_limit = MAX_FLOWS_TOTAL\<rparr>"

text \<open>Find or admit an account.\<close>

definition budgets_account :: "budgets \<Rightarrow> string \<Rightarrow> nat \<Rightarrow> account option \<times> budgets" where
  "budgets_account b user now =
     (case dm_get (bu_accounts b) user of
        Some a \<Rightarrow> (Some a, b)
      | None \<Rightarrow>
          if dm_len (bu_accounts b) \<ge> bu_account_limit b then (None, b)
          else
            let a = \<lparr>acc_state = budget_state_new now, acc_last_used = now\<rparr>
            in (Some a, b\<lparr>bu_accounts := dm_insert user a (bu_accounts b)\<rparr>))"

definition event_roll :: "nat \<Rightarrow> budget_state \<Rightarrow> budget_state" where
  "event_roll now s =
     (let s = (if bs_second s \<noteq> now then
            s\<lparr>bs_samples := (if length (bs_samples s) = 60 then tl (bs_samples s) else bs_samples s) @ [bs_counts s],
              bs_counts := quad_zero, bs_second := now\<rparr> else s)
      in if bs_minute s \<noteq> now div 60 then s\<lparr>bs_new_flows := 0, bs_minute := now div 60\<rparr> else s)"

text \<open>The flow of the packet is forgotten when it has been idle; true when a slot is given back.\<close>

definition event_expire :: "nat \<Rightarrow> budget_flow option \<Rightarrow> budget_state \<Rightarrow> bool \<times> budget_state" where
  "event_expire now flow s =
     (case flow of
        None \<Rightarrow> (False, s)
      | Some key \<Rightarrow>
          (case dm_get (bs_flows s) key of
             None \<Rightarrow> (False, s)
           | Some seen \<Rightarrow>
               if now - seen \<ge> FLOW_IDLE_SECONDS then (True, s\<lparr>bs_flows := dm_remove key (bs_flows s)\<rparr>)
               else (False, s)))"

definition quad_add :: "bool \<Rightarrow> nat \<Rightarrow> quad \<Rightarrow> quad" where
  "quad_add out n q =
     (if out then q\<lparr>q2 := sat_add64 (q2 q) 1, q3 := sat_add64 (q3 q) n\<rparr>
      else q\<lparr>q0 := sat_add64 (q0 q) 1, q1 := sat_add64 (q1 q) n\<rparr>)"

definition quad_peak :: "bool \<Rightarrow> quad \<Rightarrow> quad \<Rightarrow> quad" where
  "quad_peak out counts q =
     (if out then q\<lparr>q2 := max (q2 q) (q2 counts), q3 := max (q3 q) (q3 counts)\<rparr>
      else q\<lparr>q0 := max (q0 q) (q0 counts), q1 := max (q1 q) (q1 counts)\<rparr>)"

definition event_count :: "bool \<Rightarrow> nat \<Rightarrow> budget_state \<Rightarrow> budget_state" where
  "event_count out n s =
     (let counts = quad_add out n (bs_counts s)
      in s\<lparr>bs_counts := counts, bs_totals := quad_add out n (bs_totals s),
           bs_peaks := quad_peak out counts (bs_peaks s)\<rparr>)"

definition event_exceeded :: "budget_policy \<Rightarrow> bool \<Rightarrow> budget_state \<Rightarrow> bool" where
  "event_exceeded p new_flow s \<longleftrightarrow>
     (bp_packets p > 0 \<and> sat_add64 (q0 (bs_counts s)) (q2 (bs_counts s)) > bp_packets p)
     \<or> (bp_bytes p > 0 \<and> sat_add64 (q1 (bs_counts s)) (q3 (bs_counts s)) > bp_bytes p)
     \<or> (new_flow \<and> bp_new_flows p > 0 \<and> unat (bs_new_flows s) \<ge> bp_new_flows p)"

definition event_state ::
  "budget_policy \<Rightarrow> nat \<Rightarrow> bool \<Rightarrow> nat \<Rightarrow> budget_flow option \<Rightarrow> nat \<Rightarrow> nat \<Rightarrow> budget_state
    \<Rightarrow> bool \<times> nat \<times> budget_state" where
  "event_state p flow_limit out n flow now slots s =
     (let now = max now (bs_second s);
          s = event_roll now s;
          (freed, s) = event_expire now flow s;
          slots = (if freed then slots - 1 else slots);
          s = event_count out n s;
          new_flow = (case flow of None \<Rightarrow> False | Some key \<Rightarrow> \<not> dm_contains (bs_flows s) key);
          exceeded = event_exceeded p new_flow s;
          s = (if exceeded then s\<lparr>bs_breaches := bs_breaches s + 1\<rparr> else s)
      in if exceeded \<and> bp_enforce p then (False, slots, s\<lparr>bs_drops := bs_drops s + 1\<rparr>)
         else
           (case flow of
              None \<Rightarrow> (True, slots, s)
            | Some key \<Rightarrow>
                if new_flow \<and> \<not> slots < flow_limit then
                  (\<not> bp_enforce p, slots,
                   let s = s\<lparr>bs_untracked := bs_untracked s + 1\<rparr>
                   in if bp_enforce p then s\<lparr>bs_drops := bs_drops s + 1\<rparr> else s)
                else
                  let slots = (if new_flow then slots + 1 else slots);
                      s = (if new_flow then s\<lparr>bs_new_flows := bs_new_flows s + 1,
                             bs_total_new_flows := bs_total_new_flows s + 1\<rparr> else s);
                      s = s\<lparr>bs_flows := dm_insert key now (bs_flows s)\<rparr>
                  in (True, slots, s\<lparr>bs_peak_flows := max (bs_peak_flows s) (dm_len (bs_flows s))\<rparr>)))"

definition budgets_event ::
  "budgets \<Rightarrow> string \<Rightarrow> bool \<Rightarrow> nat \<Rightarrow> budget_flow option \<Rightarrow> nat \<Rightarrow> bool \<times> budgets" where
  "budgets_event b user out n flow now =
     (case budgets_account b user now of
        (None, b) \<Rightarrow>
          (\<not> bp_enforce (bu_policy b),
           b\<lparr>bu_capacity_packets := bu_capacity_packets b + 1,
             bu_capacity_drops := bu_capacity_drops b + (if bp_enforce (bu_policy b) then 1 else 0)\<rparr>)
      | (Some a, b) \<Rightarrow>
          let (ok, slots, s) = event_state (bu_policy b) (bu_flow_limit b) out n flow now (bu_slots b) (acc_state a);
              a = \<lparr>acc_state = s, acc_last_used = max (acc_last_used a) now\<rparr>
          in (ok, b\<lparr>bu_slots := slots, bu_accounts := dm_insert user a (bu_accounts b)\<rparr>))"

definition account_trim :: "nat \<Rightarrow> account \<Rightarrow> account" where
  "account_trim now a =
     a\<lparr>acc_state := (acc_state a)\<lparr>bs_flows :=
         dm_retain (\<lambda>_ seen. now - seen < FLOW_IDLE_SECONDS) (bs_flows (acc_state a))\<rparr>\<rparr>"

definition account_kept :: "nat \<Rightarrow> (string \<Rightarrow> bool) \<Rightarrow> string \<Rightarrow> account \<Rightarrow> bool" where
  "account_kept now in_use user a \<longleftrightarrow> now - acc_last_used a < ACCOUNT_IDLE_SECONDS \<or> in_use user"

text \<open>Dropping an account and trimming its flows give the slots back.\<close>

definition account_slots :: "(string, account) dmap \<Rightarrow> nat" where
  "account_slots m = dm_sum (\<lambda>a. dm_len (bs_flows (acc_state a))) m"

definition budgets_maintain :: "budgets \<Rightarrow> nat \<Rightarrow> (string \<Rightarrow> bool) \<Rightarrow> budgets" where
  "budgets_maintain b now in_use =
     (let kept = dm_retain (account_kept now in_use) (bu_accounts b);
          dropped = dm_retain (\<lambda>u a. \<not> account_kept now in_use u a) (bu_accounts b);
          slots = bu_slots b - account_slots dropped;
          trimmed = map (\<lambda>(u, a). (u, account_trim now a)) kept
      in b\<lparr>bu_accounts := trimmed, bu_slots := slots - (account_slots kept - account_slots trimmed)\<rparr>)"

definition account_budget_allow ::
  "budgets \<Rightarrow> sessions \<Rightarrow> session_id \<Rightarrow> bool \<Rightarrow> bytes \<Rightarrow> nat \<Rightarrow> bool \<times> budgets" where
  "account_budget_allow b ss sid out packet mono_ms =
     (case dm_get ss sid of
        None \<Rightarrow> (False, b)
      | Some session \<Rightarrow>
          if auth_state session \<noteq> Authenticated then (True, b)
          else budgets_event b (user_id session) out (length packet)
                 (if out then None else budget_flow_parse sid packet) (mono_ms div 1000))"

section \<open>Slots and accounts\<close>

lemma event_roll_flows [simp]: "bs_flows (event_roll now s) = bs_flows s"
  by (simp add: event_roll_def Let_def)

lemma event_count_flows [simp]: "bs_flows (event_count out n s) = bs_flows s"
  by (simp add: event_count_def Let_def)

lemma event_expire_slots:
  assumes "dm_ok (bs_flows s)"
  shows "dm_ok (bs_flows (snd (event_expire now flow s)))"
    and "dm_len (bs_flows (snd (event_expire now flow s))) + of_bool (fst (event_expire now flow s)) = dm_len (bs_flows s)"
  using assms dm.entries_remove [OF assms]
  by (auto simp: event_expire_def split: option.splits)

definition slots_kept :: "nat \<Rightarrow> budget_state \<Rightarrow> nat \<Rightarrow> budget_state \<Rightarrow> bool" where
  "slots_kept slots s slots' s' \<longleftrightarrow> dm_ok (bs_flows s') \<and> slots' + dm_len (bs_flows s) = slots + dm_len (bs_flows s')"

lemma event_state_slots:
  assumes ok: "dm_ok (bs_flows s)" and le: "dm_len (bs_flows s) \<le> slots"
    and r: "event_state p flow_limit out n flow now slots s = (res, slots', s')"
  shows "slots_kept slots s slots' s'" and "slots \<le> flow_limit \<Longrightarrow> slots' \<le> flow_limit"
proof -
  define now' where "now' = max now (bs_second s)"
  define s1 where "s1 = event_count out n (snd (event_expire now' flow (event_roll now' s)))"
  define freed where "freed = fst (event_expire now' flow (event_roll now' s))"
  define slots1 where "slots1 = (if freed then slots - 1 else slots)"
  have ex: "dm_ok (bs_flows s1)" "dm_len (bs_flows s1) + of_bool freed = dm_len (bs_flows s)"
    using event_expire_slots [of "event_roll now' s" now' flow] ok by (simp_all add: s1_def freed_def)
  have sl: "slots1 + of_bool freed = slots" "slots1 \<le> slots" using ex(2) le by (auto simp: slots1_def)
  have res: "slots_kept slots1 s1 slots' s' \<and> (slots1 \<le> flow_limit \<longrightarrow> slots' \<le> flow_limit)"
    using r dm.entries_insert_new [OF ex(1)] dm.entries_insert_old [OF ex(1)] ex(1)
    unfolding event_state_def Let_def now'_def [symmetric] split_beta s1_def [symmetric] freed_def [symmetric]
      slots1_def [symmetric]
    by (auto simp: slots_kept_def dm_contains_get split: option.splits if_splits)
  thus "slots_kept slots s slots' s'" using ex sl by (auto simp: slots_kept_def)
  show "slots \<le> flow_limit \<Longrightarrow> slots' \<le> flow_limit" using res sl by simp
qed

definition budgets_ok :: "budgets \<Rightarrow> bool" where
  "budgets_ok b \<longleftrightarrow> dm_ok (bu_accounts b)
     \<and> (\<forall>u a. dm_get (bu_accounts b) u = Some a \<longrightarrow> dm_ok (bs_flows (acc_state a)))
     \<and> bu_slots b = account_slots (bu_accounts b)
     \<and> bu_slots b \<le> bu_flow_limit b
     \<and> dm_len (bu_accounts b) \<le> bu_account_limit b"

lemma budgets_new_ok [simp]: "budgets_ok (budgets_new p)"
  by (simp add: budgets_ok_def budgets_new_def account_slots_def dm_len_def)

lemma account_slots_insert_old:
  "dm_get m u = Some a \<Longrightarrow>
     account_slots (dm_insert u a' m) + dm_len (bs_flows (acc_state a)) = account_slots m + dm_len (bs_flows (acc_state a'))"
  using dm_sum_insert_old [of m u a "\<lambda>a. dm_len (bs_flows (acc_state a))" a'] by (simp add: account_slots_def)

lemma budgets_account_ok:
  assumes "budgets_ok b" "budgets_account b user now = (r, b')"
  shows "budgets_ok b'" "r = dm_get (bu_accounts b') user"
    "bu_policy b' = bu_policy b" "bu_flow_limit b' = bu_flow_limit b" "bu_account_limit b' = bu_account_limit b"
proof -
  show "budgets_ok b'"
    using assms dm.entries_insert_new [of "bu_accounts b" user]
    by (auto simp: budgets_account_def budgets_ok_def Let_def account_slots_def dm_sum_insert_new
        budget_state_new_def dm_len_def [of "[]"] split: option.splits if_splits)
qed (use assms in \<open>auto simp: budgets_account_def Let_def split: option.splits if_splits\<close>)

lemma budgets_event_ok: "budgets_ok b \<Longrightarrow> budgets_ok (snd (budgets_event b user out n flow now))"
proof -
  assume b: "budgets_ok b"
  obtain r b1 where acc: "budgets_account b user now = (r, b1)" by (cases "budgets_account b user now")
  note b1 = budgets_account_ok [OF b acc]
  show ?thesis
  proof (cases r)
    case None
    thus ?thesis using b1(1) acc by (simp add: budgets_event_def budgets_ok_def)
  next
    case (Some a)
    obtain ok slots s where ev: "event_state (bu_policy b1) (bu_flow_limit b1) out n flow now (bu_slots b1) (acc_state a)
      = (ok, slots, s)" by (metis prod_cases3)
    have get: "dm_get (bu_accounts b1) user = Some a" using b1(2) Some by simp
    have ok: "dm_ok (bs_flows (acc_state a))" using b1(1) get by (simp add: budgets_ok_def)
    have le: "dm_len (bs_flows (acc_state a)) \<le> bu_slots b1"
      using dm_sum_member_le [OF get, of "\<lambda>a. dm_len (bs_flows (acc_state a))"] b1(1)
      by (simp add: budgets_ok_def account_slots_def)
    note e = event_state_slots [OF ok le ev]
    let ?a = "\<lparr>acc_state = s, acc_last_used = max (acc_last_used a) now\<rparr>"
    have "slots = account_slots (dm_insert user ?a (bu_accounts b1))"
      using account_slots_insert_old [OF get, of ?a] e(1) b1(1) le by (simp add: slots_kept_def budgets_ok_def)
    moreover have "dm_len (dm_insert user ?a (bu_accounts b1)) = dm_len (bu_accounts b1)"
      using b1(1) get by (simp add: budgets_ok_def dm.entries_insert_old)
    ultimately show ?thesis using b1(1) e acc Some ev
      by (simp add: budgets_event_def budgets_ok_def slots_kept_def Let_def)
  qed
qed

lemma get_map_entries: "dm_get (map (\<lambda>(u, a). (u, f a)) m) u = map_option f (dm_get m u)"
  by (induction m) (auto simp: dm_get_def)

lemma budgets_maintain_ok:
  assumes "budgets_ok b"
  shows "budgets_ok (budgets_maintain b now in_use)"
proof -
  let ?m = "bu_accounts b" and ?k = "account_kept now in_use"
  let ?kept = "dm_retain ?k ?m"
  let ?trim = "map (\<lambda>(u, a). (u, account_trim now a)) ?kept"
  have split: "account_slots ?kept + account_slots (dm_retain (\<lambda>u a. \<not> ?k u a) ?m) = account_slots ?m"
    unfolding account_slots_def by (rule dm_sum_retain_split)
  have "account_slots (map (\<lambda>(u, a). (u, account_trim now a)) m) \<le> account_slots m" for m
  proof (induction m)
    case (Cons x m)
    have "dm_len (dm_retain q fl) \<le> dm_len fl" for q and fl :: "(budget_flow, nat) dmap"
      by (rule dm_len_retain_le)
    thus ?case using Cons by (cases x) (auto simp: account_slots_def dm_sum_def account_trim_def intro: add_mono)
  qed simp
  hence le: "account_slots ?trim \<le> account_slots ?kept" .
  have ok: "dm_ok ?m" using assms by (simp add: budgets_ok_def)
  have "dm_ok ?trim" using dm_ok_retain [OF ok, of ?k] by (simp add: dm_ok_def comp_def split_beta)
  moreover have "dm_len ?trim \<le> dm_len ?m" using dm_len_retain_le [of ?k ?m] by (simp add: dm_len_def)
  moreover have "dm_get ?trim u = Some a \<Longrightarrow> dm_ok (bs_flows (acc_state a))" for u a
    using assms ok by (auto simp: get_map_entries account_trim_def budgets_ok_def split: option.splits if_splits)
  moreover have "bu_slots b - account_slots (dm_retain (\<lambda>u a. \<not> ?k u a) ?m) - (account_slots ?kept - account_slots ?trim)
    = account_slots ?trim"
    using assms split le by (simp add: budgets_ok_def)
  ultimately show ?thesis using assms le split
    by (auto simp: budgets_maintain_def budgets_ok_def Let_def)
qed

datatype budget_op = BEvent string bool nat "budget_flow option" nat | BMaintain nat "string \<Rightarrow> bool"

fun budget_step :: "budgets \<Rightarrow> budget_op \<Rightarrow> budgets" where
  "budget_step b (BEvent user out n flow now) = snd (budgets_event b user out n flow now)"
| "budget_step b (BMaintain now in_use) = budgets_maintain b now in_use"

definition budget_run :: "budgets \<Rightarrow> budget_op list \<Rightarrow> budgets" where
  "budget_run b ops = foldl budget_step b ops"

lemma budget_step_limits [simp]:
  "bu_policy (budget_step b op) = bu_policy b"
  "bu_flow_limit (budget_step b op) = bu_flow_limit b"
  "bu_account_limit (budget_step b op) = bu_account_limit b"
  by (cases op; auto simp: budgets_event_def budgets_account_def budgets_maintain_def Let_def
      split: option.splits prod.splits)+

lemma budget_run_ok: "budgets_ok b \<Longrightarrow> budgets_ok (budget_run b ops)"
proof (induction ops arbitrary: b)
  case (Cons op ops)
  have "budgets_ok (budget_step b op)"
    using Cons.prems by (cases op) (simp_all add: budgets_event_ok budgets_maintain_ok)
  thus ?case using Cons.IH by (simp add: budget_run_def)
qed (simp add: budget_run_def)

lemma budget_run_limits [simp]:
  "bu_policy (budget_run b ops) = bu_policy b"
  "bu_flow_limit (budget_run b ops) = bu_flow_limit b"
  "bu_account_limit (budget_run b ops) = bu_account_limit b"
  by (induction ops arbitrary: b) (simp_all add: budget_run_def)

text \<open>
  After any sequence of events and maintenance runs there are at most as many
  accounts as the limit, and the shared slot counter is exactly the number of tracked
  flows, which stays within its limit.
\<close>

theorem budget_tables_bounded:
  "let b = budget_run (budgets_new p) ops in
     bu_slots b = dm_sum (\<lambda>a. dm_len (bs_flows (acc_state a))) (bu_accounts b)
     \<and> bu_slots b \<le> MAX_FLOWS_TOTAL \<and> dm_len (bu_accounts b) \<le> MAX_SESSIONS_TOTAL"
  using budget_run_ok [OF budgets_new_ok, of p ops]
  by (simp add: Let_def budgets_ok_def account_slots_def budgets_new_def)

section \<open>Enforcement\<close>

datatype meter = MPackets | MBytes

fun meter_count :: "meter \<Rightarrow> quad \<Rightarrow> nat" where
  "meter_count MPackets q = q0 q + q2 q"
| "meter_count MBytes q = q1 q + q3 q"

fun meter_amount :: "meter \<Rightarrow> nat \<Rightarrow> nat" where
  "meter_amount MPackets n = 1"
| "meter_amount MBytes n = n"

fun meter_limit :: "meter \<Rightarrow> budget_policy \<Rightarrow> nat" where
  "meter_limit MPackets p = bp_packets p"
| "meter_limit MBytes p = bp_bytes p"

lemma meter_zero [simp]: "meter_count k quad_zero = 0"
  by (cases k) (simp_all add: quad_zero_def)

lemma meter_mono: "lim < u64_max \<Longrightarrow> min lim (meter_count k q) \<le> meter_count k (quad_add out n q)"
  by (cases k) (auto simp: quad_add_def sat_add64_def min_def)

lemma meter_exact:
  assumes "\<not> event_exceeded p nf s" "bs_counts s = quad_add out n q" "0 < meter_limit k p" "meter_limit k p < u64_max"
  shows "meter_count k (bs_counts s) = meter_count k q + meter_amount k n \<and> meter_count k (bs_counts s) \<le> meter_limit k p"
  using assms by (cases k) (auto simp: event_exceeded_def quad_add_def sat_add64_def min_def split: if_splits)

text \<open>Time and counters of an account after an event, and when the event is accepted.\<close>

lemma event_state_counts:
  assumes "event_state p flow_limit out n flow now slots s = (res, slots', s')"
  shows "bs_second s' = max now (bs_second s)"
    and "bs_counts s' = quad_add out n (if bs_second s < now then quad_zero else bs_counts s)"
    and "res \<Longrightarrow> bp_enforce p \<Longrightarrow> \<exists>nf s1. \<not> event_exceeded p nf s1 \<and> bs_counts s1 = bs_counts s'"
proof -
  define now' where "now' = max now (bs_second s)"
  define s1 where "s1 = event_count out n (snd (event_expire now' flow (event_roll now' s)))"
  have roll: "bs_second (event_roll now' s) = now'"
    "bs_counts (event_roll now' s) = (if bs_second s < now then quad_zero else bs_counts s)"
    by (auto simp: event_roll_def Let_def now'_def)
  have s1: "bs_second s1 = now'" "bs_counts s1 = quad_add out n (if bs_second s < now then quad_zero else bs_counts s)"
    using roll by (auto simp: s1_def event_count_def event_expire_def Let_def split: option.splits)
  have out: "bs_second s' = bs_second s1 \<and> bs_counts s' = bs_counts s1"
    "res \<Longrightarrow> bp_enforce p \<Longrightarrow> \<exists>nf. \<not> event_exceeded p nf s1"
    using assms unfolding event_state_def Let_def now'_def [symmetric] split_beta s1_def [symmetric]
    by (auto split: option.splits if_splits)
  show "bs_second s' = max now (bs_second s)" using out s1 by (simp add: now'_def)
  show "bs_counts s' = quad_add out n (if bs_second s < now then quad_zero else bs_counts s)" using out s1 by simp
  show "res \<Longrightarrow> bp_enforce p \<Longrightarrow> \<exists>nf s1. \<not> event_exceeded p nf s1 \<and> bs_counts s1 = bs_counts s'" using out by metis
qed

type_synonym budget_event = "string \<times> bool \<times> nat \<times> budget_flow option \<times> nat"

text \<open>The second an event of an account is charged to: an older timestamp does not reopen a past one.\<close>

definition charged_second :: "budgets \<Rightarrow> string \<Rightarrow> nat \<Rightarrow> nat" where
  "charged_second b user now =
     (case dm_get (bu_accounts b) user of None \<Rightarrow> now | Some a \<Rightarrow> max now (bs_second (acc_state a)))"

fun budget_accepted :: "meter \<Rightarrow> string \<Rightarrow> nat \<Rightarrow> budgets \<Rightarrow> budget_event list \<Rightarrow> nat" where
  "budget_accepted k user sec b [] = 0"
| "budget_accepted k user sec b ((u, out, n, flow, now) # es) =
     (if fst (budgets_event b u out n flow now) \<and> u = user \<and> charged_second b user now = sec then meter_amount k n else 0)
     + budget_accepted k user sec (snd (budgets_event b u out n flow now)) es"

definition state_used :: "meter \<Rightarrow> budget_policy \<Rightarrow> nat \<Rightarrow> budget_state \<Rightarrow> nat" where
  "state_used k p sec s =
     (if bs_second s = sec then min (meter_limit k p) (meter_count k (bs_counts s))
      else if sec < bs_second s then meter_limit k p else 0)"

definition meter_used :: "meter \<Rightarrow> string \<Rightarrow> nat \<Rightarrow> budgets \<Rightarrow> nat" where
  "meter_used k user sec b =
     (case dm_get (bu_accounts b) user of None \<Rightarrow> 0 | Some a \<Rightarrow> state_used k (bu_policy b) sec (acc_state a))"

lemma event_state_charge:
  assumes ev: "event_state p flow_limit out n flow now slots s = (res, slots', s')"
    and lim: "bp_enforce p" "0 < meter_limit k p" "meter_limit k p < u64_max"
  shows "(if res \<and> max now (bs_second s) = sec then meter_amount k n else 0) + state_used k p sec s \<le> state_used k p sec s'"
proof -
  let ?q = "if bs_second s < now then quad_zero else bs_counts s"
  note e = event_state_counts [OF ev]
  have grow: "min (meter_limit k p) (meter_count k ?q) \<le> meter_count k (bs_counts s')"
    unfolding e(2) using lim(3) by (rule meter_mono)
  show ?thesis
  proof (cases "max now (bs_second s) = sec")
    case False
    thus ?thesis using e(1) by (auto simp: state_used_def)
  next
    case True
    have old: "state_used k p sec s = min (meter_limit k p) (meter_count k ?q)" using True by (auto simp: state_used_def)
    have new: "state_used k p sec s' = min (meter_limit k p) (meter_count k (bs_counts s'))" using True e(1) by (simp add: state_used_def)
    show ?thesis
    proof (cases res)
      case res: True
      obtain nf s1 where s1: "\<not> event_exceeded p nf s1" "bs_counts s1 = bs_counts s'" using e(3) res lim(1) by blast
      have "meter_count k (bs_counts s') = meter_count k ?q + meter_amount k n \<and> meter_count k (bs_counts s') \<le> meter_limit k p"
        using meter_exact [OF s1(1), of out n ?q k] s1(2) e(2) lim by simp
      thus ?thesis using True res by (simp add: old new)
    next
      case False
      thus ?thesis using grow by (simp add: old new)
    qed
  qed
qed

lemma budgets_event_policy: "bu_policy (snd (budgets_event b u out n flow now)) = bu_policy b"
  using budget_step_limits(1) [of b "BEvent u out n flow now"] by simp

lemma budgets_event_charge:
  assumes lim: "bp_enforce (bu_policy b)" "0 < meter_limit k (bu_policy b)" "meter_limit k (bu_policy b) < u64_max"
  shows "(if fst (budgets_event b u out n flow now) \<and> u = user \<and> charged_second b user now = sec then meter_amount k n else 0)
    + meter_used k user sec b \<le> meter_used k user sec (snd (budgets_event b u out n flow now))"
proof -
  obtain r b1 where acc: "budgets_account b u now = (r, b1)" by (cases "budgets_account b u now")
  have pol: "bu_policy b1 = bu_policy b" using acc by (auto simp: budgets_account_def Let_def split: option.splits if_splits)
  show ?thesis
  proof (cases r)
    case None
    hence "b1 = b" using acc by (auto simp: budgets_account_def Let_def split: option.splits if_splits)
    thus ?thesis using None acc lim by (simp add: budgets_event_def meter_used_def split: option.split)
  next
    case (Some a)
    obtain ok slots s where ev: "event_state (bu_policy b) (bu_flow_limit b1) out n flow now (bu_slots b1) (acc_state a)
      = (ok, slots, s)" by (metis prod_cases3)
    have step: "budgets_event b u out n flow now =
      (ok, b1\<lparr>bu_slots := slots, bu_accounts := dm_insert u \<lparr>acc_state = s, acc_last_used = max (acc_last_used a) now\<rparr> (bu_accounts b1)\<rparr>)"
      using acc Some ev pol by (simp add: budgets_event_def Let_def)
    have others: "v \<noteq> u \<Longrightarrow> dm_get (bu_accounts b1) v = dm_get (bu_accounts b) v" for v
      using acc by (auto simp: budgets_account_def Let_def split: option.splits if_splits)
    have entry: "dm_get (bu_accounts b) u = Some a \<or>
      dm_get (bu_accounts b) u = None \<and> bs_second (acc_state a) = now \<and> bs_counts (acc_state a) = quad_zero"
      using acc Some by (auto simp: budgets_account_def budget_state_new_def Let_def split: option.splits if_splits)
    note ch = event_state_charge [OF ev lim, of sec]
    show ?thesis
    proof (cases "u = user")
      case False
      thus ?thesis using others [of user] pol by (simp add: step meter_used_def split: option.split)
    next
      case True
      have sec: "max now (bs_second (acc_state a)) = charged_second b user now"
        using entry True by (auto simp: charged_second_def)
      have old: "meter_used k user sec b \<le> state_used k (bu_policy b) sec (acc_state a)"
        using entry True by (auto simp: meter_used_def)
      have new: "meter_used k user sec (snd (budgets_event b u out n flow now)) = state_used k (bu_policy b) sec s"
        unfolding step meter_used_def using True pol by simp
      have "fst (budgets_event b u out n flow now) = ok" by (simp add: step)
      thus ?thesis using ch old sec True unfolding new by simp
    qed
  qed
qed

lemma budget_accepted_le:
  assumes "bp_enforce (bu_policy b)" "0 < meter_limit k (bu_policy b)" "meter_limit k (bu_policy b) < u64_max"
  shows "budget_accepted k user sec b es + meter_used k user sec b \<le> meter_limit k (bu_policy b)"
  using assms
proof (induction es arbitrary: b)
  case Nil
  thus ?case by (simp add: meter_used_def state_used_def split: option.split)
next
  case (Cons e es)
  obtain u out n flow now where e: "e = (u, out, n, flow, now)" by (metis prod_cases5)
  let ?b = "snd (budgets_event b u out n flow now)"
  have "budget_accepted k user sec ?b es + meter_used k user sec ?b \<le> meter_limit k (bu_policy b)"
    using Cons.IH [of ?b] Cons.prems by (simp add: budgets_event_policy)
  thus ?case using budgets_event_charge [OF Cons.prems, of u out n flow now user sec]
    unfolding e budget_accepted.simps by linarith
qed

text \<open>
  C30. With an enforced packet or byte budget below the 64-bit range, the traffic
  accepted for an account within one second of its clock never exceeds the limit,
  whatever sequence of events, flows and directions leads to it.
\<close>

theorem enforced_budget_per_second:
  assumes "bp_enforce p" and "0 < meter_limit k p" and "meter_limit k p < u64_max"
  shows "budget_accepted k user sec (budget_run (budgets_new p) ops) es \<le> meter_limit k p"
  using budget_accepted_le [of "budget_run (budgets_new p) ops" k user sec es] assms
  by (simp add: budgets_new_def)

lemma event_state_observe: "\<not> bp_enforce p \<Longrightarrow> fst (event_state p flow_limit out n flow now slots s)"
  unfolding event_state_def Let_def split_beta by (simp split: option.split)

text \<open>
  In observe mode the budget never refuses a packet of a live session, whatever the
  limits and counters are.
\<close>

theorem observe_never_drops:
  assumes "\<not> bp_enforce (bu_policy b)"
  shows "fst (budgets_event b user out n flow now)"
proof -
  obtain r b1 where acc: "budgets_account b user now = (r, b1)" by (cases "budgets_account b user now")
  hence pol: "bu_policy b1 = bu_policy b" by (auto simp: budgets_account_def Let_def split: option.splits if_splits)
  show ?thesis using acc pol assms by (cases r) (simp_all add: budgets_event_def Let_def split_beta event_state_observe)
qed

section \<open>Witnesses\<close>

definition sample_budget :: budget_policy where
  "sample_budget = \<lparr>bp_enforce = True, bp_packets = 2, bp_bytes = 3000, bp_new_flows = 0\<rparr>"

theorem enforced_budget_per_second_witness:
  "budget_accepted MPackets ''u1'' 7 (budget_run (budgets_new sample_budget) [])
     [(''u1'', False, 100, None, 7), (''u1'', False, 100, None, 7), (''u1'', False, 100, None, 7)] \<le> 2"
  using enforced_budget_per_second [of sample_budget MPackets "''u1''" 7 "[]"
      "[(''u1'', False, 100, None, 7), (''u1'', False, 100, None, 7), (''u1'', False, 100, None, 7)]"]
  by (simp add: sample_budget_def u64_max_def)

theorem observe_never_drops_witness:
  "fst (budgets_event (budgets_new \<lparr>bp_enforce = False, bp_packets = 0, bp_bytes = 0, bp_new_flows = 0\<rparr>)
     ''u1'' False 100 None 7)"
  by (rule observe_never_drops) (simp add: budgets_new_def)

end
