(* ===== verification/Tuning.thy ===== *)
theory Tuning
  imports Rust_Str
begin

text \<open>
  Configuration of the datapaths (\<^verbatim>\<open>src/src/datapath_v2.rs\<close>): which one runs, and the sizes of
  the second one, read from environment variables and clamped.  The environment is the
  argument \<open>env\<close>, the number of physical processors the argument \<open>cpus\<close>.
\<close>

section \<open>Definitions\<close>

type_synonym environment = "string \<Rightarrow> string option"

definition DEFAULT_POOL_SLOTS :: nat where "DEFAULT_POOL_SLOTS = 8192"
definition MIN_POOL_SLOTS :: nat where "MIN_POOL_SLOTS = 512"
definition MAX_POOL_SLOTS :: nat where "MAX_POOL_SLOTS = 262144"
definition DEFAULT_SHARD_QUEUE_CAP :: nat where "DEFAULT_SHARD_QUEUE_CAP = 4096"
definition MIN_SHARD_QUEUE_CAP :: nat where "MIN_SHARD_QUEUE_CAP = 256"
definition MAX_SHARD_QUEUE_CAP :: nat where "MAX_SHARD_QUEUE_CAP = 262144"
definition DEFAULT_TX_QUEUE_CAP :: nat where "DEFAULT_TX_QUEUE_CAP = 8192"
definition MIN_TX_QUEUE_CAP :: nat where "MIN_TX_QUEUE_CAP = 256"
definition MAX_TX_QUEUE_CAP :: nat where "MAX_TX_QUEUE_CAP = 262144"
definition DEFAULT_SOCKET_RCVBUF_BYTES :: nat where "DEFAULT_SOCKET_RCVBUF_BYTES = 4 * 1024 * 1024"
definition DEFAULT_SOCKET_SNDBUF_BYTES :: nat where "DEFAULT_SOCKET_SNDBUF_BYTES = 4 * 1024 * 1024"
definition DEFAULT_FLOW_SOCKET_RCVBUF_BYTES :: nat where "DEFAULT_FLOW_SOCKET_RCVBUF_BYTES = 2 * 1024 * 1024"
definition DEFAULT_FLOW_SOCKET_SNDBUF_BYTES :: nat where "DEFAULT_FLOW_SOCKET_SNDBUF_BYTES = 2 * 1024 * 1024"

record v2_tuning =
  shard_count :: nat
  pool_slots :: nat
  shard_queue_cap :: nat
  tx_queue_cap :: nat
  socket_rcvbuf_bytes :: nat
  socket_sndbuf_bytes :: nat
  flow_rcvbuf_bytes :: nat
  flow_sndbuf_bytes :: nat

datatype relay_datapath = V1 | V2

definition parse_relay_datapath :: "string option \<Rightarrow> relay_datapath" where
  "parse_relay_datapath raw =
     (case map_option (\<lambda>s. to_ascii_lowercase (trim s)) raw of
        Some v \<Rightarrow> if v = ''v1'' \<or> v = ''tokio'' then V1 else V2
      | None \<Rightarrow> V2)"

definition get_relay_datapath :: "environment \<Rightarrow> relay_datapath" where
  "get_relay_datapath env = parse_relay_datapath (env ''RELAY_DATAPATH'')"

definition parse_usize_env :: "environment \<Rightarrow> string \<Rightarrow> nat option" where
  "parse_usize_env env name = Option.bind (map_option trim (env name)) (parse_uint u64_max)"

definition clamp_usize :: "nat \<Rightarrow> nat \<Rightarrow> nat \<Rightarrow> nat" where
  "clamp_usize value lo hi = min (max value lo) hi"

definition env_or :: "environment \<Rightarrow> string \<Rightarrow> nat \<Rightarrow> nat" where
  "env_or env name dflt = (case parse_usize_env env name of None \<Rightarrow> dflt | Some n \<Rightarrow> n)"

definition get_shard_count :: "nat \<Rightarrow> environment \<Rightarrow> nat" where
  "get_shard_count cpus env = clamp_usize (env_or env ''RELAY_SHARDS'' (max cpus 1)) 1 256"

definition get_pool_slots :: "environment \<Rightarrow> nat" where
  "get_pool_slots env = clamp_usize (env_or env ''RELAY_V2_POOL_SLOTS'' DEFAULT_POOL_SLOTS) MIN_POOL_SLOTS MAX_POOL_SLOTS"

definition get_shard_queue_cap :: "environment \<Rightarrow> nat" where
  "get_shard_queue_cap env =
     clamp_usize (env_or env ''RELAY_V2_SHARD_QUEUE'' DEFAULT_SHARD_QUEUE_CAP) MIN_SHARD_QUEUE_CAP MAX_SHARD_QUEUE_CAP"

definition get_tx_queue_cap :: "environment \<Rightarrow> nat" where
  "get_tx_queue_cap env = clamp_usize (env_or env ''RELAY_V2_TX_QUEUE'' DEFAULT_TX_QUEUE_CAP) MIN_TX_QUEUE_CAP MAX_TX_QUEUE_CAP"

definition get_socket_rcvbuf_bytes :: "environment \<Rightarrow> nat" where
  "get_socket_rcvbuf_bytes env =
     clamp_usize (env_or env ''RELAY_SOCKET_RCVBUF_BYTES'' DEFAULT_SOCKET_RCVBUF_BYTES) (256 * 1024) (64 * 1024 * 1024)"

definition get_socket_sndbuf_bytes :: "environment \<Rightarrow> nat" where
  "get_socket_sndbuf_bytes env =
     clamp_usize (env_or env ''RELAY_SOCKET_SNDBUF_BYTES'' DEFAULT_SOCKET_SNDBUF_BYTES) (256 * 1024) (64 * 1024 * 1024)"

definition get_flow_socket_rcvbuf_bytes :: "environment \<Rightarrow> nat" where
  "get_flow_socket_rcvbuf_bytes env =
     clamp_usize (env_or env ''RELAY_FLOW_RCVBUF_BYTES'' DEFAULT_FLOW_SOCKET_RCVBUF_BYTES) (256 * 1024) (64 * 1024 * 1024)"

definition get_flow_socket_sndbuf_bytes :: "environment \<Rightarrow> nat" where
  "get_flow_socket_sndbuf_bytes env =
     clamp_usize (env_or env ''RELAY_FLOW_SNDBUF_BYTES'' DEFAULT_FLOW_SOCKET_SNDBUF_BYTES) (256 * 1024) (64 * 1024 * 1024)"

definition relay_v2_tuning :: "nat \<Rightarrow> environment \<Rightarrow> v2_tuning" where
  "relay_v2_tuning cpus env =
     \<lparr>shard_count = get_shard_count cpus env, pool_slots = get_pool_slots env,
      shard_queue_cap = get_shard_queue_cap env, tx_queue_cap = get_tx_queue_cap env,
      socket_rcvbuf_bytes = get_socket_rcvbuf_bytes env, socket_sndbuf_bytes = get_socket_sndbuf_bytes env,
      flow_rcvbuf_bytes = get_flow_socket_rcvbuf_bytes env, flow_sndbuf_bytes = get_flow_socket_sndbuf_bytes env\<rparr>"

section \<open>Bounds\<close>

lemma clamp_usize_bounds: "lo \<le> hi \<Longrightarrow> lo \<le> clamp_usize v lo hi \<and> clamp_usize v lo hi \<le> hi"
  by (simp add: clamp_usize_def)

text \<open>Whatever the environment says, there is a shard, and every size is within its range.\<close>

lemma tuning_bounds:
  "1 \<le> shard_count (relay_v2_tuning cpus env)" "shard_count (relay_v2_tuning cpus env) \<le> 256"
  "512 \<le> pool_slots (relay_v2_tuning cpus env)" "pool_slots (relay_v2_tuning cpus env) \<le> 262144"
  "256 \<le> shard_queue_cap (relay_v2_tuning cpus env)" "shard_queue_cap (relay_v2_tuning cpus env) \<le> 262144"
  "256 \<le> tx_queue_cap (relay_v2_tuning cpus env)" "tx_queue_cap (relay_v2_tuning cpus env) \<le> 262144"
  by (simp_all add: relay_v2_tuning_def get_shard_count_def get_pool_slots_def get_shard_queue_cap_def get_tx_queue_cap_def
      clamp_usize_bounds MIN_POOL_SLOTS_def MAX_POOL_SLOTS_def MIN_SHARD_QUEUE_CAP_def MAX_SHARD_QUEUE_CAP_def
      MIN_TX_QUEUE_CAP_def MAX_TX_QUEUE_CAP_def)

end
