(* ===== verification/Stats_Report.thy ===== *)
theory Stats_Report
  imports Float64 Json_Text Dest_Policy Account_Budget Tuning "HOL-Library.Multiset"
begin

text \<open>
  What the statistics server reports (\<^verbatim>\<open>src/src/main.rs\<close>, \<^verbatim>\<open>src/src/dest_policy.rs\<close>,
  \<^verbatim>\<open>src/src/account_budget.rs\<close>): the running configuration, the counters with a sampled
  rate, the connections, the account budgets and the destination policy.  A report is a
  JSON value; \<^verbatim>\<open>serde_json\<close> turns it into text.  Only the connections are written as
  text by hand.
\<close>

section \<open>Definitions\<close>

subsection \<open>Configuration\<close>

definition RELAY_VERSION :: string where
  "RELAY_VERSION = ''1.5.0''"

definition DEFAULT_PORT :: nat where
  "DEFAULT_PORT = 51821"

definition DEFAULT_STATS_PORT :: nat where
  "DEFAULT_STATS_PORT = 51822"

definition DEFAULT_HEALTH_PORT :: nat where
  "DEFAULT_HEALTH_PORT = 8081"

definition u16_max :: nat where
  "u16_max = 2 ^ 16 - 1"

definition get_listen_port :: "environment \<Rightarrow> nat" where
  "get_listen_port env = (case Option.bind (env ''RELAY_PORT'') (parse_uint u16_max) of None \<Rightarrow> DEFAULT_PORT | Some p \<Rightarrow> p)"

definition get_stats_port :: "environment \<Rightarrow> nat" where
  "get_stats_port env =
     (case Option.bind (env ''RELAY_STATS_PORT'') (parse_uint u16_max) of None \<Rightarrow> DEFAULT_STATS_PORT | Some p \<Rightarrow> p)"

definition get_stats_token :: "environment \<Rightarrow> string option" where
  "get_stats_token env =
     Option.bind (env ''RELAY_STATS_TOKEN'') (\<lambda>token. if trim token = [] then None else Some token)"

definition get_health_port :: "environment \<Rightarrow> nat" where
  "get_health_port env =
     (case Option.bind (map_option trim (env ''RELAY_HEALTH_PORT'')) (parse_uint u16_max) of
        None \<Rightarrow> DEFAULT_HEALTH_PORT | Some p \<Rightarrow> p)"

record socket_buffer_sizes =
  requested_rcvbuf_bytes :: nat
  requested_sndbuf_bytes :: nat
  effective_rcvbuf_bytes :: nat
  effective_sndbuf_bytes :: nat

record relay_v2_runtime_config =
  rv_shard_count :: nat
  rv_pool_slots :: nat
  rv_shard_queue_cap :: nat
  rv_tx_queue_cap :: nat
  main_socket_rcvbuf_requested :: nat
  main_socket_sndbuf_requested :: nat
  main_socket_rcvbuf_effective :: nat
  main_socket_sndbuf_effective :: nat
  flow_socket_rcvbuf_requested :: nat
  flow_socket_sndbuf_requested :: nat

record relay_runtime_config =
  rc_version :: string
  rc_datapath :: string
  rc_listen_port :: nat
  rc_stats_port :: nat
  rc_auth_mode :: string
  rc_server_id :: "string option"
  rc_tcp_enabled :: bool
  rc_tun_udp_enabled :: bool
  rc_flow_channel_capacity :: nat
  rc_v2 :: relay_v2_runtime_config

definition build_runtime_config ::
  "relay_datapath \<Rightarrow> nat \<Rightarrow> nat \<Rightarrow> relay_auth_config \<Rightarrow> bool \<Rightarrow> bool \<Rightarrow> socket_buffer_sizes \<Rightarrow> nat \<Rightarrow> v2_tuning
    \<Rightarrow> relay_runtime_config" where
  "build_runtime_config datapath listen_port stats_port auth_config tcp_enabled tun_udp_enabled buffers
     flow_channel_capacity tuning =
     \<lparr>rc_version = RELAY_VERSION, rc_datapath = (case datapath of V1 \<Rightarrow> ''v1'' | V2 \<Rightarrow> ''v2''),
      rc_listen_port = listen_port, rc_stats_port = stats_port, rc_auth_mode = auth_mode_as_str (ac_mode auth_config),
      rc_server_id = ac_server_id auth_config, rc_tcp_enabled = tcp_enabled, rc_tun_udp_enabled = tun_udp_enabled,
      rc_flow_channel_capacity = flow_channel_capacity,
      rc_v2 = \<lparr>rv_shard_count = shard_count tuning, rv_pool_slots = pool_slots tuning,
        rv_shard_queue_cap = shard_queue_cap tuning, rv_tx_queue_cap = tx_queue_cap tuning,
        main_socket_rcvbuf_requested = requested_rcvbuf_bytes buffers,
        main_socket_sndbuf_requested = requested_sndbuf_bytes buffers,
        main_socket_rcvbuf_effective = effective_rcvbuf_bytes buffers,
        main_socket_sndbuf_effective = effective_sndbuf_bytes buffers,
        flow_socket_rcvbuf_requested = flow_rcvbuf_bytes tuning, flow_socket_sndbuf_requested = flow_sndbuf_bytes tuning\<rparr>\<rparr>"

definition v2_runtime_config_json :: "relay_v2_runtime_config \<Rightarrow> json" where
  "v2_runtime_config_json c = JObj
     [(''shard_count'', JNum (rv_shard_count c)), (''pool_slots'', JNum (rv_pool_slots c)),
      (''shard_queue_cap'', JNum (rv_shard_queue_cap c)), (''tx_queue_cap'', JNum (rv_tx_queue_cap c)),
      (''main_socket_rcvbuf_requested'', JNum (main_socket_rcvbuf_requested c)),
      (''main_socket_sndbuf_requested'', JNum (main_socket_sndbuf_requested c)),
      (''main_socket_rcvbuf_effective'', JNum (main_socket_rcvbuf_effective c)),
      (''main_socket_sndbuf_effective'', JNum (main_socket_sndbuf_effective c)),
      (''flow_socket_rcvbuf_requested'', JNum (flow_socket_rcvbuf_requested c)),
      (''flow_socket_sndbuf_requested'', JNum (flow_socket_sndbuf_requested c))]"

definition runtime_config_json :: "relay_runtime_config \<Rightarrow> json" where
  "runtime_config_json c = JObj
     [(''version'', JStr (rc_version c)), (''datapath'', JStr (rc_datapath c)), (''listen_port'', JNum (rc_listen_port c)),
      (''stats_port'', JNum (rc_stats_port c)), (''auth_mode'', JStr (rc_auth_mode c)),
      (''server_id'', jopt_str (rc_server_id c)), (''tcp_enabled'', JBool (rc_tcp_enabled c)),
      (''tun_udp_enabled'', JBool (rc_tun_udp_enabled c)), (''flow_channel_capacity'', JNum (rc_flow_channel_capacity c)),
      (''v2'', v2_runtime_config_json (rc_v2 c))]"

subsection \<open>Counters and rates\<close>

definition junat :: "'a :: len word \<Rightarrow> json" where
  "junat w = JNum (unat w)"

definition drops_to_json :: "drop_reason_counters \<Rightarrow> json" where
  "drops_to_json c = JObj
     [(''auth'', junat (dr_auth c)), (''rate_limit'', junat (dr_rate_limit c)), (''capacity'', junat (dr_capacity c)),
      (''too_small'', junat (dr_too_small c)), (''parse'', junat (dr_parse c)), (''fragment'', junat (dr_fragment c)),
      (''forbidden_dst'', junat (dr_forbidden_dst c)), (''tcp_disabled'', junat (dr_tcp_disabled c)),
      (''pool'', junat (dr_pool c)), (''stale_queue'', junat (dr_stale_queue c)), (''shard_queue'', junat (dr_shard_queue c)),
      (''tx_queue'', junat (dr_tx_queue c)), (''tun_queue'', junat (dr_tun_queue c)), (''flow_queue'', junat (dr_flow_queue c)),
      (''flow_create'', junat (dr_flow_create c)), (''flow_send'', junat (dr_flow_send c)),
      (''socket_send'', junat (dr_socket_send c))]"

definition STATS_RATE_SAMPLE_MIN_MS :: nat where
  "STATS_RATE_SAMPLE_MIN_MS = 1000"

record stats_rate_window =
  last_sample_at :: "instant option"
  last_bytes_in :: u64
  last_bytes_out :: u64
  inbound_bps :: nat
  outbound_bps :: nat

definition stats_rate_window_new :: stats_rate_window where
  "stats_rate_window_new =
     \<lparr>last_sample_at = None, last_bytes_in = 0, last_bytes_out = 0, inbound_bps = 0, outbound_bps = 0\<rparr>"

definition sample_stats_rates ::
  "stats_rate_window \<Rightarrow> u64 \<Rightarrow> u64 \<Rightarrow> instant \<Rightarrow> (nat \<times> nat) \<times> stats_rate_window" where
  "sample_stats_rates window b_in b_out now =
     (let window =
        (case last_sample_at window of
           None \<Rightarrow> window\<lparr>last_sample_at := Some now, last_bytes_in := b_in, last_bytes_out := b_out\<rparr>
         | Some sampled \<Rightarrow>
             let elapsed = saturating_duration_since now sampled in
             if elapsed \<ge> duration_millis STATS_RATE_SAMPLE_MIN_MS \<and> as_secs_f64 elapsed > 0 then
               let delta_in = unat b_in - unat (last_bytes_in window);
                   delta_out = unat b_out - unat (last_bytes_out window)
               in window\<lparr>inbound_bps := rate_f64 delta_in elapsed, outbound_bps := rate_f64 delta_out elapsed,
                         last_sample_at := Some now, last_bytes_in := b_in, last_bytes_out := b_out\<rparr>
             else window)
      in ((inbound_bps window, outbound_bps window), window))"

text \<open>Sums of 64-bit counters wrap.\<close>

definition stats_json :: "stats \<Rightarrow> relay_runtime_config \<Rightarrow> nat \<times> nat \<Rightarrow> nat \<Rightarrow> nat \<Rightarrow> json" where
  "stats_json s config rates elapsed_secs now_unix =
     (let dropped_pps = (if elapsed_secs > 0 then unat (dropped_in s + dropped_out s) div elapsed_secs else 0)
      in JObj
        [(''version'', JStr RELAY_VERSION), (''timestamp'', JNum now_unix), (''active_users'', junat (active_sessions s)),
         (''active_sessions'', junat (active_sessions s)), (''throttled_users'', junat (throttled_users s)),
         (''inbound_bps'', JNum (fst rates)), (''outbound_bps'', JNum (snd rates)), (''dropped_in'', junat (dropped_in s)),
         (''dropped_out'', junat (dropped_out s)), (''dropped_pps'', JNum dropped_pps),
         (''pool_exhausted'', junat (pool_exhausted s)), (''tcp_forwarded'', junat (tcp_forwarded s)),
         (''tun_udp_forwarded'', junat (tun_udp_forwarded s)), (''drops'', drops_to_json (drop_reasons s)),
         (''config'', runtime_config_json config)])"

definition config_json :: "relay_runtime_config \<Rightarrow> nat \<Rightarrow> json" where
  "config_json config now_unix = JObj [(''timestamp'', JNum now_unix), (''config'', runtime_config_json config)]"

subsection \<open>Connections\<close>

record connection_snapshot =
  cs_user_id :: string
  cs_session_id :: string
  cs_auth_state :: string
  cs_connected_at :: nat
  cs_last_activity_at :: nat
  cs_bytes_in :: u64
  cs_bytes_out :: u64
  cs_client_endpoint :: string
  cs_packets_in :: u64
  cs_packets_out :: u64
  cs_rtt_us :: u64

record session_snapshot_meta =
  sm_user_id :: string
  sm_auth_state :: string
  sm_client_endpoint :: string
  sm_connected_at :: nat
  sm_last_activity_at :: nat

definition snapshot_meta :: "session_entry \<Rightarrow> session_snapshot_meta" where
  "snapshot_meta entry =
     \<lparr>sm_user_id = user_id entry, sm_auth_state = session_auth_state_as_str (auth_state entry),
      sm_client_endpoint = sock_to_string (client_addr entry), sm_connected_at = created_at_unix entry,
      sm_last_activity_at = last_activity_unix entry\<rparr>"

text \<open>A session with traffic counters, and one without.\<close>

definition traffic_row :: "session_id \<Rightarrow> session_snapshot_meta \<Rightarrow> session_traffic \<Rightarrow> connection_snapshot" where
  "traffic_row sid session traffic =
     \<lparr>cs_user_id = sm_user_id session, cs_session_id = hex16 sid, cs_auth_state = sm_auth_state session,
      cs_connected_at = max (st_connected_at_unix traffic) (sm_connected_at session),
      cs_last_activity_at = st_last_activity_unix traffic, cs_bytes_in = st_bytes_in traffic,
      cs_bytes_out = st_bytes_out traffic, cs_client_endpoint = sm_client_endpoint session,
      cs_packets_in = st_packets_in traffic, cs_packets_out = st_packets_out traffic, cs_rtt_us = st_last_rtt_us traffic\<rparr>"

definition idle_row :: "session_id \<Rightarrow> session_snapshot_meta \<Rightarrow> connection_snapshot" where
  "idle_row sid entry =
     \<lparr>cs_user_id = sm_user_id entry, cs_session_id = hex16 sid, cs_auth_state = sm_auth_state entry,
      cs_connected_at = sm_connected_at entry, cs_last_activity_at = sm_last_activity_at entry, cs_bytes_in = 0,
      cs_bytes_out = 0, cs_client_endpoint = sm_client_endpoint entry, cs_packets_in = 0, cs_packets_out = 0, cs_rtt_us = 0\<rparr>"

definition connection_rows :: "sessions \<Rightarrow> traffic \<Rightarrow> connection_snapshot list" where
  "connection_rows sessions session_traffic =
     (let session_meta = map (\<lambda>(sid, entry). (sid, snapshot_meta entry)) sessions;
          with_traffic = filter (\<lambda>(sid, traffic). dm_contains session_meta sid) session_traffic;
          seen_sessions = map fst with_traffic;
          snapshots =
            map (\<lambda>(sid, traffic). traffic_row sid (the (dm_get session_meta sid)) traffic) with_traffic @
            map (\<lambda>(sid, entry). idle_row sid entry) (filter (\<lambda>(sid, entry). sid \<notin> set seen_sessions) session_meta)
      in sort_key (\<lambda>c. - int (cs_last_activity_at c)) snapshots)"

definition connection_text :: "connection_snapshot \<Rightarrow> string" where
  "connection_text conn =
     ''{\"user_id\":\"'' @ escape_json (cs_user_id conn) @ ''\",\"session_id\":\"'' @ escape_json (cs_session_id conn) @
     ''\",\"auth_state\":\"'' @ escape_json (cs_auth_state conn) @ ''\",\"connected_at\":'' @ dec_str (cs_connected_at conn) @
     '',\"last_activity_at\":'' @ dec_str (cs_last_activity_at conn) @ '',\"bytes_in\":'' @ dec_str (unat (cs_bytes_in conn)) @
     '',\"bytes_out\":'' @ dec_str (unat (cs_bytes_out conn)) @ '',\"client_endpoint\":\"'' @
     escape_json (cs_client_endpoint conn) @ ''\",\"packets_in\":'' @ dec_str (unat (cs_packets_in conn)) @
     '',\"packets_out\":'' @ dec_str (unat (cs_packets_out conn)) @ '',\"rtt_us\":'' @ dec_str (unat (cs_rtt_us conn)) @ ''}''"

definition render_connections_payload :: "sessions \<Rightarrow> traffic \<Rightarrow> nat \<Rightarrow> string" where
  "render_connections_payload sessions session_traffic now_unix =
     ''{\"timestamp\":'' @ dec_str now_unix @ '',\"connections\":['' @
     join_comma (map connection_text (connection_rows sessions session_traffic)) @ '']}''"

definition empty_connections_payload :: "nat \<Rightarrow> string" where
  "empty_connections_payload now_unix = ''{\"timestamp\":'' @ dec_str now_unix @ '',\"connections\":[]}''"

subsection \<open>Account budgets\<close>

definition quad_list :: "quad \<Rightarrow> nat list" where
  "quad_list q = [q0 q, q1 q, q2 q, q3 q]"

definition div_ceil :: "nat \<Rightarrow> nat \<Rightarrow> nat" where
  "div_ceil a b = (a + b - 1) div b"

definition percentile95 :: "nat list \<Rightarrow> nat" where
  "percentile95 values = sort values ! (div_ceil (length values * 95) 100 - 1)"

definition p95_of :: "budget_state \<Rightarrow> nat \<Rightarrow> nat" where
  "p95_of s i = percentile95 (map (\<lambda>v. quad_list v ! i) (bs_samples s) @ [quad_list (bs_counts s) ! i])"

definition jnums :: "nat list \<Rightarrow> json" where
  "jnums ns = JArr (map JNum ns)"

definition budget_row :: "nat \<Rightarrow> string \<times> account \<Rightarrow> json" where
  "budget_row now entry =
     (let s = acc_state (snd entry);
          recent_flows = length (filter (\<lambda>(flow, seen). now - seen < FLOW_IDLE_SECONDS) (bs_flows s))
      in JObj
        [(''account'', JStr (fst entry)), (''totals'', jnums (quad_list (bs_totals s))),
         (''peak_per_second'', jnums (quad_list (bs_peaks s))),
         (''p95_recent_active_seconds'', jnums (map (p95_of s) [0, 1, 2, 3])),
         (''new_flows_this_minute'', JNum (if bs_minute s = now div 60 then unat (bs_new_flows s) else 0)),
         (''total_new_flows'', junat (bs_total_new_flows s)), (''flows_seen_within_120s'', JNum recent_flows),
         (''peak_tracked_flows'', JNum (bs_peak_flows s)), (''budget_breaches'', junat (bs_breaches s)),
         (''dropped_packets'', junat (bs_drops s)), (''untracked_flow_packets'', junat (bs_untracked s))])"

definition budgets_snapshot :: "environment \<Rightarrow> nat \<Rightarrow> budgets \<Rightarrow> json" where
  "budgets_snapshot env mono_ms b =
     JObj
       [(''server_id'', JStr (case env ''RELAY_SERVER_ID'' of None \<Rightarrow> [] | Some v \<Rightarrow> v)),
        (''mode'', JStr (if bp_enforce (bu_policy b) then ''enforce'' else ''observe'')),
        (''counter_order'', JArr [JStr ''packets_in'', JStr ''bytes_in'', JStr ''packets_out'', JStr ''bytes_out'']),
        (''limits'', JObj [(''packets_per_second'', JNum (bp_packets (bu_policy b))),
           (''bytes_per_second'', JNum (bp_bytes (bu_policy b))), (''new_flows_per_minute'', JNum (bp_new_flows (bu_policy b)))]),
        (''untracked_account_packets'', junat (bu_capacity_packets b)),
        (''capacity_dropped_packets'', junat (bu_capacity_drops b)),
        (''accounts'', JArr (map (budget_row (mono_ms div 1000)) (bu_accounts b)))]"

subsection \<open>Destination policy\<close>

definition protocol_name :: "u8 \<Rightarrow> json" where
  "protocol_name protocol = (if protocol = 6 then JStr ''tcp'' else if protocol = 17 then JStr ''udp'' else junat protocol)"

definition dest_snapshot :: "dest_policy \<Rightarrow> json" where
  "dest_snapshot p =
     (let counters = dp_counters p;
          networks = map (\<lambda>(samples, protocol, network).
            JObj [(''protocol'', protocol_name protocol), (''network'', JStr (dotted (ipv4_of_u32 network) @ ''/24'')),
                  (''samples'', junat samples)]) (snapshot_networks p);
          ports = map (\<lambda>(samples, port). JObj [(''port'', junat port), (''samples'', junat samples)]) (snapshot_ports p)
      in JObj
        [(''mode'', JStr (mode_as_str (dp_mode p))), (''enforce_refused'', jopt_str (dp_enforce_refused p)),
         (''allowlist'', JObj [(''source'', JStr (dp_source p)), (''udp_networks'', JNum (length (dp_udp p))),
            (''tcp_networks'', JNum (length (dp_tcp p))), (''tcp_ports'', JArr (map junat (dp_tcp_ports p))),
            (''notes'', JArr (map JStr (dp_notes p)))]),
         (''unlisted_packets'', JObj [(''udp'', junat (udp_unlisted counters)),
            (''tcp_network'', junat (tcp_unlisted_network counters)), (''tcp_port'', junat (tcp_unlisted_port counters))]),
         (''dropped_packets'', junat (dest_dropped counters)),
         (''unlisted_sample'', JObj [(''sample_every'', junat (dp_sample_every p)), (''networks'', JArr networks),
            (''tcp_ports'', JArr ports), (''overflow'', junat (ta_overflow (dp_tally p)))])])"

fun join_debug :: "string list \<Rightarrow> string" where
  "join_debug [] = []"
| "join_debug [s] = s"
| "join_debug (s # ss) = s @ '', '' @ join_debug ss"

definition dest_describe :: "dest_policy \<Rightarrow> string" where
  "dest_describe p =
     ''Destination policy: '' @ mode_as_str (dp_mode p) @ '' ('' @ dp_source p @ '' list, '' @ dec_str (length (dp_udp p)) @
     '' UDP and '' @ dec_str (length (dp_tcp p)) @ '' TCP networks, TCP ports ['' @
     join_debug (map (\<lambda>port. dec_str (unat port)) (dp_tcp_ports p)) @ '']; env RELAY_DEST_POLICY_MODE)''"

section \<open>One row per session\<close>

text \<open>The row of a session, read directly off the two tables.\<close>

definition connection_of :: "traffic \<Rightarrow> session_id \<times> session_entry \<Rightarrow> connection_snapshot" where
  "connection_of session_traffic e =
     (case dm_get session_traffic (fst e) of
        Some t \<Rightarrow> traffic_row (fst e) (snapshot_meta (snd e)) t
      | None \<Rightarrow> idle_row (fst e) (snapshot_meta (snd e)))"

lemma dm_key_get: "k \<in> fst ` set m \<Longrightarrow> \<exists>v. dm_get m k = Some v"
  using map_of_eq_None_iff [of m k] by (cases "map_of m k") (auto simp: dm_get_map_of)

lemma mset_map_keys:
  assumes "dm_ok m"
  shows "mset (map (\<lambda>(k, v). F k v) m) = image_mset (\<lambda>k. F k (the (dm_get m k))) (mset_set (fst ` set m))"
  using assms
proof (induction m)
  case (Cons e m)
  obtain k v where e: "e = (k, v)" by (cases e)
  have k: "k \<notin> fst ` set m" and m: "dm_ok m" using Cons.prems e by (auto simp: dm_ok_def)
  have "image_mset (\<lambda>x. F x (the (dm_get (e # m) x))) (mset_set (fst ` set m)) =
      image_mset (\<lambda>x. F x (the (dm_get m x))) (mset_set (fst ` set m))"
    using k e by (intro image_mset_cong) (auto simp: dm_get_map_of)
  then show ?case using Cons.IH [OF m] k e by (simp add: dm_get_map_of)
qed simp

lemma mset_filter_keys:
  assumes "dm_ok m"
  shows "mset (map (\<lambda>(k, v). F k v) (filter (\<lambda>(k, v). P k) m)) =
    image_mset (\<lambda>k. F k (the (dm_get m k))) (mset_set {k \<in> fst ` set m. P k})"
proof -
  let ?n = "filter (\<lambda>(k, v). P k) m"
  have ok: "dm_ok ?n" using dm_ok_retain [OF assms, of "\<lambda>k v. P k"] by (simp add: dm_retain_def split_def)
  have keys: "fst ` set ?n = {k \<in> fst ` set m. P k}" by force
  have "dm_get ?n k = dm_get m k" if "P k" for k
    using that assms by (induction m) (auto simp: dm_get_map_of dm_ok_def)
  then have "image_mset (\<lambda>k. F k (the (dm_get ?n k))) (mset_set {k \<in> fst ` set m. P k}) =
      image_mset (\<lambda>k. F k (the (dm_get m k))) (mset_set {k \<in> fst ` set m. P k})"
    by (intro image_mset_cong) auto
  then show ?thesis using mset_map_keys [OF ok, of F] keys by simp
qed

lemma connection_rows_mset:
  assumes "dm_ok sessions" "dm_ok session_traffic"
  shows "mset (connection_rows sessions session_traffic) = mset (map (connection_of session_traffic) sessions)"
proof -
  define meta where "meta = map (\<lambda>(sid, entry). (sid, snapshot_meta entry)) sessions"
  have get: "dm_get meta sid = map_option snapshot_meta (dm_get sessions sid)" for sid
    by (simp add: meta_def dm_get_map_of map_of_map)
  have keys: "fst ` set meta = fst ` set sessions" by (force simp: meta_def)
  have ok: "dm_ok meta" using assms(1) by (simp add: meta_def dm_ok_def comp_def split_def)
  define K T where "K = fst ` set sessions" and "T = fst ` set session_traffic"
  define R where "R k = connection_of session_traffic (k, the (dm_get sessions k))" for k
  have fin: "finite T" "finite K" by (simp_all add: T_def K_def)
  have inK: "dm_contains meta k \<longleftrightarrow> k \<in> K" for k
    using keys by (simp add: dm_contains_def K_def map_of_eq_None_iff)
  have some: "\<exists>s. dm_get sessions k = Some s" if "k \<in> K" for k
    using that unfolding K_def by (rule dm_key_get)
  have seen: "set (map fst (filter (\<lambda>(k, t). dm_contains meta k) session_traffic)) = T \<inter> K"
    by (force simp: inK T_def)
  have "mset (map (\<lambda>(k, t). traffic_row k (the (dm_get meta k)) t) (filter (\<lambda>(k, t). dm_contains meta k) session_traffic)) =
      image_mset R (mset_set (T \<inter> K))"
  proof -
    have "traffic_row k (the (dm_get meta k)) (the (dm_get session_traffic k)) = R k" if k: "k \<in> T \<inter> K" for k
    proof -
      obtain t where "dm_get session_traffic k = Some t" using dm_key_get [of k session_traffic] k by (auto simp: T_def)
      then show ?thesis using some [of k] k by (auto simp: R_def connection_of_def get)
    qed
    then have "image_mset (\<lambda>k. traffic_row k (the (dm_get meta k)) (the (dm_get session_traffic k))) (mset_set (T \<inter> K)) =
        image_mset R (mset_set (T \<inter> K))"
      using fin by (intro image_mset_cong) simp
    moreover have "{k \<in> T. k \<in> K} = T \<inter> K" by auto
    ultimately show ?thesis
      using mset_filter_keys [OF assms(2), of "\<lambda>k. traffic_row k (the (dm_get meta k))" "\<lambda>k. k \<in> K"]
      unfolding inK T_def [symmetric] by simp
  qed
  moreover have "mset (map (\<lambda>(k, e). idle_row k e) (filter (\<lambda>(k, e). k \<notin> T \<inter> K) meta)) = image_mset R (mset_set (K - T))"
  proof -
    have "dm_get session_traffic k = None" if "k \<in> K - T" for k
      using that by (simp add: T_def dm_get_map_of map_of_eq_None_iff)
    then have "idle_row k (the (dm_get meta k)) = R k" if "k \<in> K - T" for k
      using some [of k] that by (auto simp: R_def connection_of_def get)
    then have "image_mset (\<lambda>k. idle_row k (the (dm_get meta k))) (mset_set (K - T)) = image_mset R (mset_set (K - T))"
      using fin by (intro image_mset_cong) simp
    moreover have "{k \<in> K. k \<notin> T \<inter> K} = K - T" by auto
    ultimately show ?thesis
      using mset_filter_keys [OF ok, of idle_row "\<lambda>k. k \<notin> T \<inter> K"] unfolding keys K_def [symmetric] by simp
  qed
  moreover have "mset_set (T \<inter> K) + mset_set (K - T) = mset_set K"
    by (subst mset_set_Union [symmetric]) (use fin in \<open>auto intro: arg_cong [where f = mset_set]\<close>)
  moreover have "mset (map (connection_of session_traffic) sessions) = image_mset R (mset_set K)"
    using mset_map_keys [OF assms(1), of "\<lambda>k v. connection_of session_traffic (k, v)"] by (simp add: R_def [abs_def] K_def)
  ultimately show ?thesis
    unfolding connection_rows_def Let_def meta_def [symmetric] seen by (simp flip: image_mset_union)
qed

lemma connection_rows_sorted:
  "sorted_wrt (\<lambda>a b. cs_last_activity_at b \<le> cs_last_activity_at a) (connection_rows sessions session_traffic)"
proof -
  have "sorted (map (\<lambda>c. - int (cs_last_activity_at c)) (connection_rows sessions session_traffic))"
    unfolding connection_rows_def Let_def by (rule sorted_sort_key)
  then show ?thesis by (simp add: sorted_map)
qed

section \<open>The text of the connections\<close>

definition connection_json :: "connection_snapshot \<Rightarrow> json" where
  "connection_json conn = JObj
     [(''user_id'', JStr (cs_user_id conn)), (''session_id'', JStr (cs_session_id conn)),
      (''auth_state'', JStr (cs_auth_state conn)), (''connected_at'', JNum (cs_connected_at conn)),
      (''last_activity_at'', JNum (cs_last_activity_at conn)), (''bytes_in'', junat (cs_bytes_in conn)),
      (''bytes_out'', junat (cs_bytes_out conn)), (''client_endpoint'', JStr (cs_client_endpoint conn)),
      (''packets_in'', junat (cs_packets_in conn)), (''packets_out'', junat (cs_packets_out conn)),
      (''rtt_us'', junat (cs_rtt_us conn))]"

definition str_field :: "string \<Rightarrow> string \<Rightarrow> string \<times> string \<times> json" where
  "str_field key s = (key, [CHR 0x22] @ escape_json s @ [CHR 0x22], JStr s)"

definition num_field :: "string \<Rightarrow> nat \<Rightarrow> string \<times> string \<times> json" where
  "num_field key n = (key, dec_str n, JNum n)"

lemma field_reads:
  "plain key \<Longrightarrow> plain s \<Longrightarrow> plain (fst (str_field key s)) \<and> reads (fst (snd (str_field key s))) (snd (snd (str_field key s)))"
  "plain key \<Longrightarrow> plain (fst (num_field key n)) \<and> reads (fst (snd (num_field key n))) (snd (snd (num_field key n)))"
  using reads_str [of s] reads_num [of n] by (simp_all add: str_field_def num_field_def)

lemma connection_reads:
  assumes "plain (cs_user_id conn)" "plain (cs_session_id conn)" "plain (cs_auth_state conn)" "plain (cs_client_endpoint conn)"
  shows "reads (connection_text conn) (connection_json conn)"
proof -
  define fs where "fs = [str_field ''user_id'' (cs_user_id conn), str_field ''session_id'' (cs_session_id conn),
      str_field ''auth_state'' (cs_auth_state conn), num_field ''connected_at'' (cs_connected_at conn),
      num_field ''last_activity_at'' (cs_last_activity_at conn), num_field ''bytes_in'' (unat (cs_bytes_in conn)),
      num_field ''bytes_out'' (unat (cs_bytes_out conn)), str_field ''client_endpoint'' (cs_client_endpoint conn),
      num_field ''packets_in'' (unat (cs_packets_in conn)), num_field ''packets_out'' (unat (cs_packets_out conn)),
      num_field ''rtt_us'' (unat (cs_rtt_us conn))]"
  have keys: "plain ''user_id''" "plain ''session_id''" "plain ''auth_state''" "plain ''connected_at''"
    "plain ''last_activity_at''" "plain ''bytes_in''" "plain ''bytes_out''" "plain ''client_endpoint''" "plain ''packets_in''"
    "plain ''packets_out''" "plain ''rtt_us''"
    by code_simp+
  have "\<forall>f \<in> set fs. plain (fst f) \<and> reads (fst (snd f)) (snd (snd f))" "fs \<noteq> []"
    using assms keys field_reads by (simp_all add: fs_def)
  from reads_obj [OF this] show ?thesis
    by (simp add: fs_def connection_text_def connection_json_def str_field_def num_field_def field_text_def field_value_def junat_def)
qed

lemma plain_append [simp]: "plain (s @ t) \<longleftrightarrow> plain s \<and> plain t"
  by (auto simp: plain_def)

lemma plain_Nil [simp]: "plain []"
  by (simp add: plain_def)

lemma plain_Cons [simp]: "plain (c # s) \<longleftrightarrow> (is_control c \<longrightarrow> c = CHR 0x0A \<or> c = CHR 0x0D \<or> c = CHR 0x09) \<and> plain s"
  by (auto simp: plain_def)

lemma plain_dec_str [simp]: "plain (dec_str n)"
  using dec_str_digits [of _ n] by (force simp: plain_def is_control_def)

lemma not_control_hex_digit [simp]: "d < 16 \<Longrightarrow> \<not> is_control (hex_digit d)"
  by (simp add: is_control_def hex_digit_def of_char_of take_bit_eq_mod)

lemma plain_hex_pad [simp]: "plain (hex_pad k n)"
  by (induction k arbitrary: n) simp_all

lemma plain_hex_str [simp]: "plain (hex_str n)"
proof (induction n rule: hex_str.induct)
  case (1 n)
  then show ?case by (subst hex_str.simps) simp
qed

lemma plain_colon_join [simp]: "\<forall>s \<in> set ss. plain s \<Longrightarrow> plain (colon_join ss)"
  by (induction ss rule: colon_join.induct) (simp_all add: is_control_def)

lemma plain_sock [simp]: "plain (sock_to_string a)"
proof (cases a)
  case (SockV4 ip port)
  then show ?thesis by (cases ip) (simp add: dotted_def is_control_def)
next
  case (SockV6 ip port flowinfo scope)
  have "plain (ipv6_to_string ip)"
    by (simp add: ipv6_to_string_def dotted_def Let_def is_control_def split_beta)
  then show ?thesis using SockV6 by (simp add: is_control_def)
qed

lemma plain_auth_state [simp]: "plain (session_auth_state_as_str s)"
  by (cases s) (simp_all add: is_control_def)

lemma plain_row:
  assumes "row \<in> set (map (connection_of session_traffic) sessions)" "\<forall>e \<in> set sessions. plain (user_id (snd e))"
  shows "reads (connection_text row) (connection_json row)"
  by (rule connection_reads)
    (use assms in \<open>auto simp: connection_of_def traffic_row_def idle_row_def snapshot_meta_def hex16_def split: option.splits\<close>)

text \<open>
  C33. The text of the connections page is one JSON value: read back, it has the time
  and one row for each session, with its user, endpoint and counters (zeros where there
  are none), most recently active first, when no user name holds a control character
  other than newline, return and tab.
\<close>

theorem connections_payload_reads_back:
  assumes "dm_ok sessions" "dm_ok session_traffic" "\<forall>e \<in> set sessions. plain (user_id (snd e))"
    and "payload = render_connections_payload sessions session_traffic now_unix"
  shows "\<exists>rows. json_read (length payload) payload =
      Some (JObj [(''timestamp'', JNum now_unix), (''connections'', JArr (map connection_json rows))], []) \<and>
    mset rows = mset (map (connection_of session_traffic) sessions) \<and>
    sorted_wrt (\<lambda>a b. cs_last_activity_at b \<le> cs_last_activity_at a) rows"
proof -
  let ?rows = "connection_rows sessions session_traffic"
  define es where "es = map (\<lambda>r. (connection_text r, connection_json r)) ?rows"
  define fs where "fs = [num_field ''timestamp'' now_unix, (''connections'', ''['' @ join_comma (map fst es) @ '']'', JArr (map snd es))]"
  have rows: "mset ?rows = mset (map (connection_of session_traffic) sessions)" using assms(1,2) by (rule connection_rows_mset)
  have "\<forall>e \<in> set es. reads (fst e) (snd e)"
    using plain_row [OF _ assms(3)] mset_eq_setD [OF rows] by (auto simp: es_def)
  then have "\<forall>f \<in> set fs. plain (fst f) \<and> reads (fst (snd f)) (snd (snd f))" "fs \<noteq> []"
    using reads_arr [of es] field_reads(2) [of "''timestamp''" now_unix] by (simp_all add: fs_def is_control_def)
  from reads_obj [OF this] have "reads payload (JObj (map field_value fs))"
    using assms(4) by (simp add: fs_def render_connections_payload_def num_field_def field_text_def es_def comp_def)
  then have "json_read (length payload) payload = Some (JObj (map field_value fs), [])"
    using reads_def [of payload "JObj (map field_value fs)"] by (metis append_Nil2 no_digit_simps(1) order_refl)
  then show ?thesis
    using rows connection_rows_sorted by (intro exI [of _ ?rows]) (simp add: fs_def field_value_def num_field_def es_def comp_def)
qed

definition sample_busy :: session_entry where
  "sample_busy = \<lparr>user_id = ''u\"1'', auth_state = Authenticated, lease_expires_at_unix = Some 1600,
     client_addr = SockV4 (Ipv4 10 0 0 1) 4000, created_at_unix = 1010, last_activity = 5, last_activity_unix = 1010\<rparr>"

definition sample_rows :: sessions where
  "sample_rows = [([1, 2, 3, 4, 5, 6, 7, 8], sample_busy), ([8, 7, 6, 5, 4, 3, 2, 1], sample_busy)]"

definition sample_counts :: traffic where
  "sample_counts = [([8, 7, 6, 5, 4, 3, 2, 1], (session_traffic_new 1020)\<lparr>st_bytes_in := 300\<rparr>)]"

theorem connections_payload_reads_back_witness:
  "\<exists>rows. json_read (length (render_connections_payload sample_rows sample_counts 1050)) (render_connections_payload sample_rows sample_counts 1050) =
      Some (JObj [(''timestamp'', JNum 1050), (''connections'', JArr (map connection_json rows))], []) \<and>
    mset rows = mset (map (connection_of sample_counts) sample_rows) \<and>
    sorted_wrt (\<lambda>a b. cs_last_activity_at b \<le> cs_last_activity_at a) rows"
  by (rule connections_payload_reads_back [OF _ _ _ refl])
    (simp_all add: sample_rows_def sample_counts_def sample_busy_def dm_ok_def is_control_def)

section \<open>Rates and percentiles\<close>

lemma as_secs_f64_pos: "0 < d \<Longrightarrow> 0 < as_secs_f64 d"
  using near_pos [OF as_secs_f64_near [of d]] by simp

text \<open>
  A rate sample less than a second after the last one repeats the old rates and changes
  nothing; a later one starts a new window and, for deltas below 2^48 bytes, gives rates
  within one byte per second of the exact averages although they are computed in double
  precision.
\<close>

theorem sampled_rates_are_accurate:
  assumes "last_sample_at w = Some t" "sample_stats_rates w b_in b_out now = ((r_in, r_out), w')"
    and "unat b_in - unat (last_bytes_in w) < 2 ^ 48" "unat b_out - unat (last_bytes_out w) < 2 ^ 48"
  shows "(now - t < 1000000000 \<longrightarrow> w' = w \<and> r_in = inbound_bps w \<and> r_out = outbound_bps w) \<and>
    (1000000000 \<le> now - t \<longrightarrow>
      last_sample_at w' = Some now \<and> last_bytes_in w' = b_in \<and> last_bytes_out w' = b_out \<and>
      \<bar>of_nat r_in - of_nat (unat b_in - unat (last_bytes_in w)) * 1000000000 / of_nat (now - t)\<bar> \<le> (1 :: rat) \<and>
      \<bar>of_nat r_out - of_nat (unat b_out - unat (last_bytes_out w)) * 1000000000 / of_nat (now - t)\<bar> \<le> (1 :: rat))"
proof (cases "now - t < 1000000000")
  case True
  then show ?thesis
    using assms(1,2) by (auto simp: sample_stats_rates_def saturating_duration_since_def duration_millis_def STATS_RATE_SAMPLE_MIN_MS_def)
next
  case False
  then have "0 < as_secs_f64 (now - t)" by (intro as_secs_f64_pos) simp
  then show ?thesis
    using False assms(1,2) rate_f64_accurate [OF _ assms(3), of "now - t"] rate_f64_accurate [OF _ assms(4), of "now - t"]
    by (auto simp: sample_stats_rates_def saturating_duration_since_def duration_millis_def STATS_RATE_SAMPLE_MIN_MS_def Let_def)
qed

definition sample_window :: stats_rate_window where
  "sample_window = stats_rate_window_new\<lparr>last_sample_at := Some 7, last_bytes_in := 500\<rparr>"

theorem sampled_rates_are_accurate_witness:
  "case sample_stats_rates sample_window 3500 90 2000000007 of ((r_in, r_out), w') \<Rightarrow>
    last_sample_at w' = Some 2000000007 \<and> last_bytes_in w' = 3500 \<and> last_bytes_out w' = 90 \<and>
    \<bar>of_nat r_in - 1500\<bar> \<le> (1 :: rat) \<and> \<bar>of_nat r_out - 45\<bar> \<le> (1 :: rat)"
proof -
  obtain r_in r_out w' where r: "sample_stats_rates sample_window 3500 90 2000000007 = ((r_in, r_out), w')" by (metis prod.exhaust)
  have w: "last_sample_at sample_window = Some 7" "last_bytes_in sample_window = 500" "last_bytes_out sample_window = 0"
    by (simp_all add: sample_window_def stats_rate_window_new_def)
  show ?thesis using sampled_rates_are_accurate [OF w(1) r] unfolding r w by simp
qed

lemma sorted_rank:
  fixes xs :: "nat list"
  assumes "sorted xs" "i < length xs"
  shows "Suc i \<le> length (filter (\<lambda>v. v \<le> xs ! i) xs)" "length (filter (\<lambda>v. v < xs ! i) xs) \<le> i"
proof -
  have le: "xs ! j \<le> xs ! i" if "j \<le> i" for j using sorted_nth_mono [OF assms(1) that assms(2)] .
  have ge: "xs ! i \<le> xs ! j" if "i \<le> j" "j < length xs" for j using sorted_nth_mono [OF assms(1) that] .
  have split: "length (filter P xs) = length (filter P (take k xs)) + length (filter P (drop k xs))" for P k
    by (metis append_take_drop_id filter_append length_append)
  have "filter (\<lambda>v. v \<le> xs ! i) (take (Suc i) xs) = take (Suc i) xs"
    using le by (auto simp: filter_id_conv in_set_conv_nth)
  then have "length (filter (\<lambda>v. v \<le> xs ! i) (take (Suc i) xs)) = Suc i" using assms(2) by simp
  then show "Suc i \<le> length (filter (\<lambda>v. v \<le> xs ! i) xs)" using split [of _ "Suc i"] by simp
  have "filter (\<lambda>v. v < xs ! i) (drop i xs) = []"
    using ge assms(2) by (auto simp: filter_empty_conv in_set_conv_nth not_less)
  moreover have "length (filter (\<lambda>v. v < xs ! i) (take i xs)) \<le> i"
    using length_filter_le [of "\<lambda>v. v < xs ! i" "take i xs"] by simp
  ultimately show "length (filter (\<lambda>v. v < xs ! i) xs) \<le> i" using split [of _ i] by simp
qed

text \<open>
  The figure reported as 95th percentile is one of the values, at least 95 percent of the
  values are at most it, and fewer than 95 percent are below it.
\<close>

theorem p95_is_a_percentile:
  fixes s :: budget_state
  defines "vs \<equiv> \<lambda>i. map (\<lambda>v. quad_list v ! i) (bs_samples s) @ [quad_list (bs_counts s) ! i]"
  shows "p95_of s i \<in> set (vs i) \<and> 95 * length (vs i) \<le> 100 * length (filter (\<lambda>v. v \<le> p95_of s i) (vs i)) \<and>
    100 * length (filter (\<lambda>v. v < p95_of s i) (vs i)) < 95 * length (vs i)"
proof -
  let ?xs = "sort (vs i)"
  define n k where "n = length (vs i)" and "k = div_ceil (n * 95) 100 - 1"
  have n: "0 < n" by (simp add: n_def vs_def)
  have k: "k < length ?xs" "n * 95 \<le> 100 * Suc k" "100 * k < n * 95"
    using n unfolding k_def div_ceil_def by (simp add: n_def [symmetric]; linarith)+
  have p: "p95_of s i = ?xs ! k" by (simp add: p95_of_def percentile95_def k_def n_def vs_def)
  have count: "length (filter P ?xs) = length (filter P (vs i))" for P
    by (metis mset_filter mset_sort size_mset)
  show ?thesis
    using sorted_rank [OF sorted_sort k(1)] k nth_mem [OF k(1)] unfolding p count n_def [symmetric] by (simp add: mult.commute)
qed

end
