(* ===== verification/Stats_Api.thy ===== *)
theory Stats_Api
  imports Stats_Report
begin

text \<open>
  The two HTTP servers (\<^verbatim>\<open>src/src/main.rs\<close>): the statistics API on the loopback address, with
  its blocking and its asynchronous handler, and the public health probe.  The state is the
  context the handlers share; the clocks, the environment, the two policies of the process
  and \<^verbatim>\<open>serde_json\<close>, which turns a value into text, are inputs of a request.
\<close>

section \<open>Definitions\<close>

record stats_api_context =
  sc_sessions :: sessions
  sc_session_traffic :: traffic
  sc_stats :: stats
  sc_runtime_config :: relay_runtime_config
  sc_started_at :: instant
  sc_rate_window :: stats_rate_window
  sc_connections_snapshot :: string

record api_input =
  ai_to_string :: "json \<Rightarrow> string"
  ai_str_to_json :: "string \<Rightarrow> string option"
  ai_now :: instant
  ai_now_unix :: nat
  ai_mono_ms :: nat
  ai_env :: environment
  ai_policy :: dest_policy
  ai_budgets :: budgets

definition stats_api_context_new ::
  "sessions \<Rightarrow> traffic \<Rightarrow> stats \<Rightarrow> relay_runtime_config \<Rightarrow> instant \<Rightarrow> nat \<Rightarrow> stats_api_context" where
  "stats_api_context_new ss tr st config started now_unix =
     \<lparr>sc_sessions = ss, sc_session_traffic = tr, sc_stats = st, sc_runtime_config = config, sc_started_at = started,
      sc_rate_window = stats_rate_window_new, sc_connections_snapshot = empty_connections_payload now_unix\<rparr>"

definition elapsed_secs :: "api_input \<Rightarrow> stats_api_context \<Rightarrow> nat" where
  "elapsed_secs i ctx = saturating_duration_since (ai_now i) (sc_started_at ctx) div duration_secs 1"

subsection \<open>Pages\<close>

definition render_stats_payload :: "api_input \<Rightarrow> stats_api_context \<Rightarrow> string \<times> stats_api_context" where
  "render_stats_payload i ctx =
     (let (rates, window) =
        sample_stats_rates (sc_rate_window ctx) (bytes_in (sc_stats ctx)) (bytes_out (sc_stats ctx)) (ai_now i)
      in (ai_to_string i (stats_json (sc_stats ctx) (sc_runtime_config ctx) rates (elapsed_secs i ctx) (ai_now_unix i)),
          ctx\<lparr>sc_rate_window := window\<rparr>))"

definition render_config_payload :: "api_input \<Rightarrow> stats_api_context \<Rightarrow> string" where
  "render_config_payload i ctx = ai_to_string i (config_json (sc_runtime_config ctx) (ai_now_unix i))"

definition render_live_connections :: "api_input \<Rightarrow> stats_api_context \<Rightarrow> string" where
  "render_live_connections i ctx = render_connections_payload (sc_sessions ctx) (sc_session_traffic ctx) (ai_now_unix i)"

definition render_connections_snapshot_payload :: "api_input \<Rightarrow> stats_api_context \<Rightarrow> string" where
  "render_connections_snapshot_payload i ctx = sc_connections_snapshot ctx"

definition store_connections_snapshot :: "stats_api_context \<Rightarrow> string \<Rightarrow> stats_api_context" where
  "store_connections_snapshot ctx payload = ctx\<lparr>sc_connections_snapshot := payload\<rparr>"

text \<open>One round of the thread that refreshes the snapshot.\<close>

definition connections_snapshot_updater :: "api_input \<Rightarrow> stats_api_context \<Rightarrow> stats_api_context" where
  "connections_snapshot_updater i ctx = store_connections_snapshot ctx (render_live_connections i ctx)"

text \<open>The match on the path, for a handler that renders the connections in its own way.\<close>

definition stats_route ::
  "(api_input \<Rightarrow> stats_api_context \<Rightarrow> string) \<Rightarrow> api_input \<Rightarrow> string \<Rightarrow> stats_api_context \<Rightarrow> string option \<times> stats_api_context" where
  "stats_route connections i path ctx =
     (if path = ''/v1/account-budgets'' then
        (Some (ai_to_string i (budgets_snapshot (ai_env i) (ai_mono_ms i) (ai_budgets i))), ctx)
      else if path = ''/v1/dest-policy'' then (Some (ai_to_string i (dest_snapshot (ai_policy i))), ctx)
      else if path = ''/v1/stats'' then (let (body, ctx) = render_stats_payload i ctx in (Some body, ctx))
      else if path = ''/v1/connections'' then (Some (connections i ctx), ctx)
      else if path = ''/v1/config'' then (Some (render_config_payload i ctx), ctx)
      else (None, ctx))"

subsection \<open>Handlers\<close>

text \<open>A blocking read times out with one of two error kinds, an asynchronous one by the timer.\<close>

definition handle_stats_http_client_blocking ::
  "string \<Rightarrow> api_input \<Rightarrow> read_result list \<Rightarrow> stats_api_context \<Rightarrow> http_outcome \<times> stats_api_context" where
  "handle_stats_http_client_blocking token i =
     handle_http (\<lambda>e. e = Io TimedOut \<or> e = Io WouldBlock) token (stats_route render_connections_snapshot_payload i)"

definition handle_stats_http_client ::
  "string \<Rightarrow> api_input \<Rightarrow> read_result list \<Rightarrow> stats_api_context \<Rightarrow> http_outcome \<times> stats_api_context" where
  "handle_stats_http_client token i = handle_http (\<lambda>e. e = Elapsed) token (stats_route render_live_connections i)"

subsection \<open>Health\<close>

definition HEALTH_BUF_SIZE :: nat where
  "HEALTH_BUF_SIZE = 1024"

definition health_request :: "read_result \<Rightarrow> bytes" where
  "health_request r = (case r of ReadData chunk \<Rightarrow> take HEALTH_BUF_SIZE chunk | ReadErr e \<Rightarrow> [])"

definition health_path :: "bytes \<Rightarrow> string" where
  "health_path request =
     (let words = split_whitespace (from_utf8_lossy request) in if 1 < length words then words ! 1 else ''/'')"

definition health_body :: "api_input \<Rightarrow> stats_api_context \<Rightarrow> string" where
  "health_body i ctx =
     (let server_id = (case rc_server_id (sc_runtime_config ctx) of None \<Rightarrow> [] | Some s \<Rightarrow> s)
      in ''{\"status\":\"ok\",\"server_id\":'' @
         (case ai_str_to_json i server_id of None \<Rightarrow> ''\"\"'' | Some t \<Rightarrow> t) @
         '',\"uptime_seconds\":'' @ dec_str (elapsed_secs i ctx) @ '',\"version\":\"'' @ RELAY_VERSION @ ''\"}'')"

definition health_response :: "string \<Rightarrow> string \<Rightarrow> string" where
  "health_response status body =
     ''HTTP/1.1 '' @ status @ crlf @
     ''Content-Type: application/json'' @ crlf @
     ''Content-Length: '' @ dec_str (length body) @ crlf @
     ''Cache-Control: no-store'' @ crlf @
     ''Connection: close'' @ crlf @ crlf @ body"

definition health_http_client :: "api_input \<Rightarrow> read_result \<Rightarrow> stats_api_context \<Rightarrow> string" where
  "health_http_client i r ctx =
     (if take 7 (health_path (health_request r)) = ''/health'' then health_response ''200 OK'' (health_body i ctx)
      else health_response ''404 Not Found'' ''{\"error\":\"not found\"}'')"

section \<open>The statistics pages\<close>

definition stats_paths :: "string list" where
  "stats_paths = [''/v1/account-budgets'', ''/v1/dest-policy'', ''/v1/stats'', ''/v1/connections'', ''/v1/config'']"

interpretation stats_api: http_service "stats_route connections i" "set stats_paths" for connections i
  by unfold_locales (auto simp: stats_paths_def stats_route_def Let_def split: prod.splits)

text \<open>
  Unless the first 8192 bytes of a connection hold a complete header of a GET request
  with the configured bearer token, both handlers leave the context as it is and never
  answer 200, and their answer is the same whatever the relay's state, clocks, policies
  and configuration are.
\<close>

theorem stats_api_needs_token:
  assumes "\<forall>n \<le> 8192. find_http_header_end (stream_bytes rs) = Some n \<longrightarrow>
      http_method (take n (stream_bytes rs)) \<noteq> ''GET'' \<or> http_auth (take n (stream_bytes rs)) \<noteq> Some (''Bearer '' @ token)"
  shows "(\<exists>out. (\<forall>i ctx. handle_stats_http_client_blocking token i rs ctx = (out, ctx)) \<and> (\<forall>body. out \<noteq> Reply 200 ''OK'' body)) \<and>
    (\<exists>out. (\<forall>i ctx. handle_stats_http_client token i rs ctx = (out, ctx)) \<and> (\<forall>body. out \<noteq> Reply 200 ''OK'' body))"
proof -
  have "handle_http f token (stats_route connections i) rs ctx = (fst (handle_http f token no_pages rs ()), ctx)"
    for f connections i ctx
    using assms by (intro stats_api.handle_unauthorized) (auto simp: stats_api.authorized_def MAX_HTTP_REQUEST_SIZE_def)
  then show ?thesis
    using no_pages_never_ok unfolding handle_stats_http_client_blocking_def handle_stats_http_client_def by blast
qed

section \<open>A request is served\<close>

text \<open>A token a client can send in a header line: ASCII without CR, and not ending in a blank.\<close>

definition sendable :: "string \<Rightarrow> bool" where
  "sendable token \<longleftrightarrow> token \<noteq> [] \<and> (\<forall>c \<in> set token. (of_char c :: nat) < 128 \<and> c \<noteq> CHR 0x0D) \<and>
     33 \<le> (of_char (last token) :: nat) \<and> (of_char (last token) :: nat) \<le> 126"

text \<open>A header line that would itself be taken as the authorization.\<close>

definition names_authorization :: "string \<Rightarrow> bool" where
  "names_authorization line \<longleftrightarrow>
     (case split_once (CHR '':'') line of None \<Rightarrow> False | Some (name, value) \<Rightarrow> eq_ignore_ascii_case name ''authorization'')"

lemma strip_seqs_stop: "seq_prefix_len seqs s = 0 \<Longrightarrow> strip_seqs seqs s = s"
  by (subst strip_seqs.simps) simp

lemma graphic_hd_no_ws:
  assumes "33 \<le> (of_char c :: nat)" "(of_char c :: nat) \<le> 126"
  shows "seq_prefix_len ws_seqs (c # s) = 0" "seq_prefix_len (map rev ws_seqs) (c # s) = 0"
proof -
  have "c \<notin> set (map hd ws_seqs)" "c \<notin> set (map last ws_seqs)" using assms by (auto simp: ws_seqs_def)
  then show "seq_prefix_len ws_seqs (c # s) = 0" "seq_prefix_len (map rev ws_seqs) (c # s) = 0"
    by (auto simp: seq_prefix_len_def ws_seqs_def)
qed

lemma trim_bearer:
  assumes "sendable token"
  shows "trim ('' Bearer '' @ token) = ''Bearer '' @ token"
proof -
  have "seq_prefix_len ws_seqs ('' Bearer '' @ token) = 1" by (simp add: seq_prefix_len_def ws_seqs_def)
  then have "trim_start ('' Bearer '' @ token) = strip_seqs ws_seqs (''Bearer '' @ token)"
    unfolding trim_start_def by (subst strip_seqs.simps) simp
  also have "\<dots> = ''Bearer '' @ token" using graphic_hd_no_ws(1) [of "CHR ''B''"] by (intro strip_seqs_stop) simp
  finally have start: "trim_start ('' Bearer '' @ token) = ''Bearer '' @ token" .
  obtain t c where t: "token = t @ [c]" using assms by (cases token rule: rev_cases) (auto simp: sendable_def)
  then have "seq_prefix_len (map rev ws_seqs) (rev (''Bearer '' @ token)) = 0"
    using graphic_hd_no_ws(2) [of c] assms by (simp add: sendable_def)
  then show ?thesis by (simp only: trim_def start trim_end_def strip_seqs_stop rev_rev_ident)
qed

lemma auth_header_kept:
  "\<forall>l \<in> set ls. l \<noteq> [] \<and> \<not> names_authorization l \<Longrightarrow> auth_header (ls @ [[], []]) found = found"
  by (induction ls) (auto simp: names_authorization_def split: option.splits)

lemma auth_header_found:
  assumes "sendable token" "[] \<notin> set before" "\<forall>l \<in> set after. l \<noteq> [] \<and> \<not> names_authorization l"
  shows "auth_header (before @ [''Authorization: Bearer '' @ token] @ after @ [[], []]) found = Some (''Bearer '' @ token)"
  using assms(2)
proof (induction before arbitrary: found)
  case Nil
  have "split_once (CHR '':'') (''Authorization: Bearer '' @ token) = Some (''Authorization'', '' Bearer '' @ token)"
    by (simp add: split_once_def)
  moreover have "eq_ignore_ascii_case ''Authorization'' ''authorization''" by code_simp
  ultimately show ?case using trim_bearer [OF assms(1)] auth_header_kept [OF assms(3)] by simp
qed auto

lemma request_line_words:
  assumes "path \<in> set stats_paths"
  shows "split_whitespace (''GET '' @ path @ '' HTTP/1.1'') = [''GET'', path, ''HTTP/1.1'']"
proof -
  have "\<forall>path \<in> set stats_paths. split_whitespace (''GET '' @ path @ '' HTTP/1.1'') = [''GET'', path, ''HTTP/1.1'']"
    by code_simp
  then show ?thesis using assms by blast
qed

text \<open>
  The requests a client of the API sends: a page, the token, and any other header lines
  before and after it.
\<close>

definition stats_request :: "string \<Rightarrow> string list \<Rightarrow> string \<Rightarrow> string list \<Rightarrow> string" where
  "stats_request path before token after =
     header_of ((''GET '' @ path @ '' HTTP/1.1'') # before @ [''Authorization: Bearer '' @ token] @ after)"

definition header_lines_ok :: "string list \<Rightarrow> bool" where
  "header_lines_ok ls \<longleftrightarrow> (\<forall>l \<in> set ls. l \<noteq> [] \<and> CHR 0x0D \<notin> set l \<and> (\<forall>c \<in> set l. (of_char c :: nat) < 128))"

lemma stats_request_header:
  assumes "path \<in> set stats_paths" "sendable token" "header_lines_ok (before @ after)" "\<forall>l \<in> set after. \<not> names_authorization l"
  shows "find_http_header_end (bytes_of_str (stats_request path before token after)) = Some (length (stats_request path before token after))"
    and "stats_api.authorized token (bytes_of_str (stats_request path before token after))"
    and "http_path (bytes_of_str (stats_request path before token after)) = path"
proof -
  define ls where "ls = (''GET '' @ path @ '' HTTP/1.1'') # before @ [''Authorization: Bearer '' @ token] @ after"
  have path: "CHR 0x0D \<notin> set path" "\<forall>c \<in> set path. (of_char c :: nat) < 128" using assms(1) by (auto simp: stats_paths_def)
  have token: "CHR 0x0D \<notin> set token" "\<forall>c \<in> set token. (of_char c :: nat) < 128" using assms(2) by (auto simp: sendable_def)
  have ok: "header_lines_ok ls" using assms(3) path token by (auto simp: ls_def header_lines_ok_def)
  have req: "stats_request path before token after = header_of ls" by (simp add: stats_request_def ls_def)
  show "find_http_header_end (bytes_of_str (stats_request path before token after)) = Some (length (stats_request path before token after))"
    using header_of_end [of ls "[]"] ok by (simp add: req header_lines_ok_def ls_def)
  have "\<forall>c \<in> set (header_of ls). (of_char c :: nat) < 128" using ok by (auto simp: header_of_def header_lines_ok_def crlf_def)
  then have "split_crlf (from_utf8_lossy (bytes_of_str (header_of ls))) = ls @ [[], []]"
    using ok by (simp add: lossy_ascii header_of_lines header_lines_ok_def)
  moreover have "[] \<notin> set before" "\<forall>l \<in> set after. l \<noteq> [] \<and> \<not> names_authorization l"
    using assms(3,4) by (auto simp: header_lines_ok_def)
  ultimately show "stats_api.authorized token (bytes_of_str (stats_request path before token after))"
    "http_path (bytes_of_str (stats_request path before token after)) = path"
    using request_line_words [OF assms(1)] auth_header_found [OF assms(2), of before after] assms(1) unfolding req
    by (simp_all add: stats_api.authorized_def http_method_def http_path_def http_auth_def nth_or_empty_def ls_def)
qed

text \<open>
  C32. A request for one of the five pages that carries the token in an Authorization
  line, with any non-empty ASCII header lines without CR before and after it of which
  those after are not themselves Authorization lines, of at most 8192 bytes, is answered
  200 with that page, however the request and what follows it on the connection are cut
  into reads. The token is any non-empty ASCII string without CR that ends in a
  printable character other than a blank.
\<close>

theorem stats_request_served:
  assumes "path \<in> set stats_paths" "sendable token" "header_lines_ok (before @ after)" "\<forall>l \<in> set after. \<not> names_authorization l"
    and "length (stats_request path before token after) \<le> 8192"
    and "concat chunks = bytes_of_str (stats_request path before token after) @ extra" "[] \<notin> set chunks"
  shows "handle_stats_http_client_blocking token i (map ReadData chunks @ later) ctx =
    (case stats_route render_connections_snapshot_payload i path ctx of (page, ctx') \<Rightarrow> (Reply 200 ''OK'' (the page), ctx'))"
proof -
  let ?req = "stats_request path before token after"
  have pieces: "\<forall>c \<in> set chunks. c \<noteq> []" using assms(7) by auto
  have "find_http_header_end (concat chunks) = Some (length ?req)"
    using header_end_append [OF stats_request_header(1) [OF assms(1-4)]] assms(6) by simp
  from request_in_pieces [OF pieces this assms(5)]
  have "handle_stats_http_client_blocking token i (map ReadData chunks @ later) ctx =
      answer_header token (stats_route render_connections_snapshot_payload i) (bytes_of_str ?req) ctx"
    by (simp add: handle_stats_http_client_blocking_def assms(6))
  then show ?thesis
    using stats_api.answer_authorized [OF stats_request_header(2) [OF assms(1-4)]] stats_request_header(3) [OF assms(1-4)]
    by (simp split: prod.split)
qed

section \<open>The two handlers\<close>

lemma read_request_no_error:
  "\<forall>r \<in> set rs. \<exists>chunk. r = ReadData chunk \<Longrightarrow> read_request f rs buf = read_request g rs buf"
  by (induction rs arbitrary: buf) (auto simp: Let_def)

lemma handle_http_cong:
  assumes "\<forall>r \<in> set rs. \<exists>chunk. r = ReadData chunk" "\<And>p. route p s = route' p s"
  shows "handle_http f token route rs s = handle_http g token route' rs s"
proof -
  have "answer_header token route header s = answer_header token route' header s" for header
    by (simp add: answer_header_def assms(2))
  then show ?thesis
    using read_request_no_error [OF assms(1), of f "[]" g] by (cases "read_request g rs []") (simp_all add: handle_http_def)
qed

text \<open>
  When the snapshot of the connections is fresh and no read fails, the blocking and the
  asynchronous handler give the same answer and leave the same context.
\<close>

theorem handlers_agree_on_fresh_snapshot:
  assumes "\<forall>r \<in> set rs. \<exists>chunk. r = ReadData chunk"
    and "sc_connections_snapshot ctx = sc_connections_snapshot (connections_snapshot_updater i ctx)"
  shows "handle_stats_http_client_blocking token i rs ctx = handle_stats_http_client token i rs ctx"
  unfolding handle_stats_http_client_blocking_def handle_stats_http_client_def
  using assms(2)
  by (intro handle_http_cong [OF assms(1)])
    (simp add: stats_route_def connections_snapshot_updater_def store_connections_snapshot_def render_connections_snapshot_payload_def)

section \<open>A token the API can never accept\<close>

lemma seq_prefix_len_zero: "seq_prefix_len seqs s = 0 \<Longrightarrow> [] \<notin> set seqs \<Longrightarrow> w \<in> set seqs \<Longrightarrow> take (length w) s \<noteq> w"
  by (auto simp: seq_prefix_len_def find_None_iff find_Some_iff split: option.splits) (metis nth_mem)

lemma strip_seqs_stopped: "seq_prefix_len seqs (strip_seqs seqs s) = 0"
  by (induction seqs s rule: strip_seqs.induct) (subst strip_seqs.simps, simp add: Let_def)

lemma trim_no_trailing_space: "trim s \<noteq> t @ '' ''"
proof
  assume "trim s = t @ '' ''"
  then have "strip_seqs (map rev ws_seqs) (rev (trim_start s)) = rev (t @ '' '')" unfolding trim_def trim_end_def by (metis rev_rev_ident)
  then have "seq_prefix_len (map rev ws_seqs) ('' '' @ rev t) = 0" using strip_seqs_stopped [of "map rev ws_seqs" "rev (trim_start s)"] by simp
  moreover have "[] \<notin> set (map rev ws_seqs)" "'' '' \<in> set (map rev ws_seqs)" by (simp_all add: ws_seqs_def)
  ultimately show False using seq_prefix_len_zero [of "map rev ws_seqs" "'' '' @ rev t" "'' ''"] by simp
qed

lemma auth_header_trimmed: "auth_header ls found = Some v \<Longrightarrow> found = Some v \<or> (\<exists>x. v = trim x)"
  by (induction ls found rule: auth_header.induct) (auto split: if_splits option.splits)

text \<open>
  C36. A statistics token that ends in a space is accepted at start-up, but no request
  whatsoever is then answered 200, because the header value is trimmed before it is
  compared and the token is not.
\<close>

theorem token_with_trailing_space_locks_out:
  assumes "get_stats_token env = Some token" "token = t @ '' ''"
  shows "\<exists>out. (\<forall>i ctx. handle_stats_http_client_blocking token i rs ctx = (out, ctx)) \<and> (\<forall>body. out \<noteq> Reply 200 ''OK'' body)"
proof -
  have "\<not> stats_api.authorized token header" for header
    using auth_header_trimmed [of _ None "''Bearer '' @ token"] trim_no_trailing_space [of _ "''Bearer '' @ t"] assms(2)
    unfolding stats_api.authorized_def http_auth_def by (metis append_assoc option.distinct(1))
  then have "handle_stats_http_client_blocking token i rs ctx =
      (fst (handle_http (\<lambda>e. e = Io TimedOut \<or> e = Io WouldBlock) token no_pages rs ()), ctx)" for i ctx
    unfolding handle_stats_http_client_blocking_def by (intro stats_api.handle_unauthorized)
  then show ?thesis using no_pages_never_ok by blast
qed

section \<open>Health\<close>

lemma health_response_frames:
  assumes "CHR 0x0D \<notin> set status"
  obtains head where "health_response status body = head @ body"
    "find_http_header_end (bytes_of_str (health_response status body)) = Some (length head)"
    "hd (split_crlf head) = ''HTTP/1.1 '' @ status" "''Content-Length: '' @ dec_str (length body) \<in> set (split_crlf head)"
proof -
  define ls where "ls = [''HTTP/1.1 '' @ status, ''Content-Type: application/json'',
    ''Content-Length: '' @ dec_str (length body), ''Cache-Control: no-store'', ''Connection: close'']"
  have ok: "\<forall>l \<in> set ls. l \<noteq> [] \<and> CHR 0x0D \<notin> set l" "ls \<noteq> []" using assms by (auto simp: ls_def)
  have eq: "health_response status body = header_of ls @ body" by (simp add: health_response_def header_of_def ls_def)
  show thesis
    using that [of "header_of ls"] header_of_end [OF ok, of body] header_of_lines [of ls] ok(1) by (simp add: eq) (simp add: ls_def)
qed

lemma health_body_reads:
  assumes "ai_str_to_json i server = Some t" "reads t (JStr server)"
    and "server = (case rc_server_id (sc_runtime_config ctx) of None \<Rightarrow> [] | Some s \<Rightarrow> s)"
  shows "reads (health_body i ctx) (JObj [(''status'', JStr ''ok''), (''server_id'', JStr server),
    (''uptime_seconds'', JNum (elapsed_secs i ctx)), (''version'', JStr ''1.5.0'')])"
proof -
  define fs where "fs = [str_field ''status'' ''ok'', (''server_id'', t, JStr server),
    num_field ''uptime_seconds'' (elapsed_secs i ctx), str_field ''version'' RELAY_VERSION]"
  have keys: "plain ''status''" "plain ''ok''" "plain ''server_id''" "plain ''uptime_seconds''" "plain ''version''" "plain RELAY_VERSION"
    by code_simp+
  have "\<forall>f \<in> set fs. plain (fst f) \<and> reads (fst (snd f)) (snd (snd f))" "fs \<noteq> []"
    using assms(2) keys field_reads by (simp_all add: fs_def)
  from reads_obj [OF this] show ?thesis
    unfolding health_body_def Let_def assms(3) [symmetric] assms(1)
    by (simp add: fs_def str_field_def num_field_def field_text_def field_value_def RELAY_VERSION_def)
qed

text \<open>
  C34. A request whose path starts with /health gets a well-framed 200 response whose
  body, read back as JSON, is exactly the status, the server name, the uptime in seconds
  and the version, and depends on nothing else; the encoding of the server name is the
  one serde_json gives.
\<close>

theorem health_probe_reports_only_identity:
  assumes "take 7 (health_path (health_request r)) = ''/health''"
    and "server = (case rc_server_id (sc_runtime_config ctx) of None \<Rightarrow> [] | Some s \<Rightarrow> s)"
    and "ai_str_to_json i server = Some t" "reads t (JStr server)"
  shows "\<exists>head body. health_http_client i r ctx = head @ body \<and>
    find_http_header_end (bytes_of_str (health_http_client i r ctx)) = Some (length head) \<and>
    hd (split_crlf head) = ''HTTP/1.1 200 OK'' \<and> ''Content-Length: '' @ dec_str (length body) \<in> set (split_crlf head) \<and>
    json_read (length body) body = Some (JObj [(''status'', JStr ''ok''), (''server_id'', JStr server),
      (''uptime_seconds'', JNum ((ai_now i - sc_started_at ctx) div 1000000000)), (''version'', JStr ''1.5.0'')], [])"
proof -
  have up: "elapsed_secs i ctx = (ai_now i - sc_started_at ctx) div 1000000000"
    by (simp add: elapsed_secs_def saturating_duration_since_def duration_secs_def)
  obtain head where head: "health_response ''200 OK'' (health_body i ctx) = head @ health_body i ctx"
    "find_http_header_end (bytes_of_str (health_response ''200 OK'' (health_body i ctx))) = Some (length head)"
    "hd (split_crlf head) = ''HTTP/1.1 '' @ ''200 OK''" "''Content-Length: '' @ dec_str (length (health_body i ctx)) \<in> set (split_crlf head)"
    by (rule health_response_frames [of "''200 OK''" "health_body i ctx"]) auto
  have "json_read (length (health_body i ctx)) (health_body i ctx @ []) = Some (JObj [(''status'', JStr ''ok''), (''server_id'', JStr server),
    (''uptime_seconds'', JNum (elapsed_secs i ctx)), (''version'', JStr ''1.5.0'')], [])"
    using health_body_reads [OF assms(3,4,2)] unfolding reads_def by (metis no_digit_simps(1) order_refl)
  then show ?thesis using head assms(1) unfolding health_http_client_def up by auto
qed

section \<open>Witnesses\<close>

definition sample_runtime :: relay_runtime_config where
  "sample_runtime = build_runtime_config V1 51821 51822
     \<lparr>ac_mode = AuthOff, ac_public_key = None, ac_server_id = Some ''eu1''\<rparr> False False
     \<lparr>requested_rcvbuf_bytes = 0, requested_sndbuf_bytes = 0, effective_rcvbuf_bytes = 0, effective_sndbuf_bytes = 0\<rparr>
     512 (relay_v2_tuning 4 (\<lambda>_. None))"

definition sample_context :: stats_api_context where
  "sample_context = stats_api_context_new sample_rows sample_counts stats_new sample_runtime 7 1000"

definition sample_input :: api_input where
  "sample_input = \<lparr>ai_to_string = (\<lambda>_. ''{}''), ai_str_to_json = (\<lambda>s. Some ([CHR 0x22] @ escape_json s @ [CHR 0x22])),
     ai_now = 2000000007, ai_now_unix = 1002, ai_mono_ms = 2000, ai_env = (\<lambda>_. None), ai_policy = dest_build Mode_Off None [443],
     ai_budgets = budgets_new sample_budget\<rparr>"

lemma sample_stream: "stream_bytes (map ReadData sample_request) = concat sample_request"
  using stream_bytes_pieces [of sample_request "[]"] by (simp add: sample_request_def bytes_of_str_def crlf_def)

theorem stats_api_needs_token_witness:
  "\<exists>out. (\<forall>i ctx. handle_stats_http_client_blocking ''u'' i (map ReadData sample_request) ctx = (out, ctx)) \<and> (\<forall>body. out \<noteq> Reply 200 ''OK'' body)"
proof -
  have "\<forall>n \<le> 8192. find_http_header_end (stream_bytes (map ReadData sample_request)) = Some n \<longrightarrow>
      http_method (take n (stream_bytes (map ReadData sample_request))) \<noteq> ''GET'' \<or>
      http_auth (take n (stream_bytes (map ReadData sample_request))) \<noteq> Some (''Bearer '' @ ''u'')"
    unfolding sample_stream using sample_request_end sample_request_parts(3) by auto
  from stats_api_needs_token [OF this] show ?thesis by blast
qed

definition sample_page :: bytes where
  "sample_page = bytes_of_str (stats_request ''/v1/connections'' [''Host: relay''] ''t'' [''Accept: *''])"

lemma sample_page_length: "length sample_page = 81"
  by (simp add: sample_page_def stats_request_def header_of_def crlf_def)

theorem stats_request_served_witness:
  "handle_stats_http_client_blocking ''t'' sample_input (map ReadData [take 10 sample_page, drop 10 sample_page @ [1, 2]]) sample_context =
     (Reply 200 ''OK'' (empty_connections_payload 1000), sample_context)"
proof -
  have "''/v1/connections'' \<in> set stats_paths" "sendable ''t''" "header_lines_ok ([''Host: relay''] @ [''Accept: *''])"
    by (simp_all add: stats_paths_def sendable_def header_lines_ok_def)
  moreover have "\<forall>l \<in> set [''Accept: *'']. \<not> names_authorization l" by code_simp
  moreover have "length (stats_request ''/v1/connections'' [''Host: relay''] ''t'' [''Accept: *'']) \<le> 8192"
    using sample_page_length by (simp add: sample_page_def)
  moreover have "concat [take 10 sample_page, drop 10 sample_page @ [1, 2]] =
      bytes_of_str (stats_request ''/v1/connections'' [''Host: relay''] ''t'' [''Accept: *'']) @ [1, 2]"
    by (simp add: sample_page_def)
  moreover have "[] \<notin> set [take 10 sample_page, drop 10 sample_page @ [1, 2]]" using sample_page_length by auto
  ultimately show ?thesis
    using stats_request_served [of "''/v1/connections''" "''t''" "[''Host: relay'']" "[''Accept: *'']"
        "[take 10 sample_page, drop 10 sample_page @ [1, 2]]" "[1, 2]" sample_input "[]" sample_context]
    by (simp add: stats_route_def render_connections_snapshot_payload_def sample_context_def stats_api_context_new_def)
qed

theorem handlers_agree_on_fresh_snapshot_witness:
  "handle_stats_http_client_blocking ''t'' sample_input (map ReadData [take 10 sample_page, drop 10 sample_page]) (connections_snapshot_updater sample_input sample_context) =
   handle_stats_http_client ''t'' sample_input (map ReadData [take 10 sample_page, drop 10 sample_page]) (connections_snapshot_updater sample_input sample_context)"
  by (rule handlers_agree_on_fresh_snapshot)
    (simp_all add: connections_snapshot_updater_def store_connections_snapshot_def render_live_connections_def)

theorem token_with_trailing_space_locks_out_witness:
  "get_stats_token (\<lambda>k. if k = ''RELAY_STATS_TOKEN'' then Some ''t '' else None) = Some ''t '' \<and>
   (\<exists>out. (\<forall>i ctx. handle_stats_http_client_blocking ''t '' i (map ReadData sample_request) ctx = (out, ctx)) \<and> (\<forall>body. out \<noteq> Reply 200 ''OK'' body))"
proof -
  have token: "get_stats_token (\<lambda>k. if k = ''RELAY_STATS_TOKEN'' then Some ''t '' else None) = Some ''t ''" by code_simp
  show ?thesis using token token_with_trailing_space_locks_out [OF token, of "''t''"] by simp
qed

theorem health_probe_reports_only_identity_witness:
  "\<exists>head body. health_http_client sample_input (ReadData (bytes_of_str ''GET /health HTTP/1.1'')) sample_context = head @ body \<and>
    json_read (length body) body = Some (JObj [(''status'', JStr ''ok''), (''server_id'', JStr ''eu1''),
      (''uptime_seconds'', JNum 2), (''version'', JStr ''1.5.0'')], [])"
proof -
  have words: "split_whitespace ''GET /health HTTP/1.1'' = [''GET'', ''/health'', ''HTTP/1.1'']" by code_simp
  have "from_utf8_lossy (bytes_of_str ''GET /health HTTP/1.1'') = ''GET /health HTTP/1.1''" by (rule lossy_ascii) simp
  then have path: "take 7 (health_path (health_request (ReadData (bytes_of_str ''GET /health HTTP/1.1'')))) = ''/health''"
    by (simp add: health_path_def health_request_def HEALTH_BUF_SIZE_def words take_all)
  have server: "''eu1'' = (case rc_server_id (sc_runtime_config sample_context) of None \<Rightarrow> [] | Some s \<Rightarrow> s)"
    by (simp add: sample_context_def stats_api_context_new_def sample_runtime_def build_runtime_config_def)
  have enc: "ai_str_to_json sample_input ''eu1'' = Some ([CHR 0x22] @ escape_json ''eu1'' @ [CHR 0x22])" by (simp add: sample_input_def)
  have "plain ''eu1''" by (simp add: is_control_def)
  then have "reads ([CHR 0x22] @ escape_json ''eu1'' @ [CHR 0x22]) (JStr ''eu1'')" by (rule reads_str)
  from health_probe_reports_only_identity [OF path server enc this] show ?thesis
    by (auto simp: sample_input_def sample_context_def stats_api_context_new_def)
qed

end
