(* ===== verification/Gate.thy ===== *)
theory Gate
  imports Session
begin

text \<open>
  Admission of a datagram: the first half of the receive loop, which both datapaths
  run before they look at the payload (\<^verbatim>\<open>src/src/main.rs\<close>, the receive loop of
  \<^verbatim>\<open>main\<close>, and its copy in \<^verbatim>\<open>run_datapath_v2\<close>).  A datagram is length-checked, a
  hello is verified, an unauthenticated sender is refused, the source limits and the
  capacities are applied, the session is created or refreshed, and a hello is
  answered.

  The tables the loop shares with the other tasks are the record \<open>gate\<close>; each
  datapath extends it with its own state.  How an acknowledgement leaves the relay
  differs between the datapaths, so it is the argument \<open>ack\<close>; the locale
  \<open>ack_channel\<close> states what the loop relies on: sending one leaves the tables alone.
\<close>

section \<open>Definitions\<close>

record gate =
  g_sessions :: sessions
  g_source_session_counts :: source_counts
  g_session_traffic :: traffic
  g_stats :: stats
  g_source_limiter :: source_rate_limiter
  g_pending_auth :: pending_auth_limiter
  g_replay_cache :: relay_ticket_replay_cache

record rx_config =
  c_ext :: ticket_ext
  c_auth :: relay_auth_config
  c_hash :: "ip_addr \<Rightarrow> nat"

text \<open>A received datagram, the clock readings of the iteration that handles it, and whether
  the socket takes the datagram the iteration sends.\<close>

record rx_event =
  ev_frame :: bytes
  ev_addr :: sock_addr
  ev_now :: instant
  ev_now_unix :: nat
  ev_later :: instant
  ev_mono_ms :: u64
  ev_send_ok :: bool

definition AUTH_HELLO_FRAME_TYPE :: u8 where
  "AUTH_HELLO_FRAME_TYPE = 0xA1"

definition AUTH_ACK_OK :: u8 where
  "AUTH_ACK_OK = 0"

definition AUTH_ACK_AUTH_DISABLED :: u8 where
  "AUTH_ACK_AUTH_DISABLED = 6"

definition AUTH_ACK_OWNER_MISMATCH :: u8 where
  "AUTH_ACK_OWNER_MISMATCH = 8"

definition AUTH_ACK_REAUTH_REQUIRED :: u8 where
  "AUTH_ACK_REAUTH_REQUIRED = 9"

definition ev_len :: "rx_event \<Rightarrow> nat" where
  "ev_len ev = length (ev_frame ev)"

definition ev_sid :: "rx_event \<Rightarrow> session_id" where
  "ev_sid ev = take SESSION_ID_LEN (ev_frame ev)"

definition is_auth_hello :: "rx_event \<Rightarrow> bool" where
  "is_auth_hello ev \<longleftrightarrow> ev_len ev \<ge> SESSION_ID_LEN + 3 \<and> ev_frame ev ! SESSION_ID_LEN = AUTH_HELLO_FRAME_TYPE"

definition g_drop_in :: "drop_reason \<Rightarrow> 'a gate_scheme \<Rightarrow> 'a gate_scheme" where
  "g_drop_in r g = g\<lparr>g_stats := drop_in r (g_stats g)\<rparr>"

definition g_drop_out :: "drop_reason \<Rightarrow> 'a gate_scheme \<Rightarrow> 'a gate_scheme" where
  "g_drop_out r g = g\<lparr>g_stats := drop_out r (g_stats g)\<rparr>"

definition g_count_in :: "nat \<Rightarrow> 'a gate_scheme \<Rightarrow> 'a gate_scheme" where
  "g_count_in n g =
     g\<lparr>g_stats := (g_stats g)\<lparr>packets_in := packets_in (g_stats g) + 1, bytes_in := bytes_in (g_stats g) + of_nat n\<rparr>\<rparr>"

definition g_pending_allow :: "rx_config \<Rightarrow> ip_addr \<Rightarrow> instant \<Rightarrow> 'a gate_scheme \<Rightarrow> bool \<times> 'a gate_scheme" where
  "g_pending_allow c ip now g =
     (let (ok, p) = pending_auth_limiter_allow (c_hash c) (g_pending_auth g) ip now
      in (ok, g\<lparr>g_pending_auth := p\<rparr>))"

definition g_allow_source_event ::
  "sock_addr \<Rightarrow> source_limit_kind \<Rightarrow> instant \<Rightarrow> 'a gate_scheme \<Rightarrow> bool \<times> 'a gate_scheme" where
  "g_allow_source_event addr kind now g =
     (let (ok, l, s) = allow_source_event (g_source_limiter g) (g_stats g) addr kind now
      in (ok, g\<lparr>g_source_limiter := l, g_stats := s\<rparr>))"

type_synonym 's ack_fun = "sock_addr \<Rightarrow> session_id \<Rightarrow> u8 \<Rightarrow> 's \<Rightarrow> 's"

text \<open>Verification of a hello; \<^term>\<open>None\<close> ends the iteration.\<close>

definition rx_verify ::
  "('a gate_scheme) ack_fun \<Rightarrow> rx_config \<Rightarrow> rx_event \<Rightarrow> 'a gate_scheme
    \<Rightarrow> verified_relay_ticket option option \<times> 'a gate_scheme" where
  "rx_verify ack c ev g =
     (if requires_auth (ac_mode (c_auth c)) \<and> is_auth_hello ev then
        let (ok, g) = g_pending_allow c (sock_ip (ev_addr ev)) (ev_now ev) g in
        if \<not> ok then (None, g_drop_in RateLimit g)
        else
          (case parse_auth_hello_token (ev_frame ev) (ev_len ev) of
             Inl err \<Rightarrow> (None, ack (ev_addr ev) (ev_sid ev) (ack_status err) g)
           | Inr token \<Rightarrow>
               let (result, cache) = verify_relay_ticket_once (c_ext c) token (ev_sid ev) (c_auth c)
                     (ev_now_unix ev) (g_replay_cache g);
                   g = g\<lparr>g_replay_cache := cache\<rparr>
               in (case result of
                     Inr ticket \<Rightarrow> (Some (Some ticket), g)
                   | Inl err \<Rightarrow> (None, ack (ev_addr ev) (ev_sid ev) (ack_status err) g)))
      else (Some None, g))"

text \<open>The refusal of a sender that is not the authenticated owner of the session.\<close>

definition rx_auth_check ::
  "('a gate_scheme) ack_fun \<Rightarrow> rx_config \<Rightarrow> rx_event \<Rightarrow> verified_relay_ticket option \<Rightarrow> 'a gate_scheme
    \<Rightarrow> bool \<times> 'a gate_scheme" where
  "rx_auth_check ack c ev verified_ticket g =
     (let auth = requires_auth (ac_mode (c_auth c));
          moved = (case dm_get (g_sessions g) (ev_sid ev) of
              None \<Rightarrow> False | Some s \<Rightarrow> client_addr s \<noteq> ev_addr ev);
          g = (if auth \<and> verified_ticket = None \<and> moved then
                 let (ok, g) = g_pending_allow c (sock_ip (ev_addr ev)) (ev_now ev) g
                 in if ok then ack (ev_addr ev) (ev_sid ev) AUTH_ACK_REAUTH_REQUIRED g else g
               else g);
          owner = (case dm_get (g_sessions g) (ev_sid ev) of
              None \<Rightarrow> False
            | Some s \<Rightarrow> session_auth_is_current s (ev_now_unix ev)
                \<and> authenticated_session_source_allowed s True (ev_addr ev) False)
      in if auth \<and> verified_ticket = None \<and> \<not> owner then (False, g_drop_in Auth g) else (True, g))"

text \<open>The source limits and, for a new session, the capacities.\<close>

definition rx_admit :: "rx_event \<Rightarrow> 'a gate_scheme \<Rightarrow> bool \<times> 'a gate_scheme" where
  "rx_admit ev g =
     (let (ok, g) = g_allow_source_event (ev_addr ev) KPacket (ev_now ev) g in
      if \<not> ok then (False, g)
      else if \<not> dm_contains (g_sessions g) (ev_sid ev) then
        let (ok, s) = v1_session_capacity_available (g_sessions g) (g_source_session_counts g) (g_stats g)
              (sock_ip (ev_addr ev));
            g = g\<lparr>g_stats := s\<rparr>
        in if \<not> ok then (False, g)
           else g_allow_source_event (ev_addr ev) KNewSession (ev_now ev) g
      else (True, g))"

text \<open>Whether the session is authenticated and its source allowed, and the refreshed session.\<close>

definition rx_touch_session ::
  "rx_config \<Rightarrow> rx_event \<Rightarrow> 'a gate_scheme \<Rightarrow> (bool \<times> bool) \<times> 'a gate_scheme" where
  "rx_touch_session c ev g =
     (let auth_required = requires_auth (ac_mode (c_auth c)); sid = ev_sid ev; addr = ev_addr ev in
      case dm_get (g_sessions g) sid of
        Some session \<Rightarrow>
          let authenticated = session_auth_is_current session (ev_now_unix ev);
              source_allowed = authenticated_session_source_allowed session auth_required addr (is_auth_hello ev)
          in ((authenticated, source_allowed),
              if \<not> auth_required \<or> (\<not> is_auth_hello ev \<and> client_addr session = addr) then
                g\<lparr>g_source_session_counts := update_source_session_count_for_rebind (g_source_session_counts g)
                     (sock_ip (client_addr session)) (sock_ip addr),
                  g_sessions := dm_insert sid (session\<lparr>client_addr := addr, last_activity := ev_now ev,
                     last_activity_unix := ev_now_unix ev\<rparr>) (g_sessions g)\<rparr>
              else g)
      | None \<Rightarrow>
          ((False, True),
           g\<lparr>g_sessions := dm_insert sid
                \<lparr>user_id = derive_user_id sid, auth_state = Legacy, lease_expires_at_unix = None,
                 client_addr = addr, created_at_unix = ev_now_unix ev, last_activity = ev_now ev,
                 last_activity_unix = ev_now_unix ev\<rparr> (g_sessions g),
             g_source_session_counts := increment_source_session_count (g_source_session_counts g) (sock_ip addr),
             g_stats := (g_stats g)\<lparr>active_sessions := active_sessions (g_stats g) + 1\<rparr>\<rparr>))"

text \<open>The answer to a hello, once its ticket is verified.\<close>

definition rx_hello ::
  "('a gate_scheme) ack_fun \<Rightarrow> rx_config \<Rightarrow> rx_event \<Rightarrow> verified_relay_ticket option \<Rightarrow> 'a gate_scheme
    \<Rightarrow> 'a gate_scheme" where
  "rx_hello ack c ev verified_ticket g =
     (let sid = ev_sid ev; addr = ev_addr ev in
      if ac_mode (c_auth c) = AuthOff then ack addr sid AUTH_ACK_AUTH_DISABLED g
      else
        (case verified_ticket of
           None \<Rightarrow> ack addr sid (ack_status BadFormat) g
         | Some ticket \<Rightarrow>
             let owner_conflict = (case dm_get (g_sessions g) sid of
                   None \<Rightarrow> False
                 | Some existing \<Rightarrow> auth_state existing = Authenticated \<and> user_id existing \<noteq> vt_user_id ticket)
             in if owner_conflict then ack addr sid AUTH_ACK_OWNER_MISMATCH g
                else
                  let g = (case dm_get (g_sessions g) sid of
                        None \<Rightarrow> g
                      | Some session \<Rightarrow>
                          g\<lparr>g_source_session_counts := update_source_session_count_for_rebind
                               (g_source_session_counts g) (sock_ip (client_addr session)) (sock_ip addr),
                            g_sessions := dm_insert sid
                               (session\<lparr>user_id := vt_user_id ticket, auth_state := Authenticated,
                                  lease_expires_at_unix := (if vt_lease ticket then Some (vt_exp ticket) else None),
                                  client_addr := addr, last_activity := ev_now ev,
                                  last_activity_unix := ev_now_unix ev\<rparr>) (g_sessions g)\<rparr>)
                  in ack addr sid AUTH_ACK_OK g))"

text \<open>The first half of an iteration; \<^term>\<open>Some a\<close> lets the payload through, with \<open>a\<close> the
  authentication of the session.\<close>

definition rx_gate ::
  "('a gate_scheme) ack_fun \<Rightarrow> rx_config \<Rightarrow> rx_event \<Rightarrow> 'a gate_scheme \<Rightarrow> bool option \<times> 'a gate_scheme" where
  "rx_gate ack c ev g =
     (let g = g_count_in (ev_len ev) g in
      if ev_len ev < SESSION_ID_LEN then (None, g_drop_in TooSmall g)
      else
        (case rx_verify ack c ev g of
           (None, g) \<Rightarrow> (None, g)
         | (Some verified_ticket, g) \<Rightarrow>
             let (ok, g) = rx_auth_check ack c ev verified_ticket g in
             if \<not> ok then (None, g)
             else
               let (ok, g) = rx_admit ev g in
               if \<not> ok then (None, g)
               else
                 let ((session_authenticated, session_source_allowed), g) = rx_touch_session c ev g;
                     g = g\<lparr>g_session_traffic := record_session_ingress (g_session_traffic g) (ev_sid ev)
                            (ev_now_unix ev) (ev_len ev)\<rparr>
                 in if is_auth_hello ev then (None, rx_hello ack c ev verified_ticket g)
                    else if \<not> session_source_allowed then (None, g_drop_in Auth g)
                    else (Some session_authenticated, g)))"

section \<open>The invariant of the tables\<close>

definition gate_ok :: "'a gate_scheme \<Rightarrow> bool" where
  "gate_ok g \<longleftrightarrow>
     counts_ok (g_sessions g) (g_source_session_counts g)
     \<and> dm_len (g_sessions g) \<le> MAX_SESSIONS_TOTAL
     \<and> active_sessions (g_stats g) = of_nat (dm_len (g_sessions g))
     \<and> drops_balanced (g_stats g)
     \<and> dm_ok (g_session_traffic g)
     \<and> limiter_ok (g_source_limiter g)
     \<and> pending_ok (g_pending_auth g)
     \<and> dm_ok (seen_jti (g_replay_cache g))"

definition gate_new :: "instant \<Rightarrow> gate" where
  "gate_new now =
     \<lparr>g_sessions = [], g_source_session_counts = [], g_session_traffic = [], g_stats = stats_new,
      g_source_limiter = source_rate_limiter_new now, g_pending_auth = pending_auth_limiter_new now,
      g_replay_cache = replay_cache_new\<rparr>"

lemma gate_new_ok: "gate_ok (gate_new now)"
  by (simp add: gate_ok_def gate_new_def dm_len_def stats_new_def replay_cache_new_def
      drops_balanced_new [unfolded stats_new_def])

text \<open>What the counters and limiters of a step leave alone.\<close>

definition same_tables :: "'a gate_scheme \<Rightarrow> 'a gate_scheme \<Rightarrow> bool" where
  "same_tables g h \<longleftrightarrow>
     g_sessions g = g_sessions h \<and> g_source_session_counts g = g_source_session_counts h
     \<and> g_session_traffic g = g_session_traffic h"

lemma same_tables_refl [simp]: "same_tables g g"
  by (simp add: same_tables_def)

lemma same_tables_trans: "same_tables g h \<Longrightarrow> same_tables h k \<Longrightarrow> same_tables g k"
  by (simp add: same_tables_def)

lemma drops_balanced_in_count [simp]:
  "drops_balanced (s\<lparr>packets_in := a, bytes_in := b\<rparr>) = drops_balanced s"
  "drops_balanced (s\<lparr>packets_out := a, bytes_out := b\<rparr>) = drops_balanced s"
  "drops_balanced (s\<lparr>throttled_users := c\<rparr>) = drops_balanced s"
  "drops_balanced (s\<lparr>active_sessions := d\<rparr>) = drops_balanced s"
  "drops_balanced (s\<lparr>active_flows := d\<rparr>) = drops_balanced s"
  "drops_balanced (s\<lparr>tcp_forwarded := d\<rparr>) = drops_balanced s"
  "drops_balanced (s\<lparr>tun_udp_forwarded := d\<rparr>) = drops_balanced s"
  "drops_balanced (s\<lparr>pool_exhausted := d\<rparr>) = drops_balanced s"
  by (simp_all add: drops_balanced_def)

lemma gate_ok_g_drop_in [simp]: "gate_ok (g_drop_in r g) = gate_ok g"
  by (simp add: gate_ok_def g_drop_in_def)

lemma gate_ok_g_drop_out [simp]: "gate_ok (g_drop_out r g) = gate_ok g"
  by (simp add: gate_ok_def g_drop_out_def)

lemma gate_ok_g_count_in [simp]: "gate_ok (g_count_in n g) = gate_ok g"
  by (simp add: gate_ok_def g_count_in_def)

lemma tables_g_ops [simp]:
  "g_sessions (g_drop_in r g) = g_sessions g" "g_source_session_counts (g_drop_in r g) = g_source_session_counts g"
  "g_session_traffic (g_drop_in r g) = g_session_traffic g"
  "g_sessions (g_drop_out r g) = g_sessions g" "g_source_session_counts (g_drop_out r g) = g_source_session_counts g"
  "g_session_traffic (g_drop_out r g) = g_session_traffic g"
  "g_sessions (g_count_in n g) = g_sessions g" "g_source_session_counts (g_count_in n g) = g_source_session_counts g"
  "g_session_traffic (g_count_in n g) = g_session_traffic g"
  by (simp_all add: g_drop_in_def g_drop_out_def g_count_in_def)

lemma pending_allow_ok [simp]: "gate_ok g \<Longrightarrow> gate_ok (snd (g_pending_allow c ip now g))"
  using pending_step_ok [of "g_pending_auth g" "c_hash c" "(ip, now)"]
  by (simp add: g_pending_allow_def gate_ok_def pending_step_def split_beta Let_def)

lemma pending_allow_tables [simp]:
  "g_sessions (snd (g_pending_allow c ip now g)) = g_sessions g"
  "g_source_session_counts (snd (g_pending_allow c ip now g)) = g_source_session_counts g"
  "g_session_traffic (snd (g_pending_allow c ip now g)) = g_session_traffic g"
  "g_stats (snd (g_pending_allow c ip now g)) = g_stats g"
  by (simp_all add: g_pending_allow_def split_beta Let_def)

lemma source_event_ok [simp]: "gate_ok g \<Longrightarrow> gate_ok (snd (g_allow_source_event addr kind now g))"
  using limiter_step_ok [of "g_source_limiter g" "(sock_ip addr, kind, now)"]
  by (simp add: g_allow_source_event_def allow_source_event_def gate_ok_def limiter_step_def split_beta Let_def)

lemma source_event_tables [simp]:
  "g_sessions (snd (g_allow_source_event addr kind now g)) = g_sessions g"
  "g_source_session_counts (snd (g_allow_source_event addr kind now g)) = g_source_session_counts g"
  "g_session_traffic (snd (g_allow_source_event addr kind now g)) = g_session_traffic g"
  by (simp_all add: g_allow_source_event_def split_beta Let_def)

lemma replay_cache_ok [simp]:
  "gate_ok g \<Longrightarrow> gate_ok (g\<lparr>g_replay_cache := snd (verify_relay_ticket_once ext token sid auth now (g_replay_cache g))\<rparr>)"
  by (simp add: gate_ok_def verify_once_ok)

lemma capacity_stats_ok [simp]:
  "gate_ok g \<Longrightarrow> gate_ok (g\<lparr>g_stats := snd (v1_session_capacity_available ss counts (g_stats g) ip)\<rparr>)"
  by (simp add: gate_ok_def v1_session_capacity_available_def)

lemma rx_admit_ok [simp]: "gate_ok g \<Longrightarrow> gate_ok (snd (rx_admit ev g))"
  by (simp add: rx_admit_def split_beta Let_def)

lemma rx_admit_tables [simp]:
  "g_sessions (snd (rx_admit ev g)) = g_sessions g"
  "g_source_session_counts (snd (rx_admit ev g)) = g_source_session_counts g"
  "g_session_traffic (snd (rx_admit ev g)) = g_session_traffic g"
  by (simp_all add: rx_admit_def split_beta Let_def)

text \<open>A session is created only below both capacities.\<close>

lemma rx_admit_capacity:
  "fst (rx_admit ev g) \<Longrightarrow> dm_get (g_sessions g) (ev_sid ev) = None \<Longrightarrow>
     dm_len (g_sessions g) < MAX_SESSIONS_TOTAL \<and>
     source_session_count (g_source_session_counts g) (sock_ip (ev_addr ev)) < MAX_SESSIONS_PER_SRC_IP"
  by (auto simp: rx_admit_def split_beta Let_def v1_session_capacity_available_def dm_contains_get split: if_splits)

lemma touch_session_ok:
  assumes "gate_ok g" "dm_get (g_sessions g) (ev_sid ev) = None \<Longrightarrow> dm_len (g_sessions g) < MAX_SESSIONS_TOTAL"
  shows "gate_ok (snd (rx_touch_session c ev g))"
proof (cases "dm_get (g_sessions g) (ev_sid ev)")
  case None
  have ok: "dm_ok (g_sessions g)" using assms(1) by (simp add: gate_ok_def counts_ok_def)
  let ?s = "\<lparr>user_id = derive_user_id (ev_sid ev), auth_state = Legacy, lease_expires_at_unix = None,
    client_addr = ev_addr ev, created_at_unix = ev_now_unix ev, last_activity = ev_now ev,
    last_activity_unix = ev_now_unix ev\<rparr>"
  have "counts_ok (dm_insert (ev_sid ev) ?s (g_sessions g))
    (increment_source_session_count (g_source_session_counts g) (sock_ip (ev_addr ev)))"
    using counts_ok_insert_new [of "g_sessions g" "g_source_session_counts g" "ev_sid ev" ?s] assms(1) None
    by (simp add: gate_ok_def)
  thus ?thesis using assms None dm.entries_insert_new [OF ok None]
    by (simp add: rx_touch_session_def gate_ok_def Let_def add.commute)
next
  case (Some s)
  have ok: "dm_ok (g_sessions g)" using assms(1) by (simp add: gate_ok_def counts_ok_def)
  let ?s = "s\<lparr>client_addr := ev_addr ev, last_activity := ev_now ev, last_activity_unix := ev_now_unix ev\<rparr>"
  have "counts_ok (dm_insert (ev_sid ev) ?s (g_sessions g))
    (update_source_session_count_for_rebind (g_source_session_counts g) (sock_ip (client_addr s)) (sock_ip (ev_addr ev)))"
    using counts_ok_rebind [of "g_sessions g" "g_source_session_counts g" "ev_sid ev" s ?s] assms(1) Some
    by (simp add: gate_ok_def)
  thus ?thesis using assms(1) Some dm.entries_insert_old [OF ok Some]
    by (simp add: rx_touch_session_def gate_ok_def Let_def)
qed

lemma traffic_ok [simp]: "dm_ok tr \<Longrightarrow> dm_ok (record_session_ingress tr sid a b)"
  "dm_ok tr \<Longrightarrow> dm_ok (record_session_egress tr sid b)" "dm_ok tr \<Longrightarrow> dm_ok (touch_session_traffic tr sid a)"
  by (simp_all add: record_session_ingress_def record_session_egress_def touch_session_traffic_def Let_def split: option.splits)

lemma ingress_ok [simp]:
  "gate_ok g \<Longrightarrow> gate_ok (g\<lparr>g_session_traffic := record_session_ingress (g_session_traffic g) sid a b\<rparr>)"
  by (simp add: gate_ok_def)

text \<open>The session of the datagram after the refresh, and every other session.\<close>

definition touched :: "rx_config \<Rightarrow> rx_event \<Rightarrow> session_entry option \<Rightarrow> session_entry" where
  "touched c ev old =
     (case old of
        None \<Rightarrow> \<lparr>user_id = derive_user_id (ev_sid ev), auth_state = Legacy, lease_expires_at_unix = None,
           client_addr = ev_addr ev, created_at_unix = ev_now_unix ev, last_activity = ev_now ev,
           last_activity_unix = ev_now_unix ev\<rparr>
      | Some s \<Rightarrow>
          if \<not> requires_auth (ac_mode (c_auth c)) \<or> (\<not> is_auth_hello ev \<and> client_addr s = ev_addr ev)
          then s\<lparr>client_addr := ev_addr ev, last_activity := ev_now ev, last_activity_unix := ev_now_unix ev\<rparr>
          else s)"

lemma touch_session_get:
  "dm_get (g_sessions (snd (rx_touch_session c ev g))) sid =
     (if sid = ev_sid ev then Some (touched c ev (dm_get (g_sessions g) sid)) else dm_get (g_sessions g) sid)"
  by (auto simp: rx_touch_session_def touched_def Let_def split: option.splits)

lemma touch_session_fst:
  "fst (rx_touch_session c ev g) =
     (case dm_get (g_sessions g) (ev_sid ev) of
        None \<Rightarrow> (False, True)
      | Some s \<Rightarrow> (session_auth_is_current s (ev_now_unix ev),
          authenticated_session_source_allowed s (requires_auth (ac_mode (c_auth c))) (ev_addr ev) (is_auth_hello ev)))"
  by (auto simp: rx_touch_session_def Let_def split: option.splits)

definition hello_entry :: "verified_relay_ticket \<Rightarrow> rx_event \<Rightarrow> session_entry \<Rightarrow> session_entry" where
  "hello_entry ticket ev s =
     s\<lparr>user_id := vt_user_id ticket, auth_state := Authenticated,
       lease_expires_at_unix := (if vt_lease ticket then Some (vt_exp ticket) else None),
       client_addr := ev_addr ev, last_activity := ev_now ev, last_activity_unix := ev_now_unix ev\<rparr>"

text \<open>An acknowledgement leaves the tables and the invariant alone.\<close>

locale ack_channel =
  fixes ack :: "('a gate_scheme) ack_fun"
  assumes ack_ok [simp]: "gate_ok g \<Longrightarrow> gate_ok (ack addr sid status g)"
    and ack_tables: "same_tables (ack addr sid status g) g"
begin

lemma ack_sessions [simp]:
  "g_sessions (ack addr sid status g) = g_sessions g"
  "g_source_session_counts (ack addr sid status g) = g_source_session_counts g"
  "g_session_traffic (ack addr sid status g) = g_session_traffic g"
  using ack_tables [of addr sid status g] by (simp_all add: same_tables_def)

lemma rx_verify_ok [simp]: "gate_ok g \<Longrightarrow> gate_ok (snd (rx_verify ack c ev g))"
  by (simp add: rx_verify_def split_beta Let_def split: sum.split)

lemma rx_verify_tables [simp]:
  "g_sessions (snd (rx_verify ack c ev g)) = g_sessions g"
  "g_source_session_counts (snd (rx_verify ack c ev g)) = g_source_session_counts g"
  "g_session_traffic (snd (rx_verify ack c ev g)) = g_session_traffic g"
  by (simp_all add: rx_verify_def split_beta Let_def split: sum.split)

text \<open>A ticket is handed on only for a hello whose token verifies for the session.\<close>

lemma rx_verify_ticket:
  "fst (rx_verify ack c ev g) = Some (Some ticket) \<Longrightarrow>
     is_auth_hello ev \<and> requires_auth (ac_mode (c_auth c)) \<and>
     (\<exists>token. parse_auth_hello_token (ev_frame ev) (ev_len ev) = Inr token \<and>
        verify_relay_ticket (c_ext c) token (ev_sid ev) (c_auth c) (ev_now_unix ev) = Inr ticket)"
  using verify_once_records(1)
  by (auto simp: rx_verify_def split_beta Let_def split: sum.splits if_splits)

lemma rx_verify_none:
  "fst (rx_verify ack c ev g) = Some None \<Longrightarrow> \<not> (is_auth_hello ev \<and> requires_auth (ac_mode (c_auth c)))"
  by (auto simp: rx_verify_def split_beta Let_def split: sum.splits if_splits)

lemma rx_auth_check_ok [simp]: "gate_ok g \<Longrightarrow> gate_ok (snd (rx_auth_check ack c ev v g))"
  by (simp add: rx_auth_check_def split_beta Let_def)

lemma rx_auth_check_tables [simp]:
  "g_sessions (snd (rx_auth_check ack c ev v g)) = g_sessions g"
  "g_source_session_counts (snd (rx_auth_check ack c ev v g)) = g_source_session_counts g"
  "g_session_traffic (snd (rx_auth_check ack c ev v g)) = g_session_traffic g"
  by (simp_all add: rx_auth_check_def split_beta Let_def)

text \<open>Without a ticket only the authenticated owner, from its bound address, passes.\<close>

lemma rx_auth_check_owner:
  assumes "fst (rx_auth_check ack c ev None g)" "requires_auth (ac_mode (c_auth c))"
  shows "\<exists>s. dm_get (g_sessions g) (ev_sid ev) = Some s \<and> session_auth_is_current s (ev_now_unix ev)
    \<and> client_addr s = ev_addr ev"
proof -
  have "case dm_get (g_sessions g) (ev_sid ev) of None \<Rightarrow> False
    | Some s \<Rightarrow> session_auth_is_current s (ev_now_unix ev) \<and> authenticated_session_source_allowed s True (ev_addr ev) False"
    using assms by (simp add: rx_auth_check_def split_beta Let_def split: if_splits)
  thus ?thesis
    by (auto simp: authenticated_session_source_allowed_def session_auth_is_current_def split: option.splits)
qed

lemma rx_hello_get:
  "dm_get (g_sessions (rx_hello ack c ev v g)) sid =
     (case dm_get (g_sessions g) sid of
        None \<Rightarrow> None
      | Some s \<Rightarrow> Some (case v of
          None \<Rightarrow> s
        | Some ticket \<Rightarrow>
            if sid = ev_sid ev \<and> ac_mode (c_auth c) \<noteq> AuthOff
               \<and> \<not> (auth_state s = Authenticated \<and> user_id s \<noteq> vt_user_id ticket)
            then hello_entry ticket ev s else s))"
  by (auto simp: rx_hello_def Let_def hello_entry_def split: option.splits)

lemma rx_hello_ok:
  assumes "gate_ok g"
  shows "gate_ok (rx_hello ack c ev v g)"
proof (cases "ac_mode (c_auth c) = AuthOff \<or> v = None \<or> dm_get (g_sessions g) (ev_sid ev) = None")
  case True
  thus ?thesis using assms by (auto simp: rx_hello_def Let_def split: option.splits)
next
  case False
  then obtain ticket s where v: "v = Some ticket" "dm_get (g_sessions g) (ev_sid ev) = Some s" by auto
  let ?s = "hello_entry ticket ev s"
  let ?g = "g\<lparr>g_source_session_counts := update_source_session_count_for_rebind
      (g_source_session_counts g) (sock_ip (client_addr s)) (sock_ip (ev_addr ev)),
      g_sessions := dm_insert (ev_sid ev) ?s (g_sessions g)\<rparr>"
  have ok: "dm_ok (g_sessions g)" using assms by (simp add: gate_ok_def counts_ok_def)
  have "counts_ok (g_sessions ?g) (g_source_session_counts ?g)"
    using counts_ok_rebind [of "g_sessions g" "g_source_session_counts g" "ev_sid ev" s ?s] assms v(2)
    by (simp add: gate_ok_def hello_entry_def)
  hence "gate_ok ?g" using assms dm.entries_insert_old [OF ok v(2)] by (simp add: gate_ok_def)
  thus ?thesis using assms v False by (simp add: rx_hello_def Let_def hello_entry_def)
qed

theorem rx_gate_ok: "gate_ok g \<Longrightarrow> gate_ok (snd (rx_gate ack c ev g))"
proof -
  assume g: "gate_ok g"
  let ?g0 = "g_count_in (ev_len ev) g"
  obtain v g1 where v: "rx_verify ack c ev ?g0 = (v, g1)" by (cases "rx_verify ack c ev ?g0")
  have g1: "gate_ok g1" "g_sessions g1 = g_sessions g"
    using rx_verify_ok [of ?g0 c ev] rx_verify_tables(1) [of c ev ?g0] g v by simp_all
  show ?thesis
  proof (cases "ev_len ev < SESSION_ID_LEN \<or> v = None")
    case True
    thus ?thesis using g g1 v by (auto simp: rx_gate_def Let_def)
  next
    case False
    then obtain t where t: "v = Some t" by auto
    let ?a = "rx_auth_check ack c ev t g1"
    let ?b = "rx_admit ev (snd ?a)"
    have b: "gate_ok (snd ?a)" "gate_ok (snd ?b)" using g1 by simp_all
    have "fst ?b \<Longrightarrow> gate_ok (snd (rx_touch_session c ev (snd ?b)))"
      using b(2) rx_admit_capacity [of ev "snd ?a"] by (intro touch_session_ok) auto
    thus ?thesis using False t v b
      by (simp add: rx_gate_def Let_def split_beta rx_hello_ok)
  qed
qed

text \<open>The stages an iteration that reaches the sessions has passed.\<close>

lemma rx_gate_stages:
  obtains (stop) "fst (rx_gate ack c ev g) = None" "g_sessions (snd (rx_gate ack c ev g)) = g_sessions g"
  | (hello) v and g' :: "'a gate_scheme" where "is_auth_hello ev" "fst (rx_gate ack c ev g) = None"
      "fst (rx_verify ack c ev (g_count_in (ev_len ev) g)) = Some v" "g_sessions g' = g_sessions g"
      "snd (rx_gate ack c ev g) = rx_hello ack c ev v (snd (rx_touch_session c ev g')
         \<lparr>g_session_traffic := record_session_ingress (g_session_traffic (snd (rx_touch_session c ev g')))
            (ev_sid ev) (ev_now_unix ev) (ev_len ev)\<rparr>)"
  | (payload) v and g' :: "'a gate_scheme" and g'' :: "'a gate_scheme" where "\<not> is_auth_hello ev" "fst (rx_gate ack c ev g) \<in> {None, Some (fst (fst (rx_touch_session c ev g')))}"
      "fst (rx_verify ack c ev (g_count_in (ev_len ev) g)) = Some v" "g_sessions g' = g_sessions g"
      "fst (rx_auth_check ack c ev v g'')" "g_sessions g'' = g_sessions g"
      "g_sessions (snd (rx_gate ack c ev g)) = g_sessions (snd (rx_touch_session c ev g'))"
proof -
  let ?g0 = "g_count_in (ev_len ev) g"
  obtain v g1 where v: "rx_verify ack c ev ?g0 = (v, g1)" by (cases "rx_verify ack c ev ?g0")
  have g1: "g_sessions g1 = g_sessions g" using rx_verify_tables(1) [of c ev ?g0] v by simp
  show thesis
  proof (cases "ev_len ev < SESSION_ID_LEN \<or> v = None")
    case True
    thus ?thesis using g1 v by (intro stop) (auto simp: rx_gate_def Let_def)
  next
    case False
    then obtain t where t: "v = Some t" by auto
    let ?a = "rx_auth_check ack c ev t g1"
    let ?b = "rx_admit ev (snd ?a)"
    consider (no) "\<not> fst ?a \<or> \<not> fst ?b" | (yes) "fst ?a" "fst ?b" by blast
    thus ?thesis
    proof cases
      case no
      thus ?thesis using False t v g1 by (intro stop) (auto simp: rx_gate_def Let_def split_beta)
    next
      case yes
      show ?thesis
      proof (cases "is_auth_hello ev")
        case True
        thus ?thesis using yes False t v g1
          by (intro hello [of t "snd ?b"]) (simp_all add: rx_gate_def Let_def split_beta)
      next
        case h: False
        show ?thesis using yes h False t v g1
          by (intro payload [of "snd ?b" t g1]) (simp_all add: rx_gate_def Let_def split_beta)
      qed
    qed
  qed
qed

text \<open>A payload passes only for the authenticated owner, from the address it is bound to.\<close>

lemma rx_gate_payload_owner:
  assumes "fst (rx_gate ack c ev g) = Some a" "requires_auth (ac_mode (c_auth c))"
  shows "a \<and> (\<exists>s. dm_get (g_sessions g) (ev_sid ev) = Some s \<and> session_auth_is_current s (ev_now_unix ev)
    \<and> client_addr s = ev_addr ev)"
proof (cases rule: rx_gate_stages [of c ev g])
  case (payload v g' g'')
  have "v = None" using payload(1,3) rx_verify_ticket [of c ev "g_count_in (ev_len ev) g"] by (cases v) auto
  then obtain s where s: "dm_get (g_sessions g) (ev_sid ev) = Some s" "session_auth_is_current s (ev_now_unix ev)"
    "client_addr s = ev_addr ev"
    using rx_auth_check_owner [of c ev g''] payload(5,6) assms(2) by auto
  moreover have "a = fst (fst (rx_touch_session c ev g'))" using payload(2) assms(1) by auto
  ultimately show ?thesis using payload(4) by (simp add: touch_session_fst)
qed (use assms(1) in simp_all)

text \<open>What an iteration does to one entry of the session table.\<close>

lemma rx_gate_entry:
  "dm_get (g_sessions (snd (rx_gate ack c ev g))) sid = dm_get (g_sessions g) sid \<or>
   (sid = ev_sid ev \<and>
     dm_get (g_sessions (snd (rx_gate ack c ev g))) sid = Some (touched c ev (dm_get (g_sessions g) sid))) \<or>
   (sid = ev_sid ev \<and> (\<exists>token ticket.
     parse_auth_hello_token (ev_frame ev) (ev_len ev) = Inr token \<and>
     verify_relay_ticket (c_ext c) token sid (c_auth c) (ev_now_unix ev) = Inr ticket \<and>
     \<not> (auth_state (touched c ev (dm_get (g_sessions g) sid)) = Authenticated \<and>
        user_id (touched c ev (dm_get (g_sessions g) sid)) \<noteq> vt_user_id ticket) \<and>
     dm_get (g_sessions (snd (rx_gate ack c ev g))) sid =
       Some (hello_entry ticket ev (touched c ev (dm_get (g_sessions g) sid)))))"
proof (cases rule: rx_gate_stages [of c ev g])
  case stop
  thus ?thesis by simp
next
  case (payload v g' g'')
  show ?thesis using payload(4) by (auto simp: payload(7) touch_session_get)
next
  case (hello v g')
  let ?t = "touched c ev (dm_get (g_sessions g) sid)"
  show ?thesis
  proof (cases "sid = ev_sid ev")
    case False
    thus ?thesis by (simp add: hello(4,5) rx_hello_get touch_session_get split: option.splits)
  next
    case True
    show ?thesis
    proof (cases v)
      case None
      thus ?thesis using True by (simp add: hello(4,5) rx_hello_get touch_session_get)
    next
      case (Some ticket)
      have "\<exists>token. parse_auth_hello_token (ev_frame ev) (ev_len ev) = Inr token \<and>
          verify_relay_ticket (c_ext c) token sid (c_auth c) (ev_now_unix ev) = Inr ticket"
        using rx_verify_ticket [of c ev "g_count_in (ev_len ev) g" ticket] hello(3) Some True by simp
      thus ?thesis using True Some
        by (auto simp: hello(4,5) rx_hello_get touch_session_get)
    qed
  qed
qed

end

text \<open>An authenticated session keeps its owner, and moves only with a ticket of that owner.\<close>

definition keeps_owner :: "rx_config \<Rightarrow> rx_event \<Rightarrow> session_id \<Rightarrow> session_entry \<Rightarrow> session_entry \<Rightarrow> bool" where
  "keeps_owner c ev sid s s' \<longleftrightarrow>
     auth_state s' = Authenticated \<and> user_id s' = user_id s \<and>
     ((client_addr s' = client_addr s \<and> lease_expires_at_unix s' = lease_expires_at_unix s) \<or>
      (sid = ev_sid ev \<and> client_addr s' = ev_addr ev \<and> (\<exists>token ticket.
         parse_auth_hello_token (ev_frame ev) (ev_len ev) = Inr token \<and>
         verify_relay_ticket (c_ext c) token sid (c_auth c) (ev_now_unix ev) = Inr ticket \<and>
         vt_user_id ticket = user_id s \<and>
         lease_expires_at_unix s' = (if vt_lease ticket then Some (vt_exp ticket) else None))))"

context ack_channel
begin

lemma rx_gate_keeps_owner:
  assumes "requires_auth (ac_mode (c_auth c))" "dm_get (g_sessions g) sid = Some s" "auth_state s = Authenticated"
  shows "\<exists>s'. dm_get (g_sessions (snd (rx_gate ack c ev g))) sid = Some s' \<and> keeps_owner c ev sid s s'"
proof -
  let ?t = "touched c ev (Some s)" and ?g = "g_sessions (snd (rx_gate ack c ev g))"
  have t: "auth_state ?t = Authenticated" "user_id ?t = user_id s" "client_addr ?t = client_addr s"
    "lease_expires_at_unix ?t = lease_expires_at_unix s"
    using assms by (auto simp: touched_def)
  consider (same) "dm_get ?g sid = Some s" | (touch) "dm_get ?g sid = Some ?t"
    | (hello) token ticket where "sid = ev_sid ev" "parse_auth_hello_token (ev_frame ev) (ev_len ev) = Inr token"
      "verify_relay_ticket (c_ext c) token sid (c_auth c) (ev_now_unix ev) = Inr ticket"
      "vt_user_id ticket = user_id s" "dm_get ?g sid = Some (hello_entry ticket ev ?t)"
    using rx_gate_entry [of c ev g sid] assms(2) t by auto
  thus ?thesis
  proof cases
    case same
    thus ?thesis using assms by (simp add: keeps_owner_def)
  next
    case touch
    thus ?thesis using t by (simp add: keeps_owner_def)
  next
    case hello
    thus ?thesis using t by (auto simp: keeps_owner_def hello_entry_def)
  qed
qed

text \<open>A session becomes authenticated only with a ticket, and then belongs to its user.\<close>

lemma rx_gate_authenticates:
  assumes "dm_get (g_sessions (snd (rx_gate ack c ev g))) sid = Some s'" "auth_state s' = Authenticated"
    and "\<not> (\<exists>s. dm_get (g_sessions g) sid = Some s \<and> auth_state s = Authenticated)"
  shows "sid = ev_sid ev \<and> (\<exists>token ticket.
    parse_auth_hello_token (ev_frame ev) (ev_len ev) = Inr token \<and>
    verify_relay_ticket (c_ext c) token sid (c_auth c) (ev_now_unix ev) = Inr ticket \<and>
    user_id s' = vt_user_id ticket \<and> client_addr s' = ev_addr ev)"
proof -
  let ?t = "touched c ev (dm_get (g_sessions g) sid)"
  have "auth_state ?t \<noteq> Authenticated" using assms(3) by (auto simp: touched_def split: option.splits)
  thus ?thesis using rx_gate_entry [of c ev g sid] assms by (auto simp: hello_entry_def)
qed

end

text \<open>
  What admission leaves alone in the state of a datapath: a property that the writes to
  the shared tables and the sending of an acknowledgement for one session to one address
  keep holds after the admission of a datagram for that session from that address.
\<close>

locale gate_frame =
  fixes ack :: "('a gate_scheme) ack_fun"
    and P :: "'a gate_scheme \<Rightarrow> bool"
    and addr :: sock_addr
    and sid :: session_id
  assumes ack_P: "P g \<Longrightarrow> P (ack addr sid status g)"
    and sessions_P: "P g \<Longrightarrow> P (g\<lparr>g_sessions := ss\<rparr>)"
    and counts_P: "P g \<Longrightarrow> P (g\<lparr>g_source_session_counts := counts\<rparr>)"
    and traffic_P: "P g \<Longrightarrow> P (g\<lparr>g_session_traffic := tr\<rparr>)"
    and stats_P: "P g \<Longrightarrow> P (g\<lparr>g_stats := st\<rparr>)"
    and limiter_P: "P g \<Longrightarrow> P (g\<lparr>g_source_limiter := l\<rparr>)"
    and pending_P: "P g \<Longrightarrow> P (g\<lparr>g_pending_auth := p\<rparr>)"
    and cache_P: "P g \<Longrightarrow> P (g\<lparr>g_replay_cache := rc\<rparr>)"
begin

lemmas frame_rules = ack_P sessions_P counts_P traffic_P stats_P limiter_P pending_P cache_P

lemma frame_ops:
  assumes "P g"
  shows "P (g_drop_in r g)" "P (g_count_in n g)" "P (snd (g_pending_allow c ip now g))"
    "P (snd (g_allow_source_event a kind now g))"
  using assms
  by (simp_all add: g_drop_in_def g_count_in_def g_pending_allow_def g_allow_source_event_def split_beta Let_def frame_rules)

lemma frame_verify: "ev_addr ev = addr \<Longrightarrow> ev_sid ev = sid \<Longrightarrow> P g \<Longrightarrow> P (snd (rx_verify ack c ev g))"
  by (auto simp: rx_verify_def split_beta Let_def frame_rules frame_ops split: sum.splits)

lemma frame_auth_check: "ev_addr ev = addr \<Longrightarrow> ev_sid ev = sid \<Longrightarrow> P g \<Longrightarrow> P (snd (rx_auth_check ack c ev t g))"
  by (auto simp: rx_auth_check_def split_beta Let_def frame_rules frame_ops)

lemma frame_admit: "P g \<Longrightarrow> P (snd (rx_admit ev g))"
  by (auto simp: rx_admit_def split_beta Let_def frame_rules frame_ops)

lemma frame_touch: "P g \<Longrightarrow> P (snd (rx_touch_session c ev g))"
  by (auto simp: rx_touch_session_def Let_def frame_rules split: option.splits)

lemma frame_hello: "ev_addr ev = addr \<Longrightarrow> ev_sid ev = sid \<Longrightarrow> P g \<Longrightarrow> P (rx_hello ack c ev t g)"
  by (auto simp: rx_hello_def Let_def frame_rules split: option.splits)

lemma frame_rx_gate: "ev_addr ev = addr \<Longrightarrow> ev_sid ev = sid \<Longrightarrow> P g \<Longrightarrow> P (snd (rx_gate ack c ev g))"
  unfolding rx_gate_def Let_def
  by (auto simp: split_beta frame_rules frame_ops frame_verify frame_auth_check frame_admit frame_touch frame_hello
      split: option.splits)

end

text \<open>A hello whose ticket verifies and which the limits admit is accepted.\<close>

lemma rx_gate_accepts_hello:
  assumes "is_auth_hello ev" "requires_auth (ac_mode (c_auth c))"
    and "rx_verify ack c ev (g_count_in (ev_len ev) g) = (Some (Some ticket), w)" "fst (rx_admit ev w)"
  shows "rx_gate ack c ev g = (None, rx_hello ack c ev (Some ticket)
    (let h = snd (rx_touch_session c ev (snd (rx_admit ev w)))
     in h\<lparr>g_session_traffic := record_session_ingress (g_session_traffic h) (ev_sid ev) (ev_now_unix ev) (ev_len ev)\<rparr>))"
proof -
  have "rx_auth_check ack c ev (Some ticket) w = (True, w)" by (simp add: rx_auth_check_def Let_def)
  moreover have "\<not> ev_len ev < SESSION_ID_LEN" using assms(1) by (simp add: is_auth_hello_def)
  ultimately show ?thesis using assms by (simp add: rx_gate_def split_beta Let_def)
qed

end
