(* ===== verification/Checksum.thy ===== *)
theory Checksum
  imports Net_Addr
begin

unbundle bit_operations_syntax

text \<open>
  The Internet checksum (RFC 1071) as \<^verbatim>\<open>calculate_ip_checksum\<close> in
  \<^verbatim>\<open>src/src/main.rs\<close> computes it on 32-bit words, and the incremental update of
  \<^verbatim>\<open>src/src/tcp_tun.rs\<close>.  The abstract counterpart is the sum of the 16-bit
  words of a message as a natural number (\<open>ck_nat\<close>) and its one's complement
  residue (\<open>oc\<close>); both routines are proved to compute it.
\<close>

section \<open>The routines\<close>

fun ck_words :: "u32 \<Rightarrow> bytes \<Rightarrow> u32" where
  "ck_words s [] = s"
| "ck_words s [a] = s + push_bit 8 (ucast a)"
| "ck_words s (a # b # r) = ck_words (s + (push_bit 8 (ucast a) OR ucast b)) r"

lemma unat_fold_step:
  "unat ((s AND 0xFFFF) + drop_bit 16 s) = unat s mod 65536 + unat s div 65536" for s :: u32
proof -
  have m: "s AND 0xFFFF = take_bit 16 s"
    by (simp add: take_bit_eq_mask mask_eq_exp_minus_1)
  have a: "unat (s AND 0xFFFF) = unat s mod 65536"
    by (simp only: m unsigned_take_bit_eq) (simp add: take_bit_eq_mod)
  have b: "unat (drop_bit 16 s) = unat s div 65536"
    by (simp only: unat_drop_bit_eq) (simp add: drop_bit_eq_div)
  have "unat s < 2 ^ LENGTH(32)" by (rule unsigned_less)
  then have "unat s div 65536 < 65536" by (simp add: less_mult_imp_div_less)
  moreover have "unat s mod 65536 < 65536" by simp
  ultimately have "unat s mod 65536 + unat s div 65536 < 2 ^ LENGTH(32)" by simp
  then show ?thesis using a b by (simp add: unat_word_ariths)
qed

lemma unat_drop16: "unat (drop_bit 16 (s :: u32)) = unat s div 65536"
  by (simp only: unat_drop_bit_eq) (simp add: drop_bit_eq_div)

lemma fold_step_less:
  fixes s :: u32
  assumes "drop_bit 16 s \<noteq> 0"
  shows "unat ((s AND 0xFFFF) + drop_bit 16 s) < unat s"
proof -
  have "unat (drop_bit 16 s) \<noteq> 0" using assms by (simp add: unat_eq_zero)
  then have "0 < unat s div 65536" by (simp add: unat_drop16)
  moreover have "unat s = 65536 * (unat s div 65536) + unat s mod 65536" by simp
  ultimately show ?thesis unfolding unat_fold_step by linarith
qed

text \<open>\<^verbatim>\<open>while sum >> 16 != 0 { sum = (sum & 0xFFFF) + (sum >> 16) }\<close>\<close>

function fold16 :: "u32 \<Rightarrow> u32" where
  "fold16 s = (if drop_bit 16 s \<noteq> 0 then fold16 ((s AND 0xFFFF) + drop_bit 16 s) else s)"
  by pat_completeness auto
termination
  by (relation "measure unat") (auto intro: fold_step_less)

declare fold16.simps [simp del]

definition calculate_ip_checksum :: "bytes \<Rightarrow> u16" where
  "calculate_ip_checksum header = ucast (NOT (fold16 (ck_words 0 header)))"

definition adjust_checksum_for_ipv4_addr_change :: "u16 \<Rightarrow> ipv4 \<Rightarrow> ipv4 \<Rightarrow> u16" where
  "adjust_checksum_for_ipv4_addr_change checksum old_ip new_ip =
     (case (old_ip, new_ip) of (Ipv4 o0 o1 o2 o3, Ipv4 n0 n1 n2 n3) \<Rightarrow>
       let old_hi = be16 o0 o1; old_lo = be16 o2 o3; new_hi = be16 n0 n1; new_lo = be16 n2 n3;
           sum = ucast (NOT checksum) + (ucast (NOT old_hi) AND 0xFFFF) + ucast new_hi
                 + (ucast (NOT old_lo) AND 0xFFFF) + (ucast new_lo :: u32)
       in NOT (ucast (fold16 sum)))"

section \<open>The one's complement residue\<close>

definition oc :: "nat \<Rightarrow> nat" where
  "oc n = (if n = 0 then 0 else (n - 1) mod 65535 + 1)"

lemma oc_le: "oc n \<le> 65535"
proof -
  have "(n - 1) mod 65535 < 65535" by (rule mod_less_divisor) simp
  moreover have "oc n = 0 \<or> oc n = (n - 1) mod 65535 + 1" by (simp add: oc_def)
  ultimately show ?thesis by linarith
qed

lemma oc_0_iff [simp]: "oc n = 0 \<longleftrightarrow> n = 0"
  by (simp add: oc_def)

lemma oc_mod: "oc n mod 65535 = n mod 65535"
proof (cases "n = 0")
  case False
  then have "oc n mod 65535 = (n - 1 + 1) mod 65535"
    by (simp add: oc_def mod_Suc_eq)
  with False show ?thesis by simp
qed (simp add: oc_def)

lemma oc_unique:
  assumes "x \<le> 65535" and "x mod 65535 = n mod 65535" and "x = 0 \<longleftrightarrow> n = 0"
  shows "x = oc n"
proof (cases "n = 0")
  case False
  have "x \<noteq> 0" and "oc n \<noteq> 0" using False assms(3) by simp_all
  moreover have "x mod 65535 = oc n mod 65535" using assms(2) by (simp add: oc_mod)
  ultimately show ?thesis using assms(1) oc_le [of n]
    by (cases "x = 65535"; cases "oc n = 65535") auto
qed (use assms in simp)

lemma oc_small: "n \<le> 65535 \<Longrightarrow> oc n = n"
  by (rule oc_unique [symmetric]) auto

lemma oc_cong: "m mod 65535 = n mod 65535 \<Longrightarrow> (m = 0 \<longleftrightarrow> n = 0) \<Longrightarrow> oc m = oc n"
  by (rule oc_unique) (simp_all add: oc_le oc_mod)

lemma fold_step_mod: "(n mod 65536 + n div 65536) mod 65535 = n mod (65535 :: nat)"
proof -
  have "n mod 65535 = (65536 * (n div 65536) + n mod 65536) mod 65535" by simp
  also have "\<dots> = ((65536 mod 65535) * (n div 65536) + n mod 65536) mod 65535"
    by (metis mod_add_left_eq mod_mult_left_eq)
  finally show ?thesis by (simp add: add.commute)
qed

lemma unat_fold16: "unat (fold16 s) = oc (unat s)"
proof (induction s rule: fold16.induct)
  case (1 s)
  show ?case
  proof (cases "drop_bit 16 s \<noteq> 0")
    case True
    let ?t = "(s AND 0xFFFF) + drop_bit 16 s"
    have "oc (unat ?t) = oc (unat s)"
    proof (rule oc_cong)
      show "unat ?t mod 65535 = unat s mod 65535"
        unfolding unat_fold_step by (rule fold_step_mod)
      show "unat ?t = 0 \<longleftrightarrow> unat s = 0"
        unfolding unat_fold_step using div_mult_mod_eq [of "unat s" 65536] by auto
    qed
    with True "1" show ?thesis by (subst fold16.simps) simp
  next
    case False
    then have "unat s div 65536 = 0" using unat_drop16 [of s] by simp
    then have "unat s \<le> 65535" by (simp add: div_eq_0_iff)
    with False show ?thesis by (subst fold16.simps) (simp add: oc_small)
  qed
qed

section \<open>The sum of the words of a message\<close>

fun ck_nat :: "bytes \<Rightarrow> nat" where
  "ck_nat [] = 0"
| "ck_nat [a] = 256 * unat a"
| "ck_nat (a # b # r) = 256 * unat a + unat b + ck_nat r"

lemma ck_nat_bound: "ck_nat bs \<le> 65535 * ((length bs + 1) div 2)"
proof (induction bs rule: ck_nat.induct)
  case (2 a)
  then show ?case using unat_u8_lt [of a] by simp
next
  case (3 a b r)
  then show ?case using unat_u8_lt [of a] unat_u8_lt [of b] by simp
qed simp

lemma ck_nat_append: "even (length as) \<Longrightarrow> ck_nat (as @ bs) = ck_nat as + ck_nat bs"
  by (induction as rule: ck_nat.induct) auto

lemma ck_nat_update_pair:
  "2 * k + 1 < length h \<Longrightarrow>
   ck_nat (h[2 * k := x, 2 * k + 1 := y]) + (256 * unat (h ! (2 * k)) + unat (h ! (2 * k + 1)))
   = ck_nat h + (256 * unat x + unat y)"
proof (induction k arbitrary: h)
  case 0
  then obtain a b r where "h = a # b # r"
    by (cases h; cases "tl h") auto
  then show ?case by simp
next
  case (Suc k)
  then obtain a b r where h: "h = a # b # r"
    by (cases h; cases "tl h") auto
  have "2 * k + 1 < length r" using Suc.prems h by simp
  from Suc.IH [OF this] show ?case by (simp add: h)
qed

lemma push_or_u32: "(push_bit 8 (ucast a) OR ucast b :: u32) = of_nat (256 * unat a + unat b)"
  for a b :: u8
proof -
  have disj: "(push_bit 8 (ucast a) :: u32) AND ucast b = 0"
    by (rule bit_word_eqI) (auto simp: bit_and_iff bit_push_bit_iff bit_ucast_iff
        dest: bit_imp_le_length)
  then have "(push_bit 8 (ucast a) OR ucast b :: u32) = push_bit 8 (ucast a) + ucast b"
    by (simp add: disjunctive_add_eq_or)
  moreover have "push_bit 8 (ucast a :: u32) = of_nat (256 * unat a)"
    by (simp add: push_bit_eq_mult)
  moreover have "(ucast b :: u32) = of_nat (unat b)" by simp
  ultimately show ?thesis by (simp only: of_nat_add)
qed

lemma push_u32: "(push_bit 8 (ucast a) :: u32) = of_nat (256 * unat a)" for a :: u8
  by (simp add: push_bit_eq_mult)

lemma ck_words_of_nat: "ck_words s bs = s + of_nat (ck_nat bs)"
proof (induction s bs rule: ck_words.induct)
  case (2 s a)
  show ?case by (simp only: ck_words.simps ck_nat.simps push_u32)
next
  case (3 s a b r)
  show ?case
    using "3" by (simp only: ck_words.simps ck_nat.simps push_or_u32 of_nat_add add.assoc)
qed simp

lemma unat_ck_words:
  assumes "unat s + ck_nat bs < 2 ^ 32"
  shows "unat (ck_words s bs) = unat s + ck_nat bs"
proof -
  have "ck_words s bs = of_nat (unat s + ck_nat bs)"
    unfolding ck_words_of_nat by simp
  moreover have "unat s + ck_nat bs < 2 ^ LENGTH(32)" using assms by simp
  ultimately show ?thesis by (simp only: unat_of_nat mod_less)
qed

text \<open>Any message the relay can hold is far below this bound (packets are at most 65535 bytes).\<close>

lemma ck_nat_fits:
  assumes "length bs \<le> 131073"
  shows "ck_nat bs < 2 ^ 32"
proof -
  have "(length bs + 1) div 2 \<le> 65537" using assms by linarith
  then have "65535 * ((length bs + 1) div 2) \<le> 65535 * 65537" by (rule mult_le_mono2)
  then show ?thesis using ck_nat_bound [of bs] by simp
qed

lemma unat_not_u16: "unat (NOT (w :: u16)) = 65535 - unat w"
proof -
  have "NOT w = - 1 - w" by (simp add: not_eq_complement)
  moreover have "unat (- 1 - w) = unat (- 1 :: u16) - unat w"
    by (rule unat_sub) simp
  ultimately show ?thesis by (simp add: unsigned_minus_1_eq_mask mask_eq_exp_minus_1)
qed

lemma ucast_not_u32: "(ucast (NOT (w :: u32)) :: u16) = NOT (ucast w)"
  by (rule bit_word_eqI) (simp add: bit_ucast_iff bit_not_iff)

lemma unat_checksum:
  assumes "length h \<le> 131073"
  shows "unat (calculate_ip_checksum h) = 65535 - oc (ck_nat h)"
proof -
  have "unat (fold16 (ck_words 0 h)) = oc (ck_nat h)"
    using unat_ck_words [of 0 h] ck_nat_fits [OF assms] by (simp add: unat_fold16)
  moreover have "oc (ck_nat h) mod 65536 = oc (ck_nat h)"
    using oc_le [of "ck_nat h"] by simp
  ultimately have "unat (ucast (fold16 (ck_words 0 h)) :: u16) = oc (ck_nat h)"
    by (simp only: unsigned_ucast_eq) (simp add: take_bit_eq_mod)
  then show ?thesis
    by (simp add: calculate_ip_checksum_def ucast_not_u32 unat_not_u16)
qed

section \<open>Storing and updating a checksum\<close>

lemma oc_complement:
  assumes "oc n = r"
  shows "oc (n + (65535 - r)) = 65535"
proof -
  have "r \<le> 65535" using oc_le [of n] assms by simp
  have "(n + (65535 - r)) mod 65535 = (r + (65535 - r)) mod 65535"
    using oc_mod [of n] assms by (metis mod_add_left_eq)
  then have "(n + (65535 - r)) mod 65535 = 0" using \<open>r \<le> 65535\<close> by simp
  moreover have "n + (65535 - r) \<noteq> 0"
    using assms \<open>r \<le> 65535\<close> by (cases "n = 0") (auto simp: oc_def)
  ultimately show ?thesis by (intro oc_unique [symmetric]) auto
qed

text \<open>
  A checksum stored in a zeroed, even-aligned field makes the message verify:
  recomputing over the message with its checksum gives zero.
\<close>

lemma checksum_stored:
  assumes "length h \<le> 131073" and "2 * k + 1 < length h"
    and "h ! (2 * k) = 0" and "h ! (2 * k + 1) = 0"
    and "c = calculate_ip_checksum h"
  shows "calculate_ip_checksum (h[2 * k := hi8 c, 2 * k + 1 := lo8 c]) = 0"
proof -
  let ?h = "h[2 * k := hi8 c, 2 * k + 1 := lo8 c]"
  have "unat c = 256 * unat (hi8 c) + unat (lo8 c)"
    using unat_be16 [of "hi8 c" "lo8 c"] by simp
  then have "ck_nat ?h = ck_nat h + unat c"
    using ck_nat_update_pair [OF assms(2), of "hi8 c" "lo8 c"] assms(3,4) by simp
  also have "unat c = 65535 - oc (ck_nat h)"
    using unat_checksum [OF assms(1)] assms(5) by simp
  finally have "oc (ck_nat ?h) = 65535" using oc_complement by simp
  then have "unat (calculate_ip_checksum ?h) = 0"
    using unat_checksum [of ?h] assms(1) by simp
  then show ?thesis by (simp add: unat_eq_zero)
qed

lemma unat_octets_sum:
  "ck_nat (octets (Ipv4 a b c d)) = unat (be16 a b) + unat (be16 c d)"
  by (simp add: unat_be16)

lemma unat_ucast_u16_u32 [simp]: "unat (ucast (w :: u16) :: u32) = unat w"
  using unat_u16_lt [of w] by (simp only: unsigned_ucast_eq) (simp add: take_bit_eq_mod)

lemma and_ffff_ucast: "(ucast (w :: u16) AND 0xFFFF :: u32) = ucast w"
proof (rule bit_word_eqI)
  fix n
  have m: "(0xFFFF :: u32) = mask 16" by (simp add: mask_eq_exp_minus_1)
  show "bit (ucast w AND 0xFFFF :: u32) n = bit (ucast w :: u32) n"
    unfolding m by (auto simp: bit_and_iff bit_mask_iff bit_ucast_iff dest: bit_imp_le_length)
qed

lemma mod_add_cancel:
  fixes a b k m :: nat
  assumes "(a + k) mod m = (b + k) mod m" and "0 < m"
  shows "a mod m = b mod m"
proof -
  have "k \<le> m * k" using assms(2) by simp
  then have "x mod m = (x + k + (m * k - k)) mod m" for x by simp
  then show ?thesis using assms(1) by (metis mod_add_left_eq)
qed

lemma unat_adjust:
  assumes ck: "unat ck = 65535 - oc (r + ck_nat (octets old))"
    and new: "r + ck_nat (octets new) \<noteq> 0"
  shows "unat (adjust_checksum_for_ipv4_addr_change ck old new) = 65535 - oc (r + ck_nat (octets new))"
proof (cases old; cases new)
  fix o0 o1 o2 o3 n0 n1 n2 n3
  assume old_eq: "old = Ipv4 o0 o1 o2 o3" and new_eq: "new = Ipv4 n0 n1 n2 n3"
  let ?oh = "unat (be16 o0 o1)" and ?ol = "unat (be16 o2 o3)"
  let ?nh = "unat (be16 n0 n1)" and ?nl = "unat (be16 n2 n3)"
  let ?s = "ucast (NOT ck) + (ucast (NOT (be16 o0 o1)) AND 0xFFFF) + ucast (be16 n0 n1)
     + (ucast (NOT (be16 o2 o3)) AND 0xFFFF) + (ucast (be16 n2 n3) :: u32)"
  have lt: "?oh < 65536" "?ol < 65536" "?nh < 65536" "?nl < 65536" by (rule unat_u16_lt)+
  let ?N = "r + (?oh + ?ol)" and ?M = "r + (?nh + ?nl)"
  let ?t = "oc ?N + (65535 - ?oh) + ?nh + (65535 - ?ol) + ?nl"
  have ckN: "65535 - unat ck = oc ?N"
    using ck oc_le [of ?N] unfolding old_eq unat_octets_sum by simp
  have "?s = of_nat ?t"
    unfolding and_ffff_ucast ckN [symmetric]
    by (simp only: of_nat_add unat_not_u16 [symmetric]) simp
  moreover have "?t < 2 ^ LENGTH(32)" using oc_le [of ?N] lt by simp
  ultimately have s: "unat ?s = ?t" by (simp only: unat_of_nat mod_less)
  have "(?t + ?oh + ?ol) mod 65535 = (?N + ?nh + ?nl) mod 65535"
  proof -
    have e: "?t + ?oh + ?ol = oc ?N + (?nh + ?nl) + 65535 * 2" using lt by simp
    have "(?t + ?oh + ?ol) mod 65535 = (oc ?N + (?nh + ?nl)) mod 65535"
      by (simp only: e mod_mult_self2)
    also have "\<dots> = (?N + (?nh + ?nl)) mod 65535"
      using oc_mod [of ?N] by (metis mod_add_left_eq)
    finally show ?thesis by (simp add: add.assoc)
  qed
  then have "(?t + (?oh + ?ol)) mod 65535 = (?M + (?oh + ?ol)) mod 65535"
    by (simp add: ac_simps)
  then have cong: "?t mod 65535 = ?M mod 65535"
    by (rule mod_add_cancel) simp
  have "?t \<noteq> 0"
  proof (cases "?N = 0")
    case True
    then show ?thesis by simp
  next
    case False
    then have "oc ?N \<noteq> 0" by simp
    then show ?thesis by linarith
  qed
  moreover have "?M \<noteq> 0" using new unfolding new_eq unat_octets_sum .
  ultimately have "oc ?t = oc ?M" using cong by (intro oc_cong) auto
  then have f: "unat (fold16 ?s) = oc ?M" by (simp add: unat_fold16 s)
  have "unat (ucast (fold16 ?s) :: u16) = oc ?M"
    using f oc_le [of ?M] by (simp only: unsigned_ucast_eq) (simp add: take_bit_eq_mod)
  then show ?thesis
    unfolding old_eq new_eq adjust_checksum_for_ipv4_addr_change_def Let_def unat_octets_sum
    by (simp add: unat_not_u16)
qed

lemma ck_nat_eq_0_iff: "ck_nat bs = 0 \<longleftrightarrow> (\<forall>b \<in> set bs. b = 0)"
  by (induction bs rule: ck_nat.induct) (auto simp: unat_eq_zero)

lemma adjust_checksum_message:
  assumes "even (length pre)" and "length (pre @ octets new @ post) \<le> 131073"
    and "\<exists>b \<in> set (pre @ octets new @ post). b \<noteq> 0"
  shows "adjust_checksum_for_ipv4_addr_change (calculate_ip_checksum (pre @ octets old @ post)) old new
     = calculate_ip_checksum (pre @ octets new @ post)"
proof -
  have l: "length (octets a) = 4" for a by (cases a) simp
  have c: "ck_nat (pre @ octets a @ post) = (ck_nat pre + ck_nat post) + ck_nat (octets a)" for a
    using assms(1) by (simp add: ck_nat_append l)
  have n: "length (pre @ octets a @ post) \<le> 131073" for a
    using assms(2) by (simp add: l)
  have "ck_nat (pre @ octets new @ post) \<noteq> 0"
    using assms(3) unfolding ck_nat_eq_0_iff by blast
  then have "unat (adjust_checksum_for_ipv4_addr_change
      (calculate_ip_checksum (pre @ octets old @ post)) old new)
    = 65535 - oc (ck_nat (pre @ octets new @ post))"
    unfolding c using unat_checksum [OF n [of old]] unfolding c by (intro unat_adjust)
  then show ?thesis using unat_checksum [OF n [of new]] by (simp add: word_unat_eq_iff)
qed

end
