(* ===== verification/Packet.thy ===== *)
theory Packet
  imports Dest_Policy Checksum
begin

unbundle bit_operations_syntax

text \<open>
  The packets of the tunnel: \<^verbatim>\<open>parse_ip_packet_full\<close> and the two builders of a
  response packet, \<^verbatim>\<open>build_response_ip_packet_with_tos\<close> of \<^verbatim>\<open>src/src/main.rs\<close> and
  \<^verbatim>\<open>write_response_ip_packet_into_with_tos\<close> of \<^verbatim>\<open>src/src/datapath_v2.rs\<close>.  The
  parser threads the destination policy, whose counters every decision updates.
\<close>

section \<open>Definitions\<close>

definition IP_HEADER_MIN :: nat where
  "IP_HEADER_MIN = 20"

definition UDP_HEADER_SIZE :: nat where
  "UDP_HEADER_SIZE = 8"

definition TCP_HEADER_MIN :: nat where
  "TCP_HEADER_MIN = 20"

record original_packet_info =
  oi_tos :: u8
  oi_src_ip :: ipv4
  oi_src_port :: u16
  oi_dst_ip :: ipv4
  oi_dst_port :: u16

datatype parsed_packet =
    PUdp (game_addr: sock_addr) (pp_payload: bytes) (original_info: original_packet_info) (raw_ip_packet: bytes)
  | PTcp original_packet_info bytes
  | PFragment u8 ipv4 bytes
  | PForbiddenDst

definition read_be16 :: "bytes \<Rightarrow> nat \<Rightarrow> u16" where
  "read_be16 p i = be16 (p ! i) (p ! (i + 1))"

definition read_ipv4 :: "bytes \<Rightarrow> nat \<Rightarrow> ipv4" where
  "read_ipv4 p i = Ipv4 (p ! i) (p ! (i + 1)) (p ! (i + 2)) (p ! (i + 3))"

definition is_some_and :: "'a option \<Rightarrow> ('a \<Rightarrow> bool) \<Rightarrow> bool" where
  "is_some_and x p = (case x of None \<Rightarrow> False | Some a \<Rightarrow> p a)"

definition parse_fragment ::
  "dest_policy \<Rightarrow> bytes \<Rightarrow> nat \<Rightarrow> u16 \<Rightarrow> parsed_packet option \<times> dest_policy" where
  "parse_fragment pol packet ihl fragment_offset =
     (let protocol = packet ! 9; src_ip = read_ipv4 packet 12; dst_ip = read_ipv4 packet 16;
          ported = fragment_offset = 0 \<and> (protocol = 6 \<or> protocol = 17)
      in if ported \<and> length packet < ihl + 4 then (None, pol)
         else
           let dst_port = (if ported then Some (read_be16 packet (ihl + 2)) else None) in
           if is_forbidden_dst dst_ip then (Some PForbiddenDst, pol)
           else if protocol = 17 \<and> is_some_and dst_port is_forbidden_dst_port then (Some PForbiddenDst, pol)
           else let (ok, pol) = dest_permits pol protocol dst_ip dst_port in
             if \<not> ok then (Some PForbiddenDst, pol)
             else (Some (PFragment protocol src_ip packet), pol))"

definition parse_udp :: "dest_policy \<Rightarrow> bytes \<Rightarrow> nat \<Rightarrow> parsed_packet option \<times> dest_policy" where
  "parse_udp pol packet udp_start =
     (let src_ip = read_ipv4 packet 12; dst_ip = read_ipv4 packet 16 in
      if length packet < udp_start + UDP_HEADER_SIZE then (None, pol)
      else
        let src_port = read_be16 packet udp_start;
            dst_port = read_be16 packet (udp_start + 2);
            udp_len = unat (read_be16 packet (udp_start + 4))
        in if udp_len < UDP_HEADER_SIZE \<or> length packet < udp_start + udp_len then (None, pol)
           else
             let payload_start = udp_start + UDP_HEADER_SIZE;
                 payload_end = udp_start + udp_len;
                 payload = (if payload_start < payload_end
                            then take (payload_end - payload_start) (drop payload_start packet) else []);
                 info = \<lparr>oi_tos = packet ! 1, oi_src_ip = src_ip, oi_src_port = src_port,
                         oi_dst_ip = dst_ip, oi_dst_port = dst_port\<rparr>
             in if is_forbidden_dst dst_ip \<or> is_forbidden_dst_port dst_port then (Some PForbiddenDst, pol)
                else let (ok, pol) = dest_permits pol 17 dst_ip (Some dst_port) in
                  if \<not> ok then (Some PForbiddenDst, pol)
                  else (Some (PUdp (SockV4 dst_ip dst_port) payload info packet), pol))"

definition parse_tcp :: "dest_policy \<Rightarrow> bytes \<Rightarrow> nat \<Rightarrow> parsed_packet option \<times> dest_policy" where
  "parse_tcp pol packet tcp_start =
     (let src_ip = read_ipv4 packet 12; dst_ip = read_ipv4 packet 16 in
      if length packet < tcp_start + TCP_HEADER_MIN then (None, pol)
      else
        let src_port = read_be16 packet tcp_start;
            dst_port = read_be16 packet (tcp_start + 2);
            tcp_header_len = unat (drop_bit 4 (packet ! (tcp_start + 12))) * 4
        in if tcp_header_len < TCP_HEADER_MIN \<or> length packet < tcp_start + tcp_header_len then (None, pol)
           else
             let info = \<lparr>oi_tos = packet ! 1, oi_src_ip = src_ip, oi_src_port = src_port,
                         oi_dst_ip = dst_ip, oi_dst_port = dst_port\<rparr>
             in if is_forbidden_dst dst_ip then (Some PForbiddenDst, pol)
                else let (ok, pol) = dest_permits pol 6 dst_ip (Some dst_port) in
                  if \<not> ok then (Some PForbiddenDst, pol)
                  else (Some (PTcp info packet), pol))"

definition parse_ip_packet_full :: "dest_policy \<Rightarrow> bytes \<Rightarrow> parsed_packet option \<times> dest_policy" where
  "parse_ip_packet_full pol packet =
     (if length packet < IP_HEADER_MIN then (None, pol)
      else if (drop_bit 4 (packet ! 0) AND 0x0F) \<noteq> 4 then (None, pol)
      else
        let ihl = unat (packet ! 0 AND 0x0F) * 4 in
        if ihl < IP_HEADER_MIN \<or> length packet < ihl then (None, pol)
        else
          let total_len = unat (read_be16 packet 2) in
          if total_len < ihl \<or> length packet < total_len then (None, pol)
          else
            let packet = take total_len packet;
                protocol = packet ! 9;
                fragment_bits = read_be16 packet 6;
                more_fragments = (fragment_bits AND 0x2000) \<noteq> 0;
                fragment_offset = fragment_bits AND 0x1FFF
            in if more_fragments \<or> fragment_offset \<noteq> 0 then parse_fragment pol packet ihl fragment_offset
               else if protocol = 17 then parse_udp pol packet ihl
               else if protocol = 6 then parse_tcp pol packet ihl
               else (None, pol))"

text \<open>\<^verbatim>\<open>packet[i..i + ys.len()].copy_from_slice(ys)\<close>\<close>

definition copy_at :: "nat \<Rightarrow> bytes \<Rightarrow> bytes \<Rightarrow> bytes" where
  "copy_at i ys p = take i p @ ys @ drop (i + length ys) p"

definition build_response_ip_packet_with_tos :: "bytes \<Rightarrow> original_packet_info \<Rightarrow> u8 \<Rightarrow> bytes" where
  "build_response_ip_packet_with_tos udp_payload original tos =
     (let udp_len = UDP_HEADER_SIZE + length udp_payload;
          total_len = IP_HEADER_MIN + udp_len;
          packet = replicate total_len 0;
          packet = packet[0 := 0x45];
          packet = packet[1 := tos];
          packet = packet[2 := len_hi8 total_len];
          packet = packet[3 := len_lo8 total_len];
          packet = packet[4 := 0];
          packet = packet[5 := 0];
          packet = packet[6 := 0x40];
          packet = packet[7 := 0];
          packet = packet[8 := 64];
          packet = packet[9 := 17];
          packet = packet[10 := 0];
          packet = packet[11 := 0];
          packet = copy_at 12 (octets (oi_dst_ip original)) packet;
          packet = copy_at 16 (octets (oi_src_ip original)) packet;
          ip_checksum = calculate_ip_checksum (take IP_HEADER_MIN packet);
          packet = packet[10 := hi8 ip_checksum];
          packet = packet[11 := lo8 ip_checksum];
          udp_start = IP_HEADER_MIN;
          packet = packet[udp_start := hi8 (oi_dst_port original)];
          packet = packet[udp_start + 1 := lo8 (oi_dst_port original)];
          packet = packet[udp_start + 2 := hi8 (oi_src_port original)];
          packet = packet[udp_start + 3 := lo8 (oi_src_port original)];
          packet = packet[udp_start + 4 := len_hi8 udp_len];
          packet = packet[udp_start + 5 := len_lo8 udp_len];
          packet = packet[udp_start + 6 := 0];
          packet = packet[udp_start + 7 := 0];
          payload_start = udp_start + UDP_HEADER_SIZE
      in copy_at payload_start udp_payload packet)"

definition build_response_ip_packet :: "bytes \<Rightarrow> original_packet_info \<Rightarrow> bytes" where
  "build_response_ip_packet udp_payload original =
     build_response_ip_packet_with_tos udp_payload original (oi_tos original)"

text \<open>The buffer after the call and the number of bytes written.\<close>

definition write_response_ip_packet_into_with_tos ::
  "bytes \<Rightarrow> bytes \<Rightarrow> original_packet_info \<Rightarrow> u8 \<Rightarrow> (bytes \<times> nat) option" where
  "write_response_ip_packet_into_with_tos dst udp_payload original tos =
     (let udp_len = UDP_HEADER_SIZE + length udp_payload;
          total_len = IP_HEADER_MIN + udp_len
      in if length dst < total_len then None
         else
           let packet = take total_len dst;
               packet = packet[0 := 0x45];
               packet = packet[1 := tos];
               packet = packet[2 := len_hi8 total_len];
               packet = packet[3 := len_lo8 total_len];
               packet = packet[4 := 0];
               packet = packet[5 := 0];
               packet = packet[6 := 0x40];
               packet = packet[7 := 0];
               packet = packet[8 := 64];
               packet = packet[9 := 17];
               packet = packet[10 := 0];
               packet = packet[11 := 0];
               packet = copy_at 12 (octets (oi_dst_ip original)) packet;
               packet = copy_at 16 (octets (oi_src_ip original)) packet;
               ip_checksum = calculate_ip_checksum (take IP_HEADER_MIN packet);
               packet = packet[10 := hi8 ip_checksum];
               packet = packet[11 := lo8 ip_checksum];
               udp_start = IP_HEADER_MIN;
               packet = packet[udp_start := hi8 (oi_dst_port original)];
               packet = packet[udp_start + 1 := lo8 (oi_dst_port original)];
               packet = packet[udp_start + 2 := hi8 (oi_src_port original)];
               packet = packet[udp_start + 3 := lo8 (oi_src_port original)];
               packet = packet[udp_start + 4 := len_hi8 udp_len];
               packet = packet[udp_start + 5 := len_lo8 udp_len];
               packet = packet[udp_start + 6 := 0];
               packet = packet[udp_start + 7 := 0];
               payload_start = udp_start + UDP_HEADER_SIZE;
               packet = copy_at payload_start udp_payload packet
           in Some (packet @ drop total_len dst, total_len))"

definition write_response_ip_packet_into ::
  "bytes \<Rightarrow> bytes \<Rightarrow> original_packet_info \<Rightarrow> (bytes \<times> nat) option" where
  "write_response_ip_packet_into dst udp_payload original =
     write_response_ip_packet_into_with_tos dst udp_payload original (oi_tos original)"

section \<open>The layout of a response\<close>

definition ip_fields :: "nat \<Rightarrow> original_packet_info \<Rightarrow> u8 \<Rightarrow> bytes" where
  "ip_fields total_len original tos =
     [0x45, tos, len_hi8 total_len, len_lo8 total_len, 0, 0, 0x40, 0, 64, 17, 0, 0]
     @ octets (oi_dst_ip original) @ octets (oi_src_ip original)"

definition udp_fields :: "nat \<Rightarrow> original_packet_info \<Rightarrow> bytes" where
  "udp_fields udp_len original =
     [hi8 (oi_dst_port original), lo8 (oi_dst_port original), hi8 (oi_src_port original),
      lo8 (oi_src_port original), len_hi8 udp_len, len_lo8 udp_len, 0, 0]"

definition response_bytes :: "bytes \<Rightarrow> original_packet_info \<Rightarrow> u8 \<Rightarrow> bytes" where
  "response_bytes udp_payload original tos =
     (let h = ip_fields (28 + length udp_payload) original tos; c = calculate_ip_checksum h
      in h[10 := hi8 c, 11 := lo8 c] @ udp_fields (8 + length udp_payload) original @ udp_payload)"

lemma list28:
  "28 \<le> length p \<Longrightarrow> \<exists>a0 a1 a2 a3 a4 a5 a6 a7 a8 a9 b0 b1 b2 b3 b4 b5 b6 b7 b8 b9 c0 c1 c2 c3 c4 c5 c6 c7 r.
     p = [a0, a1, a2, a3, a4, a5, a6, a7, a8, a9, b0, b1, b2, b3, b4, b5, b6, b7, b8, b9,
          c0, c1, c2, c3, c4, c5, c6, c7] @ r"
  by (simp add: numeral_eq_Suc Suc_le_length_iff) metis

lemmas response_defs = response_bytes_def ip_fields_def udp_fields_def copy_at_def IP_HEADER_MIN_def
  UDP_HEADER_SIZE_def Let_def

lemma build_response_layout:
  "build_response_ip_packet_with_tos udp_payload original tos = response_bytes udp_payload original tos"
proof -
  obtain a0 a1 a2 a3 b0 b1 b2 b3 where ips:
    "oi_dst_ip original = Ipv4 a0 a1 a2 a3" "oi_src_ip original = Ipv4 b0 b1 b2 b3"
    by (metis ipv4.exhaust)
  have zeros: "replicate (20 + (8 + n)) (0 :: u8) =
    [0, 0, 0, 0, 0, 0, 0, 0, 0, 0, 0, 0, 0, 0, 0, 0, 0, 0, 0, 0, 0, 0, 0, 0, 0, 0, 0, 0] @ replicate n 0" for n
    by (simp add: numeral_eq_Suc)
  show ?thesis
    unfolding build_response_ip_packet_with_tos_def response_defs zeros ips
    by (simp add: numeral_eq_Suc)
qed

lemma write_response_layout:
  "write_response_ip_packet_into_with_tos dst udp_payload original tos =
     (if length dst < 28 + length udp_payload then None
      else Some (response_bytes udp_payload original tos @ drop (28 + length udp_payload) dst, 28 + length udp_payload))"
proof (cases "length dst < 28 + length udp_payload")
  case True
  thus ?thesis by (simp add: write_response_ip_packet_into_with_tos_def UDP_HEADER_SIZE_def IP_HEADER_MIN_def Let_def)
next
  case False
  obtain a0 a1 a2 a3 b0 b1 b2 b3 where ips:
    "oi_dst_ip original = Ipv4 a0 a1 a2 a3" "oi_src_ip original = Ipv4 b0 b1 b2 b3"
    by (metis ipv4.exhaust)
  define p where "p = take (20 + (8 + length udp_payload)) dst"
  have len: "28 \<le> length p" "length p = 28 + length udp_payload" using False by (auto simp: p_def)
  have sum: "20 + (8 + n) = 28 + (n :: nat)" for n by simp
  show ?thesis
    using list28 [OF len(1)] len(2) False
    unfolding write_response_ip_packet_into_with_tos_def response_defs ips p_def [symmetric]
    by (auto simp: numeral_eq_Suc)
qed

lemma length_response: "length (response_bytes udp_payload original tos) = 28 + length udp_payload"
  by (cases "oi_dst_ip original"; cases "oi_src_ip original") (simp add: response_defs)

lemma response_header:
  "take 20 (response_bytes udp_payload original tos) =
     (let h = ip_fields (28 + length udp_payload) original tos; c = calculate_ip_checksum h
      in h[10 := hi8 c, 11 := lo8 c])"
  by (cases "oi_dst_ip original"; cases "oi_src_ip original") (simp add: response_defs)

lemma response_header_checksum:
  "calculate_ip_checksum (take 20 (response_bytes udp_payload original tos)) = 0"
proof -
  let ?h = "ip_fields (28 + length udp_payload) original tos"
  have "length ?h = 20" by (cases "oi_dst_ip original"; cases "oi_src_ip original") (simp add: ip_fields_def)
  moreover have "?h ! 10 = 0" "?h ! 11 = 0" by (simp_all add: ip_fields_def)
  ultimately show ?thesis
    using checksum_stored [of ?h 5 "calculate_ip_checksum ?h"] by (simp add: response_header Let_def)
qed

text \<open>The fields the parser reads, on a response.\<close>

lemma response_reads:
  fixes original :: original_packet_info and udp_payload :: bytes and tos :: u8
  defines "p \<equiv> response_bytes udp_payload original tos"
  shows "p ! 0 = 0x45" "p ! 1 = tos" "p ! 9 = 17"
    "read_be16 p 2 = be16 (len_hi8 (28 + length udp_payload)) (len_lo8 (28 + length udp_payload))"
    "read_be16 p 6 = be16 0x40 0"
    "read_ipv4 p 12 = oi_dst_ip original" "read_ipv4 p 16 = oi_src_ip original"
    "read_be16 p 20 = oi_dst_port original" "read_be16 p 22 = oi_src_port original"
    "read_be16 p 24 = be16 (len_hi8 (8 + length udp_payload)) (len_lo8 (8 + length udp_payload))"
    "drop 28 p = udp_payload"
  unfolding p_def
  by (cases "oi_dst_ip original"; cases "oi_src_ip original"; simp add: response_defs read_be16_def read_ipv4_def)+

lemma not_fragment_word: "be16 0x40 0 AND 0x2000 = 0" "be16 0x40 0 AND 0x1FFF = 0"
  by code_simp+

definition swap_info :: "original_packet_info \<Rightarrow> u8 \<Rightarrow> original_packet_info" where
  "swap_info original tos =
     \<lparr>oi_tos = tos, oi_src_ip = oi_dst_ip original, oi_src_port = oi_dst_port original,
      oi_dst_ip = oi_src_ip original, oi_dst_port = oi_src_port original\<rparr>"

lemma parse_response:
  assumes "length udp_payload \<le> 65507"
    and "\<not> is_forbidden_dst (oi_src_ip original)" "\<not> is_forbidden_dst_port (oi_src_port original)"
    and "dest_permits pol 17 (oi_src_ip original) (Some (oi_src_port original)) = (True, pol')"
  shows "parse_ip_packet_full pol (response_bytes udp_payload original tos) =
    (Some (PUdp (SockV4 (oi_src_ip original) (oi_src_port original)) udp_payload (swap_info original tos)
       (response_bytes udp_payload original tos)), pol')"
proof -
  let ?p = "response_bytes udp_payload original tos"
  note r = response_reads [of udp_payload original tos] length_response [of udp_payload original tos]
  have total: "unat (be16 (len_hi8 (28 + length udp_payload)) (len_lo8 (28 + length udp_payload))) = 28 + length udp_payload"
    "unat (be16 (len_hi8 (8 + length udp_payload)) (len_lo8 (8 + length udp_payload))) = 8 + length udp_payload"
    using assms(1) by (simp_all add: unat_be16_len)
  have "parse_ip_packet_full pol ?p = parse_udp pol ?p 20"
    unfolding parse_ip_packet_full_def Let_def r(4) total
    by (simp add: r not_fragment_word IP_HEADER_MIN_def)
  also have "parse_udp pol ?p 20 = (Some (PUdp (SockV4 (oi_src_ip original) (oi_src_port original)) udp_payload
       (swap_info original tos) ?p), pol')"
    using assms(2-) response_reads(2) [unfolded One_nat_def]
    by (simp add: parse_udp_def Let_def r total UDP_HEADER_SIZE_def swap_info_def)
  finally show ?thesis .
qed

text \<open>
  The in-place response writer of the second datapath writes exactly the bytes the first
  datapath builds and leaves the rest of the buffer alone, and refuses exactly when the
  buffer is too short.
\<close>

theorem v2_response_matches_v1:
  "write_response_ip_packet_into_with_tos dst udp_payload original tos =
     (let packet = build_response_ip_packet_with_tos udp_payload original tos in
      if length dst < length packet then None
      else Some (packet @ drop (length packet) dst, length packet))"
  by (simp add: write_response_layout build_response_layout length_response Let_def)

text \<open>
  C40. A response packet built for a payload of at most 65507 bytes has a valid IP
  header checksum and parses back to the same payload with source and destination
  swapped, when its destination may be forwarded to.
\<close>

theorem response_roundtrip:
  assumes "length udp_payload \<le> 65507"
    and "\<not> is_forbidden_dst (oi_src_ip original)" and "\<not> is_forbidden_dst_port (oi_src_port original)"
    and "dest_permits pol 17 (oi_src_ip original) (Some (oi_src_port original)) = (True, pol')"
  shows "parse_ip_packet_full pol (build_response_ip_packet_with_tos udp_payload original tos) =
      (Some (PUdp (SockV4 (oi_src_ip original) (oi_src_port original)) udp_payload
         \<lparr>oi_tos = tos, oi_src_ip = oi_dst_ip original, oi_src_port = oi_dst_port original,
          oi_dst_ip = oi_src_ip original, oi_dst_port = oi_src_port original\<rparr>
         (build_response_ip_packet_with_tos udp_payload original tos)), pol') \<and>
    calculate_ip_checksum (take IP_HEADER_MIN (build_response_ip_packet_with_tos udp_payload original tos)) = 0"
  using parse_response [OF assms] response_header_checksum
  by (simp add: build_response_layout swap_info_def IP_HEADER_MIN_def)

section \<open>What the parser lets through\<close>

text \<open>
  The view of a packet the theorem below is stated on: header length, total
  length, addresses, and the bytes where a first fragment or a whole datagram
  carries the destination port.
\<close>

definition hdr_ihl :: "bytes \<Rightarrow> nat" where
  "hdr_ihl p = unat (p ! 0 AND 0x0F) * 4"

definition hdr_total :: "bytes \<Rightarrow> nat" where
  "hdr_total p = unat (read_be16 p 2)"

definition hdr_port :: "bytes \<Rightarrow> u16" where
  "hdr_port p = read_be16 p (hdr_ihl p + 2)"

definition hdr_info :: "bytes \<Rightarrow> original_packet_info" where
  "hdr_info p =
     \<lparr>oi_tos = p ! 1, oi_src_ip = read_ipv4 p 12, oi_src_port = read_be16 p (hdr_ihl p),
      oi_dst_ip = read_ipv4 p 16, oi_dst_port = hdr_port p\<rparr>"

definition frag_port :: "bytes \<Rightarrow> u16 option" where
  "frag_port p =
     (if (read_be16 p 6 AND 0x1FFF) = 0 \<and> (p ! 9 = 6 \<or> p ! 9 = 17) then Some (hdr_port p) else None)"

fun forwards :: "dest_policy \<Rightarrow> bytes \<Rightarrow> parsed_packet \<Rightarrow> bool" where
  "forwards pol p (PUdp addr payload info raw) \<longleftrightarrow>
     p ! 9 = 17 \<and> raw = take (hdr_total p) p \<and> info = hdr_info p \<and>
     addr = SockV4 (read_ipv4 p 16) (hdr_port p) \<and>
     hdr_ihl p + 8 + length payload \<le> hdr_total p \<and>
     payload = take (length payload) (drop (hdr_ihl p + 8) p) \<and>
     \<not> is_forbidden_dst (read_ipv4 p 16) \<and> \<not> is_forbidden_dst_port (hdr_port p) \<and>
     fst (dest_permits pol 17 (read_ipv4 p 16) (Some (hdr_port p)))"
| "forwards pol p (PTcp info raw) \<longleftrightarrow>
     p ! 9 = 6 \<and> raw = take (hdr_total p) p \<and> info = hdr_info p \<and> hdr_ihl p + 20 \<le> hdr_total p \<and>
     \<not> is_forbidden_dst (read_ipv4 p 16) \<and> fst (dest_permits pol 6 (read_ipv4 p 16) (Some (hdr_port p)))"
| "forwards pol p (PFragment protocol src raw) \<longleftrightarrow>
     protocol = p ! 9 \<and> src = read_ipv4 p 12 \<and> raw = take (hdr_total p) p \<and>
     \<not> is_forbidden_dst (read_ipv4 p 16) \<and>
     \<not> (protocol = 17 \<and> is_some_and (frag_port p) is_forbidden_dst_port) \<and>
     fst (dest_permits pol protocol (read_ipv4 p 16) (frag_port p))"
| "forwards pol p PForbiddenDst \<longleftrightarrow> False"

lemma reads_take [simp]:
  "i + 2 \<le> n \<Longrightarrow> read_be16 (take n p) i = read_be16 p i"
  "i + 4 \<le> n \<Longrightarrow> read_ipv4 (take n p) i = read_ipv4 p i"
  by (simp_all add: read_be16_def read_ipv4_def)

lemma header_take:
  assumes "20 \<le> n"
  shows "take n p ! 1 = p ! 1" "take n p ! 9 = p ! 9"
    "read_ipv4 (take n p) 12 = read_ipv4 p 12" "read_ipv4 (take n p) 16 = read_ipv4 p 16"
  using assms by simp_all

lemma parse_udp_forwards:
  assumes "parse_udp pol (take n p) (hdr_ihl p) = (Some r, pol')" "r \<noteq> PForbiddenDst"
    and "20 \<le> hdr_ihl p" "hdr_ihl p \<le> n" "n \<le> length p" "n = hdr_total p" "p ! 9 = 17"
  shows "forwards pol p r"
proof -
  have n: "20 \<le> n" using assms(3,4) by simp
  show ?thesis
    using assms
    by (auto simp: parse_udp_def Let_def UDP_HEADER_SIZE_def header_take [OF n] hdr_info_def hdr_port_def
        min_def drop_take simp del: One_nat_def split: if_splits prod.splits)
qed

lemma parse_tcp_forwards:
  assumes "parse_tcp pol (take n p) (hdr_ihl p) = (Some r, pol')" "r \<noteq> PForbiddenDst"
    and "20 \<le> hdr_ihl p" "hdr_ihl p \<le> n" "n \<le> length p" "n = hdr_total p" "p ! 9 = 6"
  shows "forwards pol p r"
proof -
  have n: "20 \<le> n" using assms(3,4) by simp
  show ?thesis
    using assms
    by (auto simp: parse_tcp_def Let_def TCP_HEADER_MIN_def header_take [OF n] hdr_info_def hdr_port_def
        simp del: One_nat_def split: if_splits prod.splits)
qed

lemma parse_fragment_forwards:
  assumes "parse_fragment pol (take n p) (hdr_ihl p) (read_be16 p 6 AND 0x1FFF) = (Some r, pol')" "r \<noteq> PForbiddenDst"
    and "20 \<le> hdr_ihl p" "hdr_ihl p \<le> n" "n \<le> length p" "n = hdr_total p"
  shows "forwards pol p r"
proof -
  have n: "20 \<le> n" using assms(3,4) by simp
  show ?thesis
    using assms
    by (auto simp: parse_fragment_def Let_def header_take [OF n] frag_port_def hdr_port_def is_some_and_def
        split: if_splits prod.splits)
qed

lemma parse_result:
  assumes "parse_ip_packet_full pol p = (Some r, pol')"
  shows "20 \<le> hdr_ihl p \<and> hdr_ihl p \<le> hdr_total p \<and> hdr_total p \<le> length p \<and>
    (r = PForbiddenDst \<or> forwards pol p r)"
proof -
  have hdr: "20 \<le> hdr_ihl p" "hdr_ihl p \<le> hdr_total p" "hdr_total p \<le> length p"
    using assms
    by (auto simp: parse_ip_packet_full_def Let_def IP_HEADER_MIN_def hdr_ihl_def hdr_total_def split: if_splits)
  hence n: "20 \<le> hdr_total p" by simp
  hence six: "read_be16 (take (hdr_total p) p) 6 = read_be16 p 6" by simp
  have branch: "(parse_fragment pol (take (hdr_total p) p) (hdr_ihl p) (read_be16 p 6 AND 0x1FFF) = (Some r, pol'))
    \<or> (parse_udp pol (take (hdr_total p) p) (hdr_ihl p) = (Some r, pol') \<and> p ! 9 = 17)
    \<or> (parse_tcp pol (take (hdr_total p) p) (hdr_ihl p) = (Some r, pol') \<and> p ! 9 = 6)"
    using assms
    unfolding parse_ip_packet_full_def Let_def hdr_ihl_def [symmetric] hdr_total_def [symmetric] six
      header_take(2) [OF n]
    by (auto split: if_splits)
  hence "r = PForbiddenDst \<or> forwards pol p r"
    using hdr parse_fragment_forwards parse_udp_forwards parse_tcp_forwards by blast
  thus ?thesis using hdr by blast
qed

text \<open>
  Every packet the parser hands on has consistent header lengths, its raw bytes are the
  packet cut at the IP total length, the payload and endpoints are the ones in the
  header, and its destination address, its UDP port and the destination policy all allow
  it; fragments included.
\<close>

theorem parsed_packet_may_be_forwarded:
  assumes "parse_ip_packet_full pol packet = (Some r, pol')"
  shows "20 \<le> hdr_ihl packet \<and> hdr_ihl packet \<le> hdr_total packet \<and> hdr_total packet \<le> length packet \<and>
    (r = PForbiddenDst \<or> forwards pol packet r)"
  using assms by (rule parse_result)

section \<open>Witnesses\<close>

definition sample_info :: original_packet_info where
  "sample_info = \<lparr>oi_tos = 0, oi_src_ip = Ipv4 9 0 0 2, oi_src_port = 5000,
     oi_dst_ip = Ipv4 128 116 1 1, oi_dst_port = 49152\<rparr>"

definition sample_policy :: dest_policy where
  "sample_policy = dest_build Mode_Off None [443]"

lemma sample_policy_permits: "dest_permits sample_policy protocol dst dst_port = (True, sample_policy)"
  by (simp add: dest_permits_def sample_policy_def dest_build_def load_allowlist_def Let_def)

lemma sample_info_allowed:
  "\<not> is_forbidden_dst (oi_src_ip sample_info)" "\<not> is_forbidden_dst_port (oi_src_port sample_info)"
  by code_simp+

theorem response_roundtrip_witness:
  "parse_ip_packet_full sample_policy (build_response_ip_packet_with_tos [1, 2, 3] sample_info 7) =
      (Some (PUdp (SockV4 (Ipv4 9 0 0 2) 5000) [1, 2, 3]
         \<lparr>oi_tos = 7, oi_src_ip = Ipv4 128 116 1 1, oi_src_port = 49152, oi_dst_ip = Ipv4 9 0 0 2, oi_dst_port = 5000\<rparr>
         (build_response_ip_packet_with_tos [1, 2, 3] sample_info 7)), sample_policy) \<and>
   calculate_ip_checksum (take IP_HEADER_MIN (build_response_ip_packet_with_tos [1, 2, 3] sample_info 7)) = 0"
  using response_roundtrip [of "[1, 2, 3]" sample_info sample_policy sample_policy 7]
    sample_info_allowed sample_policy_permits
  by (simp add: sample_info_def)

theorem parsed_packet_may_be_forwarded_witness:
  "\<exists>r pol'. parse_ip_packet_full sample_policy (response_bytes [1, 2, 3] sample_info 7) = (Some r, pol')
     \<and> r \<noteq> PForbiddenDst \<and> forwards sample_policy (response_bytes [1, 2, 3] sample_info 7) r"
proof -
  have "parse_ip_packet_full sample_policy (response_bytes [1, 2, 3] sample_info 7) =
    (Some (PUdp (SockV4 (oi_src_ip sample_info) (oi_src_port sample_info)) [1, 2, 3] (swap_info sample_info 7)
       (response_bytes [1, 2, 3] sample_info 7)), sample_policy)"
    by (rule parse_response) (use sample_info_allowed sample_policy_permits in simp_all)
  from this parsed_packet_may_be_forwarded [OF this] show ?thesis by blast
qed

end
