(* ===== verification/Resolve.thy ===== *)
theory Resolve
  imports Ticket
begin

text \<open>
  The name resolution a client may ask for (\<^verbatim>\<open>src/src/main.rs\<close>): the allowlist of
  host names, the request and response frames, and the task that answers a request.
  The operating system's resolver is the argument \<open>lookup\<close>: the addresses it returns
  for a host, or \<^term>\<open>None\<close> for an error.
\<close>

section \<open>Definitions\<close>

definition RESOLVE_RESPONSE_FRAME_TYPE :: u8 where
  "RESOLVE_RESPONSE_FRAME_TYPE = 0xA7"

definition RESOLVE_MAX_HOSTS_PER_REQUEST :: nat where
  "RESOLVE_MAX_HOSTS_PER_REQUEST = 16"

definition RESOLVE_MAX_HOSTNAME_LEN :: nat where
  "RESOLVE_MAX_HOSTNAME_LEN = 64"

definition RESOLVE_MAX_IPS_PER_HOST :: nat where
  "RESOLVE_MAX_IPS_PER_HOST = 4"

definition trim_end_dots :: "string \<Rightarrow> string" where
  "trim_end_dots s = rev (dropWhile (\<lambda>c. c = CHR ''.'') (rev s))"

definition is_resolvable_roblox_host :: "string \<Rightarrow> bool" where
  "is_resolvable_roblox_host host =
     (let h = to_ascii_lowercase (trim_end_dots host) in
      h = ''roblox.com'' \<or> ends_with h ''.roblox.com'' \<or> ends_with h ''.rbxcdn.com'' \<or> ends_with h ''.arkoselabs.com'')"

fun parse_resolve_hosts :: "bytes \<Rightarrow> nat \<Rightarrow> nat \<Rightarrow> nat \<Rightarrow> string list option" where
  "parse_resolve_hosts frame len 0 off = Some []"
| "parse_resolve_hosts frame len (Suc k) off =
     (if off \<ge> len then None
      else
        let hlen = unat (frame ! off); off = off + 1 in
        if hlen = 0 \<or> hlen > RESOLVE_MAX_HOSTNAME_LEN \<or> off + hlen > len then None
        else
          (case from_utf8 (take hlen (drop off frame)) of
             None \<Rightarrow> None
           | Some host \<Rightarrow>
               (case parse_resolve_hosts frame len k (off + hlen) of
                  None \<Rightarrow> None
                | Some hosts \<Rightarrow> Some (if is_resolvable_roblox_host host then host # hosts else hosts))))"

definition parse_resolve_request :: "bytes \<Rightarrow> nat \<Rightarrow> (u16 \<times> string list) option" where
  "parse_resolve_request frame len =
     (let header = SESSION_ID_LEN + 1 in
      if len < header + 3 then None
      else
        let request_id = be16 (frame ! header) (frame ! (header + 1));
            host_count = unat (frame ! (header + 2))
        in if host_count > RESOLVE_MAX_HOSTS_PER_REQUEST then None
           else map_option (\<lambda>hosts. (request_id, hosts)) (parse_resolve_hosts frame len host_count (header + 3)))"

definition resolve_answer :: "string \<times> ipv4 list \<Rightarrow> bytes" where
  "resolve_answer a =
     (let hbytes = bytes_of_str (fst a);
          hlen = min (length hbytes) RESOLVE_MAX_HOSTNAME_LEN;
          ip_count = min (length (snd a)) RESOLVE_MAX_IPS_PER_HOST
      in of_nat hlen # take hlen hbytes @ of_nat ip_count # concat (map octets (take ip_count (snd a))))"

definition build_resolve_response :: "session_id \<Rightarrow> u16 \<Rightarrow> (string \<times> ipv4 list) list \<Rightarrow> bytes" where
  "build_resolve_response sid request_id answers =
     (let answer_count = min (length answers) 255
      in sid @ [RESOLVE_RESPONSE_FRAME_TYPE, hi8 request_id, lo8 request_id, of_nat answer_count]
         @ concat (map resolve_answer (take answer_count answers)))"

text \<open>\<^verbatim>\<open>Vec::dedup\<close> removes consecutive repetitions.\<close>

fun dedup :: "'a list \<Rightarrow> 'a list" where
  "dedup [] = []"
| "dedup [x] = [x]"
| "dedup (x # y # zs) = (if x = y then dedup (y # zs) else x # dedup (y # zs))"

fun ip_v4 :: "ip_addr \<Rightarrow> ipv4 option" where
  "ip_v4 (IpV4 ip) = Some ip"
| "ip_v4 (IpV6 _) = None"

definition resolve_roblox_host_ipv4 :: "(string \<Rightarrow> ip_addr list option) \<Rightarrow> string \<Rightarrow> ipv4 list" where
  "resolve_roblox_host_ipv4 lookup host =
     (case lookup host of
        None \<Rightarrow> []
      | Some addrs \<Rightarrow> take RESOLVE_MAX_IPS_PER_HOST (dedup (List.map_filter ip_v4 addrs)))"

text \<open>The spawned task: the frame it sends for the hosts of a request.\<close>

definition resolve_task ::
  "(string \<Rightarrow> ip_addr list option) \<Rightarrow> session_id \<Rightarrow> u16 \<Rightarrow> string list \<Rightarrow> bytes" where
  "resolve_task lookup sid request_id hosts =
     build_resolve_response sid request_id
       (filter (\<lambda>a. snd a \<noteq> []) (map (\<lambda>h. (h, resolve_roblox_host_ipv4 lookup h)) hosts))"

section \<open>Only allowlisted names, bounded answers\<close>

lemma parse_resolve_hosts_ok:
  "parse_resolve_hosts frame len k off = Some hosts \<Longrightarrow>
     length hosts \<le> k \<and> (\<forall>h\<in>set hosts. is_resolvable_roblox_host h \<and> h \<noteq> [] \<and> length h \<le> RESOLVE_MAX_HOSTNAME_LEN)"
proof (induction k arbitrary: off hosts)
  case (Suc k)
  let ?hlen = "unat (frame ! off)"
  obtain host rest where h: "\<not> off \<ge> len" "?hlen \<noteq> 0" "?hlen \<le> RESOLVE_MAX_HOSTNAME_LEN"
    "from_utf8 (take ?hlen (drop (off + 1) frame)) = Some host"
    "parse_resolve_hosts frame len k (off + 1 + ?hlen) = Some rest"
    "hosts = (if is_resolvable_roblox_host host then host # rest else rest)"
    using Suc.prems by (auto simp: Let_def split: if_splits option.splits)
  have len: "length host \<le> RESOLVE_MAX_HOSTNAME_LEN" using h(3,4) by (auto simp: from_utf8_def split: if_splits)
  have "is_resolvable_roblox_host host \<Longrightarrow> host \<noteq> []"
    by (auto simp: is_resolvable_roblox_host_def trim_end_dots_def to_ascii_lowercase_def ends_with_def)
  thus ?case using Suc.IH [OF h(5)] len h(6) by (auto split: if_splits)
qed simp

lemma length_octets_concat: "length (concat (map octets ips)) = 4 * length ips"
proof (induction ips)
  case (Cons ip ips)
  thus ?case by (cases ip) simp
qed simp

lemma length_resolve_answer: "length (resolve_answer a) \<le> 82"
  by (simp add: resolve_answer_def Let_def length_octets_concat RESOLVE_MAX_HOSTNAME_LEN_def
      RESOLVE_MAX_IPS_PER_HOST_def min_def)

lemma length_answers: "length (concat (map resolve_answer as)) \<le> 82 * length as"
proof (induction as)
  case (Cons a as)
  thus ?case using length_resolve_answer [of a] by simp
qed simp

text \<open>
  Every host a resolve request makes the relay look up is a Roblox host name of bounded
  length, there are at most 16 of them, and the response frame stays within 1316 bytes
  after the session identifier.
\<close>

theorem resolver_is_closed:
  assumes "parse_resolve_request frame len = Some (request_id, hosts)"
  shows "length hosts \<le> RESOLVE_MAX_HOSTS_PER_REQUEST \<and>
    (\<forall>h\<in>set hosts. is_resolvable_roblox_host h \<and> length h \<le> RESOLVE_MAX_HOSTNAME_LEN) \<and>
    length (resolve_task lookup sid request_id hosts) \<le> length sid + 4 + 16 * 82"
proof -
  obtain k off where k: "parse_resolve_hosts frame len k off = Some hosts" "k \<le> 16"
    using assms by (auto simp: parse_resolve_request_def RESOLVE_MAX_HOSTS_PER_REQUEST_def Let_def split: if_splits)
  note hosts = parse_resolve_hosts_ok [OF k(1)]
  let ?as = "filter (\<lambda>a. snd a \<noteq> []) (map (\<lambda>h. (h, resolve_roblox_host_ipv4 lookup h)) hosts)"
  have "length ?as \<le> length hosts"
    using length_filter_le [of "\<lambda>a. snd a \<noteq> []" "map (\<lambda>h. (h, resolve_roblox_host_ipv4 lookup h)) hosts"]
    by (simp only: length_map)
  hence "length (take (min (length ?as) 255) ?as) \<le> length hosts" by (rule order_trans [rotated]) simp
  hence "82 * length (take (min (length ?as) 255) ?as) \<le> 82 * 16" using hosts k(2) by linarith
  hence "length (concat (map resolve_answer (take (min (length ?as) 255) ?as))) \<le> 16 * 82"
    using length_answers [of "take (min (length ?as) 255) ?as"] by linarith
  hence "length (resolve_task lookup sid request_id hosts) \<le> length sid + 4 + 16 * 82"
    by (simp add: resolve_task_def build_resolve_response_def Let_def)
  thus ?thesis using hosts k(2) by (auto simp: RESOLVE_MAX_HOSTS_PER_REQUEST_def)
qed

text \<open>A request for one listed and one foreign host.\<close>

definition sample_request :: bytes where
  "sample_request = [0, 0, 0, 0, 0, 0, 0, 1, 0xA6, 0, 5, 2, 10] @ bytes_of_str ''roblox.com'' @ [4] @ bytes_of_str ''a.io''"

theorem resolver_is_closed_witness:
  "parse_resolve_request sample_request 28 = Some (5, [''roblox.com'']) \<and>
   length (resolve_task (\<lambda>_. Some [IpV4 (Ipv4 128 116 1 1)]) [0, 0, 0, 0, 0, 0, 0, 1] 5 [''roblox.com'']) \<le> 8 + 4 + 16 * 82"
proof -
  have p: "parse_resolve_request sample_request 28 = Some (5, [''roblox.com''])" by code_simp
  show ?thesis
    using resolver_is_closed [OF p, of "\<lambda>_. Some [IpV4 (Ipv4 128 116 1 1)]" "[0, 0, 0, 0, 0, 0, 0, 1]"] p by simp
qed

end
