(* ===== verification/Tcp_Tun.thy ===== *)
theory Tcp_Tun
  imports Packet
begin

unbundle bit_operations_syntax

text \<open>
  Forwarding through the TUN device (\<^verbatim>\<open>src/src/tcp_tun.rs\<close>): the address a session
  gets in 10.200.0.0/16, the two maps between sessions and addresses, the writer and
  reader loops, and the rewriting of an address with the checksums that cover it.
  Opening and configuring the device, and the system calls on it, are not modelled:
  a step of the writer yields the bytes it writes, a step of the reader takes the bytes
  it has read.
\<close>

section \<open>Definitions\<close>

record tun_tx_packet =
  tp_session_id :: session_id
  tp_client_addr :: sock_addr
  tp_ip_packet :: bytes

record inbound_tun_packet =
  it_session_id :: session_id
  it_client_addr :: sock_addr
  it_raw_ip_packet :: bytes

record session_mapping =
  sm_session_id :: session_id
  sm_client_addr :: sock_addr
  sm_original_src_ip :: ipv4

record tun_maps =
  ip_to_session :: "(ipv4, session_mapping) dmap"
  session_to_ip :: "(session_id, ipv4) dmap"

definition tun_maps_new :: tun_maps where
  "tun_maps_new = \<lparr>ip_to_session = [], session_to_ip = []\<rparr>"

text \<open>\<^verbatim>\<open>retain\<close> visits the entries; the ones of dead sessions go from both maps.\<close>

definition remove_expired :: "(session_id \<Rightarrow> bool) \<Rightarrow> tun_maps \<Rightarrow> tun_maps" where
  "remove_expired session_alive m =
     (let dead = map snd (filter (\<lambda>(sid, ip). \<not> session_alive sid) (session_to_ip m))
      in \<lparr>ip_to_session = foldr dm_remove dead (ip_to_session m),
          session_to_ip = dm_retain (\<lambda>sid _. session_alive sid) (session_to_ip m)\<rparr>)"

fun assign_from_pairs :: "session_id \<Rightarrow> (ipv4, session_mapping) dmap \<Rightarrow> (u8 \<times> u8) list \<Rightarrow> ipv4 option" where
  "assign_from_pairs sid m [] = None"
| "assign_from_pairs sid m ((a, b) # ps) =
     (if (a = 0 \<and> b = 0) \<or> (a = 255 \<and> b = 255) then assign_from_pairs sid m ps
      else
        let candidate = Ipv4 10 200 a b;
            collision = (case dm_get m candidate of None \<Rightarrow> False | Some x \<Rightarrow> sm_session_id x \<noteq> sid)
        in if \<not> collision then Some candidate else assign_from_pairs sid m ps)"

definition assign_session_ip :: "session_id \<Rightarrow> (ipv4, session_mapping) dmap \<Rightarrow> ipv4 option" where
  "assign_session_ip sid m = assign_from_pairs sid m (map (\<lambda>i. (sid ! (i * 2), sid ! (i * 2 + 1))) [0, 1, 2, 3])"

definition ipv4_fragment_offset :: "bytes \<Rightarrow> u16 option" where
  "ipv4_fragment_offset packet =
     (if length packet < IP_HEADER_MIN then None
      else
        let ihl = unat (packet ! 0 AND 0x0F) * 4 in
        if ihl < IP_HEADER_MIN \<or> length packet < ihl then None
        else Some (read_be16 packet 6 AND 0x1FFF))"

definition ipv4_is_fragment :: "bytes \<Rightarrow> bool" where
  "ipv4_is_fragment packet =
     is_some_and (ipv4_fragment_offset packet) (\<lambda>offset. (read_be16 packet 6 AND 0x2000) \<noteq> 0 \<or> offset \<noteq> 0)"

definition update_fragment_tcp_checksum :: "bytes \<Rightarrow> ipv4 \<Rightarrow> ipv4 \<Rightarrow> bytes" where
  "update_fragment_tcp_checksum packet old_ip new_ip =
     (let ihl = unat (packet ! 0 AND 0x0F) * 4 in
      if ihl < IP_HEADER_MIN \<or> length packet < ihl + 18 then packet
      else
        let checksum_offset = ihl + 16;
            adjusted = adjust_checksum_for_ipv4_addr_change (read_be16 packet checksum_offset) old_ip new_ip
        in copy_at checksum_offset [hi8 adjusted, lo8 adjusted] packet)"

definition update_fragment_udp_checksum :: "bytes \<Rightarrow> ipv4 \<Rightarrow> ipv4 \<Rightarrow> bytes" where
  "update_fragment_udp_checksum packet old_ip new_ip =
     (let ihl = unat (packet ! 0 AND 0x0F) * 4 in
      if ihl < IP_HEADER_MIN \<or> length packet < ihl + 8 then packet
      else
        let checksum_offset = ihl + 6; checksum = read_be16 packet checksum_offset in
        if checksum = 0 then packet
        else
          let adjusted = adjust_checksum_for_ipv4_addr_change checksum old_ip new_ip;
              adjusted = (if adjusted = 0 then 0xFFFF else adjusted)
          in copy_at checksum_offset [hi8 adjusted, lo8 adjusted] packet)"

definition recalculate_ip_checksum :: "bytes \<Rightarrow> bytes" where
  "recalculate_ip_checksum packet =
     (if length packet < IP_HEADER_MIN then packet
      else
        let ihl = unat (packet ! 0 AND 0x0F) * 4 in
        if ihl < IP_HEADER_MIN \<or> length packet < ihl then packet
        else
          let packet = packet[10 := 0, 11 := 0];
              checksum = calculate_ip_checksum (take ihl packet)
          in packet[10 := hi8 checksum, 11 := lo8 checksum])"

definition pseudo_header :: "bytes \<Rightarrow> u8 \<Rightarrow> nat \<Rightarrow> bytes" where
  "pseudo_header packet proto len =
     take 4 (drop 12 packet) @ take 4 (drop 16 packet) @ [0, proto, len_hi8 len, len_lo8 len]"

text \<open>The sum over pseudo-header and segment, folded and complemented.\<close>

definition transport_checksum :: "bytes \<Rightarrow> bytes \<Rightarrow> u16" where
  "transport_checksum pseudo segment = ucast (NOT (fold16 (ck_words (ck_words 0 pseudo) segment)))"

definition recalculate_tcp_checksum :: "bytes \<Rightarrow> bytes" where
  "recalculate_tcp_checksum packet =
     (if length packet < IP_HEADER_MIN then packet
      else
        let ihl = unat (packet ! 0 AND 0x0F) * 4 in
        if length packet < ihl then packet
        else
          let total_len = unat (read_be16 packet 2) in
          if total_len < ihl \<or> length packet < total_len then packet
          else
            let tcp_len = total_len - ihl in
            if tcp_len < 20 then packet
            else
              let packet = packet[ihl + 16 := 0, ihl + 17 := 0];
                  checksum = transport_checksum (pseudo_header packet 6 tcp_len) (take tcp_len (drop ihl packet))
              in packet[ihl + 16 := hi8 checksum, ihl + 17 := lo8 checksum])"

definition recalculate_udp_checksum :: "bytes \<Rightarrow> bytes" where
  "recalculate_udp_checksum packet =
     (if length packet < IP_HEADER_MIN then packet
      else
        let ihl = unat (packet ! 0 AND 0x0F) * 4 in
        if length packet < ihl then packet
        else
          let total_len = unat (read_be16 packet 2) in
          if total_len < ihl + 8 \<or> length packet < total_len then packet
          else
            let udp_len = total_len - ihl in
            if udp_len < 8 then packet
            else if read_be16 packet (ihl + 6) = 0 then packet
            else
              let packet = packet[ihl + 6 := 0, ihl + 7 := 0];
                  checksum = transport_checksum (pseudo_header packet 17 udp_len) (take udp_len (drop ihl packet));
                  checksum = (if checksum = 0 then 0xFFFF else checksum)
              in packet[ihl + 6 := hi8 checksum, ihl + 7 := lo8 checksum])"

definition IP_SRC_OFFSET :: nat where
  "IP_SRC_OFFSET = 12"

definition IP_DST_OFFSET :: nat where
  "IP_DST_OFFSET = 16"

definition rewrite_ip_field :: "bytes \<Rightarrow> nat \<Rightarrow> ipv4 \<Rightarrow> bytes" where
  "rewrite_ip_field packet offset new_ip =
     (if length packet < IP_HEADER_MIN \<or> length packet < offset + 4 then packet
      else
        let old_ip = read_ipv4 packet offset;
            packet = copy_at offset (octets new_ip) packet;
            packet = recalculate_ip_checksum packet
        in if ipv4_is_fragment packet then
             (if ipv4_fragment_offset packet = Some 0 then
                (if packet ! 9 = 6 then update_fragment_tcp_checksum packet old_ip new_ip
                 else if packet ! 9 = 17 then update_fragment_udp_checksum packet old_ip new_ip
                 else packet)
              else packet)
           else if packet ! 9 = 6 then recalculate_tcp_checksum packet
           else if packet ! 9 = 17 then recalculate_udp_checksum packet
           else packet)"

definition rewrite_src_ip :: "bytes \<Rightarrow> ipv4 \<Rightarrow> bytes" where
  "rewrite_src_ip packet new_src = rewrite_ip_field packet IP_SRC_OFFSET new_src"

definition rewrite_dst_ip :: "bytes \<Rightarrow> ipv4 \<Rightarrow> bytes" where
  "rewrite_dst_ip packet new_dst = rewrite_ip_field packet IP_DST_OFFSET new_dst"

text \<open>One packet of the writer: what it writes to the device, and the maps.\<close>

definition tun_writer_step :: "inbound_tun_packet \<Rightarrow> tun_maps \<Rightarrow> bytes option \<times> tun_maps" where
  "tun_writer_step pkt m =
     (let ip_packet = it_raw_ip_packet pkt; sid = it_session_id pkt in
      if length ip_packet < IP_HEADER_MIN then (None, m)
      else if drop_bit 4 (ip_packet ! 0) \<noteq> 4 then (None, m)
      else if \<not> (ip_packet ! 9 = 6 \<or> ip_packet ! 9 = 17) then (None, m)
      else
        let original_src_ip = read_ipv4 ip_packet 12;
            assigned = (case dm_get (session_to_ip m) sid of
                Some ip \<Rightarrow> Some (ip, m)
              | None \<Rightarrow>
                  (case assign_session_ip sid (ip_to_session m) of
                     None \<Rightarrow> None
                   | Some ip \<Rightarrow> Some (ip, m\<lparr>session_to_ip := dm_insert sid ip (session_to_ip m)\<rparr>)))
        in case assigned of
             None \<Rightarrow> (None, m)
           | Some (tun_ip, m) \<Rightarrow>
               (case dm_get (ip_to_session m) tun_ip of
                  Some x \<Rightarrow>
                    if sm_session_id x = sid then
                      (Some (rewrite_src_ip ip_packet tun_ip),
                       m\<lparr>ip_to_session := dm_insert tun_ip
                          (x\<lparr>sm_client_addr := it_client_addr pkt, sm_original_src_ip := original_src_ip\<rparr>)
                          (ip_to_session m)\<rparr>)
                    else (None, m)
                | None \<Rightarrow>
                    (Some (rewrite_src_ip ip_packet tun_ip),
                     m\<lparr>ip_to_session := dm_insert tun_ip
                        \<lparr>sm_session_id = sid, sm_client_addr = it_client_addr pkt, sm_original_src_ip = original_src_ip\<rparr>
                        (ip_to_session m)\<rparr>)))"

definition tun_reader_step :: "bytes \<Rightarrow> tun_maps \<Rightarrow> tun_tx_packet option" where
  "tun_reader_step packet m =
     (if length packet < IP_HEADER_MIN then None
      else
        (case dm_get (ip_to_session m) (read_ipv4 packet 16) of
           None \<Rightarrow> None
         | Some x \<Rightarrow> Some
             \<lparr>tp_session_id = sm_session_id x, tp_client_addr = sm_client_addr x,
              tp_ip_packet = rewrite_dst_ip packet (sm_original_src_ip x)\<rparr>))"

section \<open>Checksums of a rewritten packet\<close>

lemma transport_checksum_message:
  "even (length pseudo) \<Longrightarrow> transport_checksum pseudo segment = calculate_ip_checksum (pseudo @ segment)"
  by (simp add: transport_checksum_def calculate_ip_checksum_def ck_words_of_nat ck_nat_append algebra_simps)

lemma checksum_stored_ffff:
  assumes "length h \<le> 131073" "2 * k + 1 < length h" "h ! (2 * k) = 0" "h ! (2 * k + 1) = 0"
    and "calculate_ip_checksum h = 0"
  shows "calculate_ip_checksum (h[2 * k := 0xFF, 2 * k + 1 := 0xFF]) = 0"
proof -
  let ?h = "h[2 * k := 0xFF, 2 * k + 1 := 0xFF]"
  have "unat (calculate_ip_checksum h) = 0" using assms(5) by simp
  hence full: "oc (ck_nat h) = 65535" using unat_checksum [OF assms(1)] oc_le [of "ck_nat h"] by simp
  have "ck_nat ?h = ck_nat h + 65535" using ck_nat_update_pair [OF assms(2), of "0xFF" "0xFF"] assms(3,4) by simp
  moreover have "ck_nat h \<noteq> 0" using full by (metis oc_0_iff zero_neq_numeral)
  ultimately have "oc (ck_nat ?h) = oc (ck_nat h)" by (intro oc_cong) simp_all
  hence "unat (calculate_ip_checksum ?h) = 0" using unat_checksum [of ?h] assms(1) full by simp
  thus ?thesis by (simp add: unat_eq_zero)
qed

lemma hi8_lo8_ffff: "hi8 0xFFFF = 0xFF" "lo8 0xFFFF = 0xFF"
  by code_simp+

text \<open>A transport checksum written into its zeroed field, with zero sent as all ones.\<close>

lemma transport_checksum_stored:
  fixes c :: u16
  assumes "even (length pseudo)" "length pseudo + length seg \<le> 131073" "2 * j + 1 < length seg"
    and "seg ! (2 * j) = 0" "seg ! (2 * j + 1) = 0"
    and "c = transport_checksum pseudo seg \<or> transport_checksum pseudo seg = 0 \<and> c = 0xFFFF"
  shows "calculate_ip_checksum (pseudo @ seg[2 * j := hi8 c, 2 * j + 1 := lo8 c]) = 0"
proof -
  obtain m where m: "length pseudo = 2 * m" using assms(1) by (metis evenE)
  let ?h = "pseudo @ seg" and ?k = "m + j"
  have t: "transport_checksum pseudo seg = calculate_ip_checksum ?h" using assms(1) by (rule transport_checksum_message)
  have upd: "?h[2 * ?k := x, 2 * ?k + 1 := y] = pseudo @ seg[2 * j := x, 2 * j + 1 := y]" for x y
    using m by (simp add: list_update_append)
  have pre: "length ?h \<le> 131073" "2 * ?k + 1 < length ?h" "?h ! (2 * ?k) = 0" "?h ! (2 * ?k + 1) = 0"
    using assms m by (auto simp: nth_append)
  from assms(6) show ?thesis
  proof
    assume "c = transport_checksum pseudo seg"
    thus ?thesis using checksum_stored [OF pre, of c] t by (simp only: upd)
  next
    assume c: "transport_checksum pseudo seg = 0 \<and> c = 0xFFFF"
    thus ?thesis using checksum_stored_ffff [OF pre] t by (simp only: upd c hi8_lo8_ffff)
  qed
qed

section \<open>What rewriting leaves alone\<close>

lemma length_copy_at [simp]: "i + length ys \<le> length p \<Longrightarrow> length (copy_at i ys p) = length p"
  by (simp add: copy_at_def)

lemma nth_copy_at:
  "i + length ys \<le> length p \<Longrightarrow> j < length p \<Longrightarrow>
     copy_at i ys p ! j = (if i \<le> j \<and> j < i + length ys then ys ! (j - i) else p ! j)"
  by (auto simp: copy_at_def nth_append min_def)

lemma copy_at_pair: "i + 2 \<le> length p \<Longrightarrow> copy_at i [x, y] p = p[i := x, i + 1 := y]"
  by (rule nth_equalityI) (auto simp: nth_copy_at nth_list_update nth_Cons split: nat.splits)

lemma length_octets [simp]: "length (octets ip) = 4"
  by (cases ip) simp

lemma read_copy_ipv4: "i + 4 \<le> length p \<Longrightarrow> read_ipv4 (copy_at i (octets ip) p) i = ip"
  by (cases ip) (auto simp: read_ipv4_def nth_copy_at nth_Cons split: nat.splits)

lemma length_recalculate [simp]:
  "length (recalculate_ip_checksum p) = length p" "length (recalculate_tcp_checksum p) = length p"
  "length (recalculate_udp_checksum p) = length p"
  by (simp_all add: recalculate_ip_checksum_def recalculate_tcp_checksum_def recalculate_udp_checksum_def Let_def)

lemma length_update_fragment [simp]:
  "length (update_fragment_tcp_checksum p a b) = length p" "length (update_fragment_udp_checksum p a b) = length p"
  by (simp_all add: update_fragment_tcp_checksum_def update_fragment_udp_checksum_def Let_def)

lemma length_rewrite [simp]: "length (rewrite_ip_field p offset ip) = length p"
  by (simp add: rewrite_ip_field_def Let_def)

lemma recalculate_ip_nth: "j \<noteq> 10 \<Longrightarrow> j \<noteq> 11 \<Longrightarrow> recalculate_ip_checksum p ! j = p ! j"
  by (simp add: recalculate_ip_checksum_def Let_def)

lemma transport_nth:
  assumes "j \<noteq> hdr_ihl p + 16" "j \<noteq> hdr_ihl p + 17" "j \<noteq> hdr_ihl p + 6" "j \<noteq> hdr_ihl p + 7"
  shows "recalculate_tcp_checksum p ! j = p ! j" "recalculate_udp_checksum p ! j = p ! j"
    "update_fragment_tcp_checksum p a b ! j = p ! j" "update_fragment_udp_checksum p a b ! j = p ! j"
  using assms
  by (auto simp: recalculate_tcp_checksum_def recalculate_udp_checksum_def update_fragment_tcp_checksum_def
      update_fragment_udp_checksum_def hdr_ihl_def Let_def copy_at_pair)

definition ip_headed :: "bytes \<Rightarrow> bool" where
  "ip_headed p \<longleftrightarrow> 20 \<le> hdr_ihl p \<and> hdr_ihl p \<le> length p"

text \<open>The transport segment of a packet with the pseudo-header its checksum also covers.\<close>

definition checked_segment :: "bytes \<Rightarrow> u8 \<Rightarrow> bytes" where
  "checked_segment p proto =
     (let len = hdr_total p - hdr_ihl p in pseudo_header p proto len @ take len (drop (hdr_ihl p) p))"

lemma ip_headed_length: "ip_headed p \<Longrightarrow> 20 \<le> length p"
  by (simp add: ip_headed_def)

lemma recalculate_ip_valid:
  assumes "ip_headed p"
  shows "calculate_ip_checksum (take (hdr_ihl p) (recalculate_ip_checksum p)) = 0"
proof -
  let ?n = "hdr_ihl p" and ?z = "p[10 := 0, 11 := 0]"
  have n: "20 \<le> ?n" "?n \<le> length p" "?n \<le> 1020"
    using assms unat_u8_lt [of "p ! 0 AND 0x0F"] by (auto simp: ip_headed_def hdr_ihl_def)
  let ?c = "calculate_ip_checksum (take ?n ?z)"
  have "recalculate_ip_checksum p = ?z[10 := hi8 ?c, 11 := lo8 ?c]"
    using n by (simp add: recalculate_ip_checksum_def hdr_ihl_def Let_def IP_HEADER_MIN_def)
  then have "take ?n (recalculate_ip_checksum p) = (take ?n ?z)[2 * 5 := hi8 ?c, 2 * 5 + 1 := lo8 ?c]"
    by (simp add: take_update_swap)
  moreover have "calculate_ip_checksum ((take ?n ?z)[2 * 5 := hi8 ?c, 2 * 5 + 1 := lo8 ?c]) = 0"
    by (rule checksum_stored) (use n in simp_all)
  ultimately show ?thesis by simp
qed

lemma length_pseudo_header: "20 \<le> length p \<Longrightarrow> length (pseudo_header p proto len) = 12"
  by (simp add: pseudo_header_def)

lemma pseudo_header_update: "20 \<le> i \<Longrightarrow> pseudo_header (p[i := x]) proto len = pseudo_header p proto len"
  by (simp add: pseudo_header_def take_update_swap [symmetric] drop_update_swap take_drop)

lemma segment_update:
  "ihl \<le> i \<Longrightarrow> take n (drop ihl (p[i := x])) = (take n (drop ihl p))[i - ihl := x]"
  by (simp add: drop_update_swap take_update_swap)

text \<open>Storing the checksum at word \<^term>\<open>j\<close> of the segment makes the segment verify.\<close>

lemma stored_segment_valid:
  assumes "ip_headed p" "hdr_total p \<le> length p" "b < hdr_total p"
    and ab: "a = hdr_ihl p + 2 * j" "b = a + 1"
    and z: "z = p[a := 0, b := 0]"
    and t: "t = transport_checksum (pseudo_header z proto (hdr_total p - hdr_ihl p))
                  (take (hdr_total p - hdr_ihl p) (drop (hdr_ihl p) z))"
    and c: "c = t \<or> t = 0 \<and> c = 0xFFFF"
    and q: "q = z[a := hi8 c, b := lo8 c]"
  shows "calculate_ip_checksum (checked_segment q proto) = 0"
proof -
  let ?i = "hdr_ihl p" and ?len = "hdr_total p - hdr_ihl p"
  let ?s = "take ?len (drop ?i z)" and ?h = "pseudo_header z proto ?len"
  have p: "20 \<le> ?i" "20 \<le> length p" using assms(1) by (simp_all add: ip_headed_def)
  have lens: "length z = length p" "length ?s = ?len" "length ?h = 12" using z p assms(2) by (simp_all add: length_pseudo_header)
  have hd: "hdr_ihl q = ?i" "hdr_total q = hdr_total p"
    using p by (simp_all add: q z ab hdr_ihl_def hdr_total_def read_be16_def)
  have "checked_segment q proto = ?h @ ?s[2 * j := hi8 c, 2 * j + 1 := lo8 c]"
    using p unfolding checked_segment_def Let_def hd unfolding q
    by (simp add: ab pseudo_header_update segment_update)
  moreover have "hdr_total p \<le> 65535" using unat_u16_lt [of "read_be16 p 2"] by (simp add: hdr_total_def)
  moreover have "?s ! (2 * j) = 0" "?s ! (2 * j + 1) = 0" using assms(2,3) z ab by simp_all
  moreover have "2 * j + 1 < ?len" using assms(3) ab by linarith
  ultimately show ?thesis
    using transport_checksum_stored [of ?h ?s j c] c [unfolded t] lens(3) by (simp only: lens(2)) simp
qed

lemma recalculate_tcp_valid:
  assumes "ip_headed p" "hdr_total p \<le> length p" "hdr_ihl p + 20 \<le> hdr_total p"
  shows "calculate_ip_checksum (checked_segment (recalculate_tcp_checksum p) 6) = 0"
  by (rule stored_segment_valid [where j = 8 and a = "hdr_ihl p + 16" and b = "hdr_ihl p + 17", OF assms(1,2) _ _ _ refl refl])
    (use assms in \<open>auto simp: recalculate_tcp_checksum_def hdr_ihl_def hdr_total_def ip_headed_def IP_HEADER_MIN_def Let_def\<close>)

lemma recalculate_udp_valid:
  assumes "ip_headed p" "hdr_total p \<le> length p" "hdr_ihl p + 8 \<le> hdr_total p"
    and "read_be16 p (hdr_ihl p + 6) \<noteq> 0"
  shows "calculate_ip_checksum (checked_segment (recalculate_udp_checksum p) 17) = 0"
proof -
  let ?i = "hdr_ihl p" and ?len = "hdr_total p - hdr_ihl p"
  let ?z = "p[?i + 6 := 0, ?i + 7 := 0]"
  let ?t = "transport_checksum (pseudo_header ?z 17 ?len) (take ?len (drop ?i ?z))"
  let ?c = "if ?t = 0 then 0xFFFF else ?t"
  show ?thesis
    by (rule stored_segment_valid [where j = 3 and c = ?c and a = "?i + 6" and b = "?i + 7", OF assms(1,2) _ _ _ refl refl])
      (use assms in \<open>auto simp: recalculate_udp_checksum_def hdr_ihl_def hdr_total_def ip_headed_def IP_HEADER_MIN_def Let_def\<close>)
qed

section \<open>Rewriting an address\<close>

lemma recalculate_ip_header:
  "hdr_ihl (recalculate_ip_checksum p) = hdr_ihl p" "hdr_total (recalculate_ip_checksum p) = hdr_total p"
  by (simp_all add: hdr_ihl_def hdr_total_def read_be16_def recalculate_ip_nth)

lemma copied_header:
  assumes "20 \<le> length p" "offset = 12 \<or> offset = 16"
  shows "hdr_ihl (copy_at offset (octets ip) p) = hdr_ihl p" "hdr_total (copy_at offset (octets ip) p) = hdr_total p"
proof -
  have "p \<noteq> []" using assms(1) by auto
  then show "hdr_ihl (copy_at offset (octets ip) p) = hdr_ihl p" "hdr_total (copy_at offset (octets ip) p) = hdr_total p"
    using assms by (auto simp: hdr_ihl_def hdr_total_def read_be16_def nth_copy_at)
qed

lemma rewrite_nth:
  assumes "ip_headed p" "offset = 12 \<or> offset = 16" "j < length p"
    and "j \<noteq> hdr_ihl p + 16" "j \<noteq> hdr_ihl p + 17" "j \<noteq> hdr_ihl p + 6" "j \<noteq> hdr_ihl p + 7"
  shows "rewrite_ip_field p offset ip ! j = recalculate_ip_checksum (copy_at offset (octets ip) p) ! j"
  using assms ip_headed_length [OF assms(1)]
  by (auto simp: rewrite_ip_field_def Let_def transport_nth recalculate_ip_header copied_header IP_HEADER_MIN_def)

text \<open>What the rewrite promises: the field, a valid header, and the other header bytes.\<close>

lemma rewrite_header:
  fixes p offset ip
  assumes "ip_headed p" "offset = 12 \<or> offset = 16"
  defines "q \<equiv> rewrite_ip_field p offset ip"
  shows "read_ipv4 q offset = ip"
    and "calculate_ip_checksum (take (hdr_ihl p) q) = 0"
    and "j < hdr_ihl p \<Longrightarrow> j \<notin> {10, 11} \<Longrightarrow> j < offset \<or> offset + 4 \<le> j \<Longrightarrow> q ! j = p ! j"
    and "hdr_ihl q = hdr_ihl p" and "hdr_total q = hdr_total p"
proof -
  let ?p1 = "copy_at offset (octets ip) p"
  have len: "20 \<le> length p" using assms(1) by (rule ip_headed_length)
  have ihl: "20 \<le> hdr_ihl p" "hdr_ihl p \<le> length p" using assms(1) by (simp_all add: ip_headed_def)
  have p1: "ip_headed ?p1" "length ?p1 = length p" using assms len by (auto simp: ip_headed_def copied_header)
  have q: "q ! j = recalculate_ip_checksum ?p1 ! j" if "j < hdr_ihl p" for j
    using rewrite_nth [OF assms(1,2)] that ihl by (simp add: q_def)
  have oth: "q ! j = p ! j" if "j < hdr_ihl p" "j \<notin> {10, 11}" "j < offset \<or> offset + 4 \<le> j" for j
    using that ihl assms(2) len by (auto simp: q recalculate_ip_nth nth_copy_at)
  show "hdr_ihl q = hdr_ihl p" "hdr_total q = hdr_total p"
    using oth assms(2) ihl by (auto simp: hdr_ihl_def [of q] hdr_ihl_def [of p] hdr_total_def read_be16_def)
  have "read_ipv4 q offset = read_ipv4 ?p1 offset"
    using assms(2) ihl by (auto simp: read_ipv4_def q recalculate_ip_nth)
  then show "read_ipv4 q offset = ip" using assms(2) len by (auto simp: read_copy_ipv4)
  have "take (hdr_ihl p) q = take (hdr_ihl p) (recalculate_ip_checksum ?p1)"
    using q ihl p1(2) by (intro nth_equalityI) (simp_all add: q_def)
  then show "calculate_ip_checksum (take (hdr_ihl p) q) = 0"
    using recalculate_ip_valid [OF p1(1)] assms(2) len by (auto simp: copied_header)
  show "j < hdr_ihl p \<Longrightarrow> j \<notin> {10, 11} \<Longrightarrow> j < offset \<or> offset + 4 \<le> j \<Longrightarrow> q ! j = p ! j" by (rule oth)
qed

lemma unfragmented:
  assumes "20 \<le> length p"
  shows "ipv4_is_fragment p \<longrightarrow> read_be16 p 6 AND 0x3FFF \<noteq> 0"
proof -
  have "w AND 0x2000 = (w AND 0x3FFF) AND 0x2000" "w AND 0x1FFF = (w AND 0x3FFF) AND 0x1FFF" for w :: u16
    by (simp_all add: and.assoc)
  from this [of "read_be16 p 6"] have "read_be16 p 6 AND 0x3FFF = 0 \<Longrightarrow> read_be16 p 6 AND 0x2000 = 0 \<and> read_be16 p 6 AND 0x1FFF = 0"
    by simp
  then show ?thesis
    by (auto simp: ipv4_is_fragment_def ipv4_fragment_offset_def is_some_and_def Let_def split: option.splits if_splits)
qed

lemma rewrite_transport_valid:
  fixes p offset ip
  assumes "ip_headed p" "offset = 12 \<or> offset = 16" "hdr_total p \<le> length p" "read_be16 p 6 AND 0x3FFF = 0"
  defines "q \<equiv> rewrite_ip_field p offset ip"
  shows "p ! 9 = 6 \<Longrightarrow> hdr_ihl p + 20 \<le> hdr_total p \<Longrightarrow> calculate_ip_checksum (checked_segment q 6) = 0"
    and "p ! 9 = 17 \<Longrightarrow> hdr_ihl p + 8 \<le> hdr_total p \<Longrightarrow> read_be16 p (hdr_ihl p + 6) \<noteq> 0 \<Longrightarrow>
           calculate_ip_checksum (checked_segment q 17) = 0"
proof -
  let ?p2 = "recalculate_ip_checksum (copy_at offset (octets ip) p)"
  have len: "20 \<le> length p" using assms(1) by (rule ip_headed_length)
  have ihl: "20 \<le> hdr_ihl p" "hdr_ihl p \<le> length p" using assms(1) by (simp_all add: ip_headed_def)
  have n: "?p2 ! j = p ! j" if "j < 10 \<or> 20 \<le> j" "j < length p" for j
    using that assms(2) len by (auto simp: recalculate_ip_nth nth_copy_at)
  have l2: "length ?p2 = length p" using assms(2) len by auto
  have h2: "hdr_ihl ?p2 = hdr_ihl p" "hdr_total ?p2 = hdr_total p"
    using assms(2) len by (simp_all add: recalculate_ip_header copied_header)
  have ok2: "ip_headed ?p2" using assms(1) l2 h2 by (simp add: ip_headed_def)
  have "read_be16 ?p2 6 = read_be16 p 6" using n [of 6] n [of 7] len by (simp add: read_be16_def)
  then have f: "\<not> ipv4_is_fragment ?p2" using unfragmented [of ?p2] assms(4) l2 len by auto
  have q: "q = (if p ! 9 = 6 then recalculate_tcp_checksum ?p2 else if p ! 9 = 17 then recalculate_udp_checksum ?p2 else ?p2)"
    using f n [of 9] len assms(2) by (auto simp: q_def rewrite_ip_field_def Let_def IP_HEADER_MIN_def)
  show "p ! 9 = 6 \<Longrightarrow> hdr_ihl p + 20 \<le> hdr_total p \<Longrightarrow> calculate_ip_checksum (checked_segment q 6) = 0"
    using recalculate_tcp_valid [OF ok2] h2 l2 assms(3) by (simp add: q)
  assume u: "p ! 9 = 17" "hdr_ihl p + 8 \<le> hdr_total p" "read_be16 p (hdr_ihl p + 6) \<noteq> 0"
  then have "read_be16 ?p2 (hdr_ihl p + 6) \<noteq> 0"
    using n [of "hdr_ihl p + 6"] n [of "hdr_ihl p + 7"] ihl assms(3) by (simp add: read_be16_def add.commute add.left_commute)
  then show "calculate_ip_checksum (checked_segment q 17) = 0"
    using recalculate_udp_valid [OF ok2] h2 l2 assms(3) u by (simp add: q)
qed

text \<open>The bytes of the transport checksum a rewrite may touch: none of a later fragment.\<close>

definition checksum_bytes :: "bytes \<Rightarrow> nat set" where
  "checksum_bytes p =
     (if read_be16 p 6 AND 0x1FFF \<noteq> 0 then {}
      else if p ! 9 = 6 then {hdr_ihl p + 16, hdr_ihl p + 17}
      else if p ! 9 = 17 \<and> read_be16 p (hdr_ihl p + 6) \<noteq> 0 then {hdr_ihl p + 6, hdr_ihl p + 7}
      else {})"

lemma tcp_changes:
  assumes "j \<notin> {hdr_ihl p + 16, hdr_ihl p + 17}"
  shows "recalculate_tcp_checksum p ! j = p ! j" "update_fragment_tcp_checksum p a b ! j = p ! j"
  using assms by (simp_all add: recalculate_tcp_checksum_def update_fragment_tcp_checksum_def hdr_ihl_def Let_def copy_at_pair)

lemma udp_changes:
  assumes "length p < hdr_ihl p + 8 \<or> read_be16 p (hdr_ihl p + 6) = 0 \<or> j \<notin> {hdr_ihl p + 6, hdr_ihl p + 7}"
  shows "recalculate_udp_checksum p ! j = p ! j" "update_fragment_udp_checksum p a b ! j = p ! j"
  using assms
  by (elim disjE, auto simp: recalculate_udp_checksum_def update_fragment_udp_checksum_def hdr_ihl_def Let_def copy_at_pair
      IP_HEADER_MIN_def)

lemma rewrite_changes:
  assumes "ip_headed p" "offset = 12 \<or> offset = 16" "j < length p"
    and "j < offset \<or> offset + 4 \<le> j" "j \<notin> {10, 11}" "j \<notin> checksum_bytes p"
  shows "rewrite_ip_field p offset ip ! j = p ! j"
proof -
  let ?p = "recalculate_ip_checksum (copy_at offset (octets ip) p)" and ?w = "read_be16 p 6"
  have len: "20 \<le> length p" using assms(1) by (rule ip_headed_length)
  have l: "length ?p = length p" using assms(2) len by auto
  have ihl: "hdr_ihl ?p = hdr_ihl p" using assms(2) len by (simp add: recalculate_ip_header copied_header)
  have n: "?p ! i = p ! i" if "i < length p" "i < offset \<or> offset + 4 \<le> i" "i \<notin> {10, 11}" for i
    using that assms(2) len by (auto simp: recalculate_ip_nth nth_copy_at)
  have h: "read_be16 ?p 6 = ?w" "?p ! 9 = p ! 9" using n [of 6] n [of 7] n [of 9] len assms(2) by (auto simp: read_be16_def)
  have off: "ipv4_fragment_offset ?p = Some (?w AND 0x1FFF)"
    using assms(1) len by (simp add: ipv4_fragment_offset_def Let_def IP_HEADER_MIN_def l [simplified] h hdr_ihl_def [symmetric] ihl ip_headed_def)
  have j: "?p ! j = p ! j" using n assms(3-5) by blast
  have frag: "?w AND 0x1FFF \<noteq> 0 \<Longrightarrow> ipv4_is_fragment ?p" by (simp add: ipv4_is_fragment_def off is_some_and_def)
  have q: "rewrite_ip_field p offset ip =
      (if ipv4_is_fragment ?p then
         (if ?w AND 0x1FFF = 0 then
            (if p ! 9 = 6 then update_fragment_tcp_checksum ?p (read_ipv4 p offset) ip
             else if p ! 9 = 17 then update_fragment_udp_checksum ?p (read_ipv4 p offset) ip else ?p)
          else ?p)
       else if p ! 9 = 6 then recalculate_tcp_checksum ?p else if p ! 9 = 17 then recalculate_udp_checksum ?p else ?p)"
    using len assms(2) by (auto simp: rewrite_ip_field_def Let_def IP_HEADER_MIN_def off h)
  have "read_be16 ?p (hdr_ihl p + 6) = read_be16 p (hdr_ihl p + 6)" if "\<not> length p < hdr_ihl p + 8"
    using that n [of "hdr_ihl p + 6"] n [of "hdr_ihl p + 7"] assms(1,2) by (auto simp: read_be16_def ip_headed_def add.commute)
  then have udp: "length ?p < hdr_ihl ?p + 8 \<or> read_be16 ?p (hdr_ihl ?p + 6) = 0 \<or> j \<notin> {hdr_ihl ?p + 6, hdr_ihl ?p + 7}"
    if "?w AND 0x1FFF = 0" "p ! 9 = 17"
    using that assms(6) unfolding ihl l by (auto simp: checksum_bytes_def split: if_splits)
  have tcp: "j \<notin> {hdr_ihl ?p + 16, hdr_ihl ?p + 17}" if "?w AND 0x1FFF = 0" "p ! 9 = 6"
    using that assms(6) unfolding ihl by (auto simp: checksum_bytes_def)
  show ?thesis unfolding q using frag tcp_changes [OF tcp] udp_changes [OF udp] j by (simp split: if_split)
qed

text \<open>
  C37. Rewriting the source or destination address of a well-formed packet sets the
  field, leaves the header checksum valid, leaves the TCP or non-zero UDP checksum of an
  unfragmented packet valid over the whole segment, and changes no byte but the field,
  the header checksum and, unless the packet is a later fragment, the two bytes of the
  TCP or of a non-zero UDP checksum: the payload of a later fragment is untouched.
\<close>

theorem rewrite_keeps_checksums:
  assumes "ip_headed p" "offset = IP_SRC_OFFSET \<or> offset = IP_DST_OFFSET" "hdr_total p \<le> length p"
  shows "let q = rewrite_ip_field p offset ip; ihl = hdr_ihl p; whole = (read_be16 p 6 AND 0x3FFF = 0) in
    length q = length p \<and> read_ipv4 q offset = ip \<and>
    calculate_ip_checksum (take ihl q) = 0 \<and>
    (whole \<and> p ! 9 = 6 \<and> ihl + 20 \<le> hdr_total p \<longrightarrow> calculate_ip_checksum (checked_segment q 6) = 0) \<and>
    (whole \<and> p ! 9 = 17 \<and> ihl + 8 \<le> hdr_total p \<and> read_be16 p (ihl + 6) \<noteq> 0 \<longrightarrow>
       calculate_ip_checksum (checked_segment q 17) = 0) \<and>
    (\<forall>j < length p. (j < offset \<or> offset + 4 \<le> j) \<and> j \<notin> {10, 11} \<and> j \<notin> checksum_bytes p \<longrightarrow> q ! j = p ! j)"
proof -
  have o: "offset = 12 \<or> offset = 16" using assms(2) by (simp add: IP_SRC_OFFSET_def IP_DST_OFFSET_def)
  show ?thesis
    using rewrite_header(1,2) [OF assms(1) o] rewrite_transport_valid [OF assms(1) o assms(3)] rewrite_changes [OF assms(1) o]
    by (simp add: Let_def)
qed

definition sample_tcp :: bytes where
  "sample_tcp = [0x45, 0, 0, 42, 0, 1, 0, 0, 64, 6, 0, 0, 192, 168, 1, 2, 128, 116, 0, 1,
     0xC0, 0, 1, 0xBB, 0, 0, 0, 1, 0, 0, 0, 0, 0x50, 2, 0xFF, 0xFF, 0, 0, 0, 0, 7, 9]"

theorem rewrite_keeps_checksums_witness:
  "ip_headed sample_tcp \<and>
   calculate_ip_checksum (checked_segment (rewrite_ip_field sample_tcp IP_SRC_OFFSET (Ipv4 10 200 7 9)) 6) = 0"
proof -
  have "ip_headed sample_tcp" "hdr_total sample_tcp \<le> length sample_tcp"
    and "read_be16 sample_tcp 6 AND 0x3FFF = 0 \<and> sample_tcp ! 9 = 6 \<and> hdr_ihl sample_tcp + 20 \<le> hdr_total sample_tcp"
    by code_simp+
  then show ?thesis
    using rewrite_keeps_checksums [of sample_tcp IP_SRC_OFFSET "Ipv4 10 200 7 9"] by (simp add: Let_def)
qed

section \<open>The address maps\<close>

definition tun_address :: "ipv4 \<Rightarrow> bool" where
  "tun_address ip \<longleftrightarrow>
     (\<exists>a b. ip = Ipv4 10 200 a b \<and> \<not> (a = 0 \<and> b = 0) \<and> \<not> (a = 255 \<and> b = 255))"

definition tun_ok :: "tun_maps \<Rightarrow> bool" where
  "tun_ok m \<longleftrightarrow> dm_ok (ip_to_session m) \<and> dm_ok (session_to_ip m) \<and>
     (\<forall>sid ip. dm_get (session_to_ip m) sid = Some ip \<longrightarrow>
        tun_address ip \<and> (\<exists>x. dm_get (ip_to_session m) ip = Some x \<and> sm_session_id x = sid)) \<and>
     (\<forall>ip x. dm_get (ip_to_session m) ip = Some x \<longrightarrow> dm_get (session_to_ip m) (sm_session_id x) = Some ip)"

lemma tun_ok_new [simp]: "tun_ok tun_maps_new"
  by (simp add: tun_ok_def tun_maps_new_def)

lemma assign_from_pairs_Some:
  "assign_from_pairs sid m ps = Some ip \<Longrightarrow>
     tun_address ip \<and> (\<forall>x. dm_get m ip = Some x \<longrightarrow> sm_session_id x = sid)"
  by (induction ps) (auto simp: tun_address_def Let_def split: if_splits option.splits)

lemma tun_ok_put:
  assumes "tun_ok m" "tun_address ip" "sm_session_id x = sid"
    and "dm_get (session_to_ip m) sid = None \<or> dm_get (session_to_ip m) sid = Some ip"
    and "\<forall>y. dm_get (ip_to_session m) ip = Some y \<longrightarrow> sm_session_id y = sid"
  shows "tun_ok (m\<lparr>session_to_ip := dm_insert sid ip (session_to_ip m), ip_to_session := dm_insert ip x (ip_to_session m)\<rparr>)"
proof -
  have "dm_get (session_to_ip m) s \<noteq> Some ip" if "s \<noteq> sid" for s
    using assms(1,5) that unfolding tun_ok_def by fastforce
  moreover have "sm_session_id y \<noteq> sid" if "i \<noteq> ip" "dm_get (ip_to_session m) i = Some y" for i y
    using assms(1,4) that unfolding tun_ok_def by fastforce
  ultimately show ?thesis
    using assms(1-3) by (auto simp: tun_ok_def)
qed

lemma dm_get_foldr_remove:
  "dm_get (foldr dm_remove ks m) k = (if k \<in> set ks then None else dm_get m k)"
  by (induction ks) auto

lemma dm_ok_foldr_remove: "dm_ok m \<Longrightarrow> dm_ok (foldr dm_remove ks m)"
  by (induction ks) auto

lemma remove_expired_get:
  assumes "tun_ok m"
  shows "dm_get (session_to_ip (remove_expired alive m)) sid =
           (if alive sid then dm_get (session_to_ip m) sid else None)"
    and "dm_get (ip_to_session (remove_expired alive m)) ip =
           (case dm_get (ip_to_session m) ip of None \<Rightarrow> None | Some x \<Rightarrow> if alive (sm_session_id x) then Some x else None)"
proof -
  show "dm_get (session_to_ip (remove_expired alive m)) sid = (if alive sid then dm_get (session_to_ip m) sid else None)"
    using assms by (auto simp: tun_ok_def remove_expired_def Let_def split: option.splits)
  have dead: "ip \<in> set (map snd (filter (\<lambda>(sid, ip). \<not> alive sid) (session_to_ip m))) \<longleftrightarrow>
      (\<exists>sid. dm_get (session_to_ip m) sid = Some ip \<and> \<not> alive sid)"
    using assms dm_get_in_set [of "session_to_ip m"] by (force simp: tun_ok_def)
  have "(\<exists>sid. dm_get (session_to_ip m) sid = Some ip \<and> \<not> alive sid) \<longleftrightarrow>
      (\<exists>x. dm_get (ip_to_session m) ip = Some x \<and> \<not> alive (sm_session_id x))"
    using assms unfolding tun_ok_def by metis
  then show "dm_get (ip_to_session (remove_expired alive m)) ip =
      (case dm_get (ip_to_session m) ip of None \<Rightarrow> None | Some x \<Rightarrow> if alive (sm_session_id x) then Some x else None)"
    using dead by (auto simp: remove_expired_def Let_def dm_get_foldr_remove simp del: set_map set_filter split: option.splits)
qed

lemma tun_ok_remove_expired [simp]:
  assumes "tun_ok m"
  shows "tun_ok (remove_expired alive m)"
proof -
  have "dm_ok (ip_to_session (remove_expired alive m))" "dm_ok (session_to_ip (remove_expired alive m))"
    using assms by (simp_all add: tun_ok_def remove_expired_def Let_def dm_ok_foldr_remove)
  moreover have "dm_get (session_to_ip (remove_expired alive m)) sid = Some ip \<longleftrightarrow>
        dm_get (session_to_ip m) sid = Some ip \<and> alive sid"
    "dm_get (ip_to_session (remove_expired alive m)) ip = Some x \<longleftrightarrow>
        dm_get (ip_to_session m) ip = Some x \<and> alive (sm_session_id x)" for sid ip x
    by (auto simp: remove_expired_get [OF assms] split: option.splits)
  ultimately show ?thesis
    using assms unfolding tun_ok_def by simp metis
qed

definition tun_put :: "inbound_tun_packet \<Rightarrow> ipv4 \<Rightarrow> tun_maps \<Rightarrow> tun_maps" where
  "tun_put pkt ip m =
     (let x = \<lparr>sm_session_id = it_session_id pkt, sm_client_addr = it_client_addr pkt,
               sm_original_src_ip = read_ipv4 (it_raw_ip_packet pkt) 12\<rparr>
      in m\<lparr>session_to_ip := dm_insert (it_session_id pkt) ip (session_to_ip m), ip_to_session := dm_insert ip x (ip_to_session m)\<rparr>)"

lemma dm_insert_same: "dm_get m k = Some v \<Longrightarrow> dm_insert k v m = m"
  by (simp add: dm_get_def dm_insert_def update_triv)

lemma writer_forwards:
  assumes "dm_get (session_to_ip m) (it_session_id pkt) = Some ip \<or>
      dm_get (session_to_ip m) (it_session_id pkt) = None \<and> assign_session_ip (it_session_id pkt) (ip_to_session m) = Some ip"
    and "\<forall>y. dm_get (ip_to_session m) ip = Some y \<longrightarrow> sm_session_id y = it_session_id pkt"
    and "20 \<le> length (it_raw_ip_packet pkt)" "drop_bit 4 (it_raw_ip_packet pkt ! 0) = 4"
    and "it_raw_ip_packet pkt ! 9 = 6 \<or> it_raw_ip_packet pkt ! 9 = 17"
  shows "tun_writer_step pkt m = (Some (rewrite_src_ip (it_raw_ip_packet pkt) ip), tun_put pkt ip m)"
  using assms
  by (cases "dm_get (ip_to_session m) ip"; cases "the (dm_get (ip_to_session m) ip)"; elim disjE)
    (simp_all add: tun_writer_step_def tun_put_def Let_def IP_HEADER_MIN_def dm_insert_same)

lemma writer_rejects:
  assumes "length (it_raw_ip_packet pkt) < 20 \<or> drop_bit 4 (it_raw_ip_packet pkt ! 0) \<noteq> 4 \<or>
      \<not> (it_raw_ip_packet pkt ! 9 = 6 \<or> it_raw_ip_packet pkt ! 9 = 17) \<or>
      dm_get (session_to_ip m) (it_session_id pkt) = None \<and> assign_session_ip (it_session_id pkt) (ip_to_session m) = None"
  shows "tun_writer_step pkt m = (None, m)"
  using assms by (auto simp: tun_writer_step_def Let_def IP_HEADER_MIN_def)

lemma writer_cases:
  assumes "tun_ok m"
  obtains (reject) "tun_writer_step pkt m = (None, m)"
  | (forward) ip where "tun_writer_step pkt m = (Some (rewrite_src_ip (it_raw_ip_packet pkt) ip), tun_put pkt ip m)"
      "tun_address ip" "\<forall>y. dm_get (ip_to_session m) ip = Some y \<longrightarrow> sm_session_id y = it_session_id pkt"
      "dm_get (session_to_ip m) (it_session_id pkt) = None \<or> dm_get (session_to_ip m) (it_session_id pkt) = Some ip"
      "20 \<le> length (it_raw_ip_packet pkt)"
proof -
  let ?sid = "it_session_id pkt" and ?p = "it_raw_ip_packet pkt"
  consider "length ?p < 20 \<or> drop_bit 4 (?p ! 0) \<noteq> 4 \<or> \<not> (?p ! 9 = 6 \<or> ?p ! 9 = 17) \<or>
      dm_get (session_to_ip m) ?sid = None \<and> assign_session_ip ?sid (ip_to_session m) = None"
    | ip where "20 \<le> length ?p" "drop_bit 4 (?p ! 0) = 4" "?p ! 9 = 6 \<or> ?p ! 9 = 17"
      "dm_get (session_to_ip m) ?sid = Some ip \<or>
       dm_get (session_to_ip m) ?sid = None \<and> assign_session_ip ?sid (ip_to_session m) = Some ip"
    by (metis not_less option.exhaust)
  then show thesis
  proof cases
    case 1
    then show ?thesis by (intro reject writer_rejects)
  next
    case (2 ip)
    have "tun_address ip \<and> (\<forall>y. dm_get (ip_to_session m) ip = Some y \<longrightarrow> sm_session_id y = ?sid)"
      using 2(4)
    proof
      assume "dm_get (session_to_ip m) ?sid = Some ip"
      then show ?thesis using assms unfolding tun_ok_def by fastforce
    next
      assume "dm_get (session_to_ip m) ?sid = None \<and> assign_session_ip ?sid (ip_to_session m) = Some ip"
      then show ?thesis unfolding assign_session_ip_def using assign_from_pairs_Some by blast
    qed
    then show ?thesis using writer_forwards [OF 2(4) _ 2(1-3)] 2(1,4) by (intro forward) auto
  qed
qed

lemma tun_ok_put_packet:
  assumes "tun_ok m" "tun_address ip"
    and "dm_get (session_to_ip m) (it_session_id pkt) = None \<or> dm_get (session_to_ip m) (it_session_id pkt) = Some ip"
    and "\<forall>y. dm_get (ip_to_session m) ip = Some y \<longrightarrow> sm_session_id y = it_session_id pkt"
  shows "tun_ok (tun_put pkt ip m)"
  unfolding tun_put_def Let_def by (rule tun_ok_put [OF assms(1,2) _ assms(3,4)]) simp

lemma tun_ok_writer [simp]:
  assumes "tun_ok m"
  shows "tun_ok (snd (tun_writer_step pkt m))"
  by (rule writer_cases [OF assms, of pkt]) (simp_all add: assms tun_ok_put_packet)

datatype tun_event = TunPacket inbound_tun_packet | TunExpire "session_id list"

text \<open>The writer's packets and the expiry calls in the order they reach the maps.\<close>

fun tun_event_step :: "tun_event \<Rightarrow> tun_maps \<Rightarrow> tun_maps" where
  "tun_event_step (TunPacket pkt) m = snd (tun_writer_step pkt m)"
| "tun_event_step (TunExpire live) m = remove_expired (\<lambda>sid. sid \<in> set live) m"

definition tun_run :: "tun_event list \<Rightarrow> tun_maps" where
  "tun_run es = fold tun_event_step es tun_maps_new"

lemma tun_ok_step: "tun_ok m \<Longrightarrow> tun_ok (tun_event_step e m)"
  by (cases e) simp_all

lemma tun_ok_run: "tun_ok (tun_run es)"
proof -
  have "tun_ok m \<Longrightarrow> tun_ok (fold tun_event_step es m)" for m
    by (induction es arbitrary: m) (simp_all add: tun_ok_step)
  then show ?thesis by (simp add: tun_run_def)
qed

text \<open>
  C38. After any sequence of packets and expiries, the TUN address of a session lies in
  10.200.0.0/16 without its first and last address, belongs to no other session, and a
  packet read from the device for that address goes to that session.
\<close>

theorem tun_addresses_are_exclusive:
  assumes "dm_get (session_to_ip (tun_run es)) sid = Some ip"
  shows "tun_address ip \<and>
    (\<forall>sid'. dm_get (session_to_ip (tun_run es)) sid' = Some ip \<longrightarrow> sid' = sid) \<and>
    (\<forall>q. 20 \<le> length q \<and> read_ipv4 q 16 = ip \<longrightarrow>
       (\<exists>r. tun_reader_step q (tun_run es) = Some r \<and> tp_session_id r = sid))"
proof -
  have ok: "tun_ok (tun_run es)" by (rule tun_ok_run)
  then obtain x where x: "dm_get (ip_to_session (tun_run es)) ip = Some x" "sm_session_id x = sid"
    using assms unfolding tun_ok_def by blast
  moreover have "tun_address ip" using ok assms unfolding tun_ok_def by blast
  moreover have "sid' = sid" if "dm_get (session_to_ip (tun_run es)) sid' = Some ip" for sid'
    using ok that x unfolding tun_ok_def by fastforce
  ultimately show ?thesis by (auto simp: tun_reader_step_def IP_HEADER_MIN_def)
qed

text \<open>
  C39. A reply to the address under which a packet was written to the TUN device goes
  back to the session and client of that packet, with the client's original source
  address as destination and the sender unchanged.
\<close>

theorem tun_roundtrip:
  assumes "tun_writer_step pkt (tun_run es) = (Some out, m)" "ip_headed (it_raw_ip_packet pkt)"
    and "ip_headed q" "read_ipv4 q 16 = read_ipv4 out 12"
  shows "\<exists>r. tun_reader_step q m = Some r \<and> tp_session_id r = it_session_id pkt \<and>
    tp_client_addr r = it_client_addr pkt \<and> length (tp_ip_packet r) = length q \<and>
    read_ipv4 (tp_ip_packet r) 16 = read_ipv4 (it_raw_ip_packet pkt) 12 \<and>
    read_ipv4 (tp_ip_packet r) 12 = read_ipv4 q 12"
proof (rule writer_cases [OF tun_ok_run [of es], of pkt])
  fix ip
  assume step: "tun_writer_step pkt (tun_run es) = (Some (rewrite_src_ip (it_raw_ip_packet pkt) ip), tun_put pkt ip (tun_run es))"
  then have "read_ipv4 out 12 = ip" "m = tun_put pkt ip (tun_run es)"
    using assms(1) rewrite_header(1) [OF assms(2), of 12 ip] by (auto simp: rewrite_src_ip_def IP_SRC_OFFSET_def)
  moreover have "q ! j = rewrite_ip_field q 16 x ! j" if "j \<in> {12, 13, 14, 15}" for j x
    using that rewrite_header(3) [OF assms(3), of 16 j x] assms(3) by (auto simp: ip_headed_def)
  ultimately show ?thesis
    using assms(4) rewrite_header(1) [OF assms(3), of 16] ip_headed_length [OF assms(3)]
    by (simp add: tun_reader_step_def tun_put_def Let_def IP_HEADER_MIN_def rewrite_dst_ip_def IP_DST_OFFSET_def
        read_ipv4_def [of _ 12])
qed (use assms in simp)

definition sample_tun_packet :: "u8 \<Rightarrow> inbound_tun_packet" where
  "sample_tun_packet n = \<lparr>it_session_id = [7, n, 1, 2, 3, 4, 5, 6], it_client_addr = SockV4 (Ipv4 203 0 113 n) 40000,
     it_raw_ip_packet = sample_tcp\<rparr>"

definition sample_tun_events :: "tun_event list" where
  "sample_tun_events = [TunPacket (sample_tun_packet 9), TunPacket (sample_tun_packet 10)]"

definition sample_tun_reply :: bytes where
  "sample_tun_reply = [0x45, 0, 0, 40, 0, 1, 0, 0, 64, 6, 0, 0, 128, 116, 0, 1, 10, 200, 7, 9,
     1, 0xBB, 0xC0, 0, 0, 0, 0, 1, 0, 0, 0, 0, 0x50, 2, 0xFF, 0xFF, 0, 0, 0, 0]"

lemmas sample_tun_defs = sample_tun_events_def sample_tun_packet_def sample_tcp_def sample_tun_reply_def
  tun_run_def tun_maps_new_def tun_writer_step_def assign_session_ip_def IP_HEADER_MIN_def read_ipv4_def Let_def

lemma sample_drop_bit: "drop_bit 4 (0x45 :: u8) = 4"
  by code_simp

lemma sample_tun_maps:
  "dm_get (session_to_ip (tun_run sample_tun_events)) [7, 9, 1, 2, 3, 4, 5, 6] = Some (Ipv4 10 200 7 9)"
  "fst (tun_writer_step (sample_tun_packet 9) (tun_run sample_tun_events)) = Some (rewrite_src_ip sample_tcp (Ipv4 10 200 7 9))"
  by (simp_all add: sample_tun_defs sample_drop_bit)

theorem tun_addresses_are_exclusive_witness:
  "\<exists>r. tun_reader_step sample_tun_reply (tun_run sample_tun_events) = Some r \<and> tp_session_id r = [7, 9, 1, 2, 3, 4, 5, 6]"
proof -
  have "20 \<le> length sample_tun_reply \<and> read_ipv4 sample_tun_reply 16 = Ipv4 10 200 7 9"
    by code_simp
  then show ?thesis using tun_addresses_are_exclusive [OF sample_tun_maps(1)] by blast
qed

theorem tun_roundtrip_witness:
  "\<exists>r. tun_reader_step sample_tun_reply (snd (tun_writer_step (sample_tun_packet 9) (tun_run sample_tun_events))) = Some r \<and>
     tp_client_addr r = SockV4 (Ipv4 203 0 113 9) 40000 \<and> read_ipv4 (tp_ip_packet r) 16 = Ipv4 192 168 1 2"
proof -
  let ?step = "tun_writer_step (sample_tun_packet 9) (tun_run sample_tun_events)"
  have step: "?step = (Some (rewrite_src_ip sample_tcp (Ipv4 10 200 7 9)), snd ?step)"
    using sample_tun_maps(2) by (metis prod.collapse)
  moreover have h: "ip_headed sample_tcp" "ip_headed sample_tun_reply" by code_simp+
  moreover have "read_ipv4 (rewrite_src_ip sample_tcp (Ipv4 10 200 7 9)) 12 = Ipv4 10 200 7 9"
    using rewrite_header(1) [OF h(1)] by (simp add: rewrite_src_ip_def IP_SRC_OFFSET_def)
  moreover have "read_ipv4 sample_tun_reply 16 = Ipv4 10 200 7 9" "read_ipv4 sample_tcp 12 = Ipv4 192 168 1 2" by code_simp+
  ultimately show ?thesis
    using tun_roundtrip [OF step, of sample_tun_reply] by (auto simp: sample_tun_packet_def)
qed

text \<open>
  The device itself is configured with 10.200.0.1/16.  Only 10.200.0.0 and
  10.200.255.255 are skipped, so a session whose identifier starts with 00 01 gets the
  device's own address.
\<close>

definition TUN_INTERFACE_ADDR :: ipv4 where
  "TUN_INTERFACE_ADDR = Ipv4 10 200 0 1"

lemma interface_address_is_assignable:
  "assign_session_ip (0 # 1 # rest) [] = Some TUN_INTERFACE_ADDR"
  by (simp add: assign_session_ip_def TUN_INTERFACE_ADDR_def)

end
