(* ===== verification/Relay_Core.thy ===== *)
theory Relay_Core
  imports Gate Wire Packet Account_Budget Resolve Tcp_Tun
begin

text \<open>
  What both datapaths do alike (\<^verbatim>\<open>src/src/main.rs\<close>, and its copy in
  \<^verbatim>\<open>src/src/datapath_v2.rs\<close>): the state next to the admission tables (destination policy,
  account budgets, TUN maps and queues, pending lookups), handing packets to the TUN writer,
  the TUN threads and the TUN response thread, RTT reports, resolve requests and tasks, and
  the expiry of sessions, with the invariant of that state.

  \<open>v_sent\<close>, \<open>v_upstream\<close> and \<open>v_tun_written\<close> record what is handed to the client socket, to the
  sockets of the flows and to the TUN device.
\<close>

section \<open>Definitions\<close>

definition MAX_FLOWS_PER_SESSION :: nat where
  "MAX_FLOWS_PER_SESSION = 1024"

definition SESSION_TIMEOUT :: nat where
  "SESSION_TIMEOUT = duration_secs 180"

definition FLOW_GRACE_PERIOD :: nat where
  "FLOW_GRACE_PERIOD = duration_secs 30"

definition TUN_QUEUE_CAP :: nat where
  "TUN_QUEUE_CAP = 4096"

definition TUN_RESPONSE_CAP :: nat where
  "TUN_RESPONSE_CAP = 4096"

record relay_config =
  vc_rx :: rx_config
  vc_tcp_enabled :: bool
  vc_tun_udp_enabled :: bool
  vc_tun_present :: bool

abbreviation vc_auth_required :: "'c relay_config_scheme \<Rightarrow> bool" where
  "vc_auth_required c \<equiv> requires_auth (ac_mode (c_auth (vc_rx c)))"

record relay = gate +
  v_policy :: dest_policy
  v_budgets :: budgets
  v_tun :: tun_maps
  v_tun_queue :: "inbound_tun_packet list"
  v_tun_responses :: "tun_tx_packet list"
  v_tun_held :: "tun_tx_packet option"
  v_resolves :: "(sock_addr \<times> session_id \<times> u16 \<times> string list) list"
  v_sent :: "(sock_addr \<times> bytes) list"
  v_upstream :: "(sock_addr \<times> bytes) list"
  v_tun_written :: "bytes list"

definition relay_new :: "instant \<Rightarrow> dest_policy \<Rightarrow> budget_policy \<Rightarrow> relay" where
  "relay_new now policy budget = gate.extend (gate_new now)
     \<lparr>v_policy = policy, v_budgets = budgets_new budget, v_tun = tun_maps_new, v_tun_queue = [], v_tun_responses = [],
      v_tun_held = None, v_resolves = [], v_sent = [], v_upstream = [], v_tun_written = []\<rparr>"

definition relay_send :: "sock_addr \<Rightarrow> bytes \<Rightarrow> 'a relay_scheme \<Rightarrow> 'a relay_scheme" where
  "relay_send addr frame v = v\<lparr>v_sent := v_sent v @ [(addr, frame)]\<rparr>"

definition count_out :: "session_id \<Rightarrow> nat \<Rightarrow> 'a relay_scheme \<Rightarrow> 'a relay_scheme" where
  "count_out sid n v =
     v\<lparr>g_stats := (g_stats v)\<lparr>packets_out := packets_out (g_stats v) + 1, bytes_out := bytes_out (g_stats v) + of_nat n\<rparr>,
       g_session_traffic := record_session_egress (g_session_traffic v) sid n\<rparr>"

definition rtt_report :: "rx_event \<Rightarrow> 'a relay_scheme \<Rightarrow> 'a relay_scheme" where
  "rtt_report ev v =
     (let rtt_us = of_nat (be_field (ev_frame ev) (SESSION_ID_LEN + 1) 4) :: u32 in
      v\<lparr>g_session_traffic :=
          (case dm_get (g_session_traffic v) (ev_sid ev) of
             None \<Rightarrow> g_session_traffic v
           | Some t \<Rightarrow> dm_insert (ev_sid ev) (t\<lparr>st_last_rtt_us := ucast rtt_us\<rparr>) (g_session_traffic v))\<rparr>)"

definition resolve_request :: "rx_event \<Rightarrow> 'a relay_scheme \<Rightarrow> 'a relay_scheme" where
  "resolve_request ev v =
     (case parse_resolve_request (ev_frame ev) (ev_len ev) of
        None \<Rightarrow> v
      | Some (request_id, hosts) \<Rightarrow> v\<lparr>v_resolves := v_resolves v @ [(ev_addr ev, ev_sid ev, request_id, hosts)]\<rparr>)"

definition set_user :: "session_id \<Rightarrow> ipv4 \<Rightarrow> 'a relay_scheme \<Rightarrow> 'a relay_scheme" where
  "set_user sid src_ip v =
     (case dm_get (g_sessions v) sid of
        None \<Rightarrow> v
      | Some s \<Rightarrow>
          if auth_state s = Authenticated then v
          else v\<lparr>g_sessions := dm_insert sid (s\<lparr>user_id := dotted src_ip\<rparr>) (g_sessions v)\<rparr>)"

definition tun_send :: "'c relay_config_scheme \<Rightarrow> bool \<Rightarrow> rx_event \<Rightarrow> bytes \<Rightarrow> 'a relay_scheme \<Rightarrow> 'a relay_scheme" where
  "tun_send c tcp ev raw v =
     (if vc_tun_present c \<and> length (v_tun_queue v) < TUN_QUEUE_CAP then
        let v = v\<lparr>v_tun_queue := v_tun_queue v @
                  [\<lparr>it_session_id = ev_sid ev, it_client_addr = ev_addr ev, it_raw_ip_packet = raw\<rparr>]\<rparr>
        in if tcp then v\<lparr>g_stats := (g_stats v)\<lparr>tcp_forwarded := tcp_forwarded (g_stats v) + 1\<rparr>\<rparr>
           else v\<lparr>g_stats := (g_stats v)\<lparr>tun_udp_forwarded := tun_udp_forwarded (g_stats v) + 1\<rparr>\<rparr>
      else g_drop_in TunQueue v)"

definition touch_session :: "session_id \<Rightarrow> instant \<Rightarrow> nat \<Rightarrow> 'a relay_scheme \<Rightarrow> 'a relay_scheme" where
  "touch_session sid now now_unix v =
     (case dm_get (g_sessions v) sid of
        None \<Rightarrow> v
      | Some s \<Rightarrow> v\<lparr>g_sessions := dm_insert sid (s\<lparr>last_activity := now, last_activity_unix := now_unix\<rparr>) (g_sessions v)\<rparr>)"

text \<open>What the response task and the TUN response thread share: the endpoint, the budget and the send.\<close>

definition respond ::
  "'c relay_config_scheme \<Rightarrow> session_id \<Rightarrow> bytes \<Rightarrow> bytes \<Rightarrow> nat \<Rightarrow> nat \<Rightarrow> bool \<Rightarrow> 'a relay_scheme \<Rightarrow> bool \<times> 'a relay_scheme" where
  "respond c sid ip_packet frame now_unix mono_ms send_ok v =
     (case forwarding_addr (g_sessions v) sid (vc_auth_required c) now_unix of
        None \<Rightarrow> (False, v)
      | Some addr \<Rightarrow>
          let (within, b) = account_budget_allow (v_budgets v) (g_sessions v) sid True ip_packet mono_ms;
              v = v\<lparr>v_budgets := b\<rparr>
          in if \<not> within then (False, g_drop_out RateLimit v)
             else
               let v = relay_send addr frame v
               in if send_ok then (True, count_out sid (length frame) v) else (False, v))"

definition tun_response_step :: "'c relay_config_scheme \<Rightarrow> nat \<Rightarrow> nat \<Rightarrow> bool \<Rightarrow> 'a relay_scheme \<Rightarrow> 'a relay_scheme" where
  "tun_response_step c now_unix mono_ms send_ok v =
     (case v_tun_responses v of
        [] \<Rightarrow> v
      | p # rest \<Rightarrow> snd (respond c (tp_session_id p) (tp_ip_packet p) (tp_session_id p @ tp_ip_packet p)
                    now_unix mono_ms send_ok (v\<lparr>v_tun_responses := rest\<rparr>)))"

text \<open>
  The TUN threads.  While the response channel is full the reader blocks in \<^verbatim>\<open>send\<close> with the packet
  in hand; until it can pass it on it reads nothing.
\<close>

definition tun_write_step :: "'a relay_scheme \<Rightarrow> 'a relay_scheme" where
  "tun_write_step v =
     (case v_tun_queue v of
        [] \<Rightarrow> v
      | pkt # rest \<Rightarrow>
          let (out, m) = tun_writer_step pkt (v_tun v);
              v = v\<lparr>v_tun_queue := rest, v_tun := m\<rparr>
          in (case out of None \<Rightarrow> v | Some p \<Rightarrow> v\<lparr>v_tun_written := v_tun_written v @ [p]\<rparr>))"

definition tun_read_step :: "bytes \<Rightarrow> 'a relay_scheme \<Rightarrow> 'a relay_scheme" where
  "tun_read_step packet v =
     (let room = (length (v_tun_responses v) < TUN_RESPONSE_CAP) in
      case v_tun_held v of
        Some p \<Rightarrow> if room then v\<lparr>v_tun_responses := v_tun_responses v @ [p], v_tun_held := None\<rparr> else v
      | None \<Rightarrow>
          (case tun_reader_step packet (v_tun v) of
             None \<Rightarrow> v
           | Some p \<Rightarrow>
               if room then v\<lparr>v_tun_responses := v_tun_responses v @ [p]\<rparr> else v\<lparr>v_tun_held := Some p\<rparr>))"

text \<open>A resolve task, with the resolver of the host as argument.\<close>

definition resolve_step :: "(string \<Rightarrow> ip_addr list option) \<Rightarrow> 'a relay_scheme \<Rightarrow> 'a relay_scheme" where
  "resolve_step lookup v =
     (case v_resolves v of
        [] \<Rightarrow> v
      | (addr, sid, request_id, hosts) # rest \<Rightarrow>
          relay_send addr (resolve_task lookup sid request_id hosts) (v\<lparr>v_resolves := rest\<rparr>))"

definition expire_session :: "session_id \<times> session_entry \<Rightarrow> 'a gate_scheme \<Rightarrow> 'a gate_scheme" where
  "expire_session entry g =
     (let (sid, session) = entry in
      g\<lparr>g_sessions := dm_remove sid (g_sessions g),
        g_session_traffic := dm_remove sid (g_session_traffic g),
        g_source_session_counts := decrement_source_session_count (g_source_session_counts g) (sock_ip (client_addr session)),
        g_stats := (g_stats g)\<lparr>active_sessions := active_sessions (g_stats g) - 1\<rparr>\<rparr>)"

definition session_idle :: "instant \<Rightarrow> session_entry \<Rightarrow> bool" where
  "session_idle now session \<longleftrightarrow> now - last_activity session \<ge> SESSION_TIMEOUT + FLOW_GRACE_PERIOD"

definition expire_sessions :: "(session_entry \<Rightarrow> bool) \<Rightarrow> 'a gate_scheme \<Rightarrow> 'a gate_scheme" where
  "expire_sessions gone g = fold expire_session (filter (\<lambda>(sid, s). gone s) (g_sessions g)) g"

section \<open>The invariant\<close>

definition allowed_endpoint :: "sock_addr \<Rightarrow> bool" where
  "allowed_endpoint a \<longleftrightarrow>
     (\<exists>ip port. a = SockV4 ip port \<and> \<not> is_forbidden_dst ip \<and> \<not> is_forbidden_dst_port port)"

definition packet_ok :: "bytes \<Rightarrow> bool" where
  "packet_ok p \<longleftrightarrow> ip_headed p \<and> \<not> is_forbidden_dst (read_ipv4 p 16)"

definition io_ok :: "'a relay_scheme \<Rightarrow> bool" where
  "io_ok v \<longleftrightarrow> budgets_ok (v_budgets v) \<and> tun_ok (v_tun v) \<and>
     length (v_tun_queue v) \<le> TUN_QUEUE_CAP \<and> length (v_tun_responses v) \<le> TUN_RESPONSE_CAP \<and>
     (\<forall>pkt \<in> set (v_tun_queue v). packet_ok (it_raw_ip_packet pkt)) \<and>
     (\<forall>p \<in> set (v_tun_written v). packet_ok p) \<and> (\<forall>x \<in> set (v_upstream v). allowed_endpoint (fst x))"

definition relay_ok :: "'a relay_scheme \<Rightarrow> bool" where
  "relay_ok v \<longleftrightarrow> gate_ok v \<and> io_ok v"

lemmas relay_ok_defs = relay_ok_def io_ok_def gate_ok_def

lemma relay_ok_new: "relay_ok (relay_new now policy budget)"
  using gate_new_ok [of now] by (simp add: relay_new_def relay_ok_defs gate_new_def gate.extend_def)

lemma gate_ok_truncate: "gate.truncate g = gate.truncate h \<Longrightarrow> gate_ok g = gate_ok h"
  by (simp add: gate.truncate_def gate_ok_def)

lemma relay_ok_truncate: "relay.truncate v = relay.truncate w \<Longrightarrow> relay_ok v = relay_ok w"
  by (simp add: relay.truncate_def relay_ok_defs)

lemma relay_ok_extend [simp]: "relay_ok (relay.extend v m) = relay_ok v"
  by (simp add: relay.extend_def relay_ok_defs)

lemma relay_ok_drops [simp]: "relay_ok (g_drop_in r v) = relay_ok v" "relay_ok (g_drop_out r v) = relay_ok v"
  by (simp_all add: relay_ok_def) (simp_all add: io_ok_def g_drop_in_def g_drop_out_def)

lemma relay_ok_trace [simp]:
  "relay_ok (v\<lparr>v_sent := xs\<rparr>) = relay_ok v" "relay_ok (v\<lparr>v_resolves := rs\<rparr>) = relay_ok v"
  "relay_ok (v\<lparr>v_policy := pol\<rparr>) = relay_ok v"
  by (simp_all add: relay_ok_defs)

lemma relay_ok_budgets: "relay_ok v \<Longrightarrow> budgets_ok b \<Longrightarrow> relay_ok (v\<lparr>v_budgets := b\<rparr>)"
  by (simp add: relay_ok_defs)

lemma relay_ok_traffic: "relay_ok v \<Longrightarrow> dm_ok tr \<Longrightarrow> relay_ok (v\<lparr>g_session_traffic := tr\<rparr>)"
  by (simp add: relay_ok_defs)

lemma relay_ok_stats:
  "relay_ok v \<Longrightarrow> drops_balanced s \<Longrightarrow> active_sessions s = active_sessions (g_stats v) \<Longrightarrow> relay_ok (v\<lparr>g_stats := s\<rparr>)"
  by (simp add: relay_ok_defs)

lemma relay_ok_session:
  assumes "relay_ok v" "dm_get (g_sessions v) sid = Some s" "client_addr s' = client_addr s"
  shows "relay_ok (v\<lparr>g_sessions := dm_insert sid s' (g_sessions v)\<rparr>)"
  using assms counts_ok_insert_same [of "g_sessions v" "g_source_session_counts v" sid s s']
    dm.entries_insert_old [of "g_sessions v" sid s s']
  by (simp add: relay_ok_defs counts_ok_def)

lemma dm_ok_traffic_ops [simp]:
  "dm_ok tr \<Longrightarrow> dm_ok (record_session_egress tr sid n)" "dm_ok tr \<Longrightarrow> dm_ok (touch_session_traffic tr sid t)"
  by (simp_all add: record_session_egress_def touch_session_traffic_def split: option.splits)

lemma relay_ok_balanced: "relay_ok v \<Longrightarrow> drops_balanced (g_stats v)" "relay_ok v \<Longrightarrow> dm_ok (g_session_traffic v)"
  "relay_ok v \<Longrightarrow> budgets_ok (v_budgets v)"
  by (simp_all add: relay_ok_defs)

lemma relay_ok_send [simp]: "relay_ok (relay_send addr frame v) = relay_ok v"
  by (simp add: relay_send_def)

lemma relay_ok_count_out: "relay_ok v \<Longrightarrow> relay_ok (count_out sid n v)"
  unfolding count_out_def
  by (rule relay_ok_traffic [OF relay_ok_stats]) (simp_all add: relay_ok_balanced)

lemma relay_ok_upstream: "relay_ok v \<Longrightarrow> allowed_endpoint a \<Longrightarrow> relay_ok (v\<lparr>v_upstream := v_upstream v @ [(a, d)]\<rparr>)"
  by (auto simp: relay_ok_defs)

lemma relay_ok_rtt: "relay_ok v \<Longrightarrow> relay_ok (rtt_report ev v)"
  unfolding rtt_report_def Let_def by (rule relay_ok_traffic) (auto simp: relay_ok_balanced split: option.splits)

lemma relay_ok_resolve: "relay_ok v \<Longrightarrow> relay_ok (resolve_request ev v)"
  by (auto simp: resolve_request_def split: option.splits)

lemma relay_ok_set_user: "relay_ok v \<Longrightarrow> relay_ok (set_user sid ip v)"
  by (auto simp: set_user_def split: option.split intro: relay_ok_session)

lemma relay_ok_touch: "relay_ok v \<Longrightarrow> relay_ok (touch_session sid now now_unix v)"
  by (auto simp: touch_session_def split: option.split intro: relay_ok_session)

lemma relay_ok_source_event: "relay_ok v \<Longrightarrow> relay_ok (snd (g_allow_source_event a k now v))"
  using source_event_ok [of v a k now]
  by (simp add: relay_ok_def) (simp add: io_ok_def g_allow_source_event_def split_beta Let_def)

lemma relay_ok_tun_send:
  assumes "relay_ok v" "packet_ok raw"
  shows "relay_ok (tun_send c tcp ev raw v)"
proof -
  let ?q = "v_tun_queue v @ [\<lparr>it_session_id = ev_sid ev, it_client_addr = ev_addr ev, it_raw_ip_packet = raw\<rparr>]"
  have "relay_ok (v\<lparr>v_tun_queue := ?q\<rparr>)" if "length (v_tun_queue v) < TUN_QUEUE_CAP"
    using assms that by (auto simp: relay_ok_defs)
  then show ?thesis
    using assms(1) by (auto simp: tun_send_def Let_def relay_ok_balanced intro!: relay_ok_stats)
qed

lemma account_budget_allow_ok: "budgets_ok b \<Longrightarrow> budgets_ok (snd (account_budget_allow b ss sid out p t))"
  by (auto simp: account_budget_allow_def budgets_event_ok split: option.split)

lemma relay_ok_respond: "relay_ok v \<Longrightarrow> relay_ok (snd (respond c sid p frame now_unix ms ok v))"
  by (auto simp: respond_def split_beta Let_def relay_ok_budgets account_budget_allow_ok relay_ok_balanced
      intro!: relay_ok_count_out split: option.split)

lemma relay_ok_tun_response:
  assumes "relay_ok v"
  shows "relay_ok (tun_response_step c now_unix ms ok v)"
proof (cases "v_tun_responses v")
  case (Cons p rest)
  then have "relay_ok (v\<lparr>v_tun_responses := rest\<rparr>)" using assms by (simp add: relay_ok_defs)
  then show ?thesis using Cons by (simp add: tun_response_step_def relay_ok_respond)
qed (use assms in \<open>simp add: tun_response_step_def\<close>)

lemma packet_ok_rewrite_src:
  assumes "packet_ok p"
  shows "packet_ok (rewrite_src_ip p ip)"
proof -
  have h: "ip_headed p" and i: "20 \<le> hdr_ihl p" using assms by (simp_all add: packet_ok_def ip_headed_def)
  have "rewrite_ip_field p 12 ip ! j = p ! j" if "j \<in> {16, 17, 18, 19}" for j
    using that i rewrite_header(3) [OF h, of 12 j ip] by auto
  then have "read_ipv4 (rewrite_src_ip p ip) 16 = read_ipv4 p 16"
    by (simp add: rewrite_src_ip_def IP_SRC_OFFSET_def read_ipv4_def)
  moreover have "ip_headed (rewrite_src_ip p ip)"
    using h rewrite_header(4) [OF h, of 12 ip] by (simp add: rewrite_src_ip_def IP_SRC_OFFSET_def ip_headed_def)
  ultimately show ?thesis using assms by (simp add: packet_ok_def)
qed

lemma relay_ok_tun_write:
  assumes "relay_ok v"
  shows "relay_ok (tun_write_step v)"
proof (cases "v_tun_queue v")
  case (Cons pkt rest)
  have t: "tun_ok (v_tun v)" and p: "packet_ok (it_raw_ip_packet pkt)" using assms Cons by (simp_all add: relay_ok_defs)
  then have ok: "tun_ok (snd (tun_writer_step pkt (v_tun v)))" by simp
  have "packet_ok out" if "fst (tun_writer_step pkt (v_tun v)) = Some out" for out
    by (rule writer_cases [OF t, of pkt]) (use that p in \<open>auto simp: packet_ok_rewrite_src\<close>)
  then show ?thesis
    using assms Cons ok by (auto simp: tun_write_step_def split_beta Let_def relay_ok_defs split: option.split)
qed (use assms in \<open>simp add: tun_write_step_def\<close>)

lemma relay_ok_tun_read: "relay_ok v \<Longrightarrow> relay_ok (tun_read_step p v)"
  by (simp add: tun_read_step_def relay_ok_defs Let_def split: option.split)

lemma relay_ok_resolve_step: "relay_ok v \<Longrightarrow> relay_ok (resolve_step lookup v)"
  by (auto simp: resolve_step_def split: list.split)

lemma relay_ok_remove_expired: "relay_ok v \<Longrightarrow> relay_ok (v\<lparr>v_tun := remove_expired live (v_tun v)\<rparr>)"
  by (simp add: relay_ok_defs)

text \<open>The raw bytes of a parsed packet.\<close>

lemma taken_packet:
  assumes "20 \<le> hdr_ihl p" "hdr_ihl p \<le> hdr_total p" "hdr_total p \<le> length p" "\<not> is_forbidden_dst (read_ipv4 p 16)"
  shows "packet_ok (take (hdr_total p) p)"
proof -
  have "hdr_ihl (take (hdr_total p) p) = hdr_ihl p" using assms by (simp add: hdr_ihl_def)
  then show ?thesis using assms by (simp add: packet_ok_def ip_headed_def)
qed

lemma parsed_packet_ok:
  assumes "parse_ip_packet_full pol p = (Some r, pol')"
  shows "r = PForbiddenDst \<or> (\<exists>protocol src raw. r = PFragment protocol src raw \<and> packet_ok raw) \<or>
    (\<exists>info raw. r = PTcp info raw \<and> packet_ok raw) \<or>
    (\<exists>game payload info raw. r = PUdp game payload info raw \<and> packet_ok raw \<and> allowed_endpoint game \<and>
       length payload \<le> length p)"
proof (cases "r = PForbiddenDst")
  case False
  have h: "20 \<le> hdr_ihl p" "hdr_ihl p \<le> hdr_total p" "hdr_total p \<le> length p" "forwards pol p r"
    using parse_result [OF assms] False by auto
  have raw: "packet_ok (take (hdr_total p) p)" if "\<not> is_forbidden_dst (read_ipv4 p 16)"
    by (rule taken_packet [OF h(1-3) that])
  show ?thesis using h(3,4) raw by (cases r) (auto simp: allowed_endpoint_def)
qed simp

section \<open>What the shared steps leave alone\<close>

lemma relay_more [simp]:
  "relay.more (g_drop_in r v) = relay.more v" "relay.more (g_drop_out r v) = relay.more v"
  "relay.more (relay_send addr frame v) = relay.more v" "relay.more (count_out sid n v) = relay.more v"
  "relay.more (rtt_report ev v) = relay.more v" "relay.more (resolve_request ev v) = relay.more v"
  "relay.more (set_user sid ip v) = relay.more v" "relay.more (touch_session sid now now_unix v) = relay.more v"
  "relay.more (tun_send c tcp ev raw v) = relay.more v"
  "relay.more (snd (respond c sid p frame now_unix ms ok v)) = relay.more v"
  "relay.more (tun_response_step c now_unix ms ok v) = relay.more v"
  "relay.more (tun_write_step v) = relay.more v" "relay.more (tun_read_step p v) = relay.more v"
  "relay.more (resolve_step lookup v) = relay.more v"
  "relay.more (snd (g_allow_source_event a k now v)) = relay.more v"
  by (simp_all add: g_drop_in_def g_drop_out_def relay_send_def count_out_def rtt_report_def resolve_request_def set_user_def
      touch_session_def tun_send_def respond_def tun_response_step_def tun_write_step_def tun_read_step_def resolve_step_def
      g_allow_source_event_def split_beta Let_def split: option.split list.split)

lemma relay_upstream [simp]:
  "v_upstream (g_drop_in r v) = v_upstream v" "v_upstream (g_drop_out r v) = v_upstream v"
  "v_upstream (relay_send addr frame v) = v_upstream v" "v_upstream (count_out sid n v) = v_upstream v"
  "v_upstream (rtt_report ev v) = v_upstream v" "v_upstream (resolve_request ev v) = v_upstream v"
  "v_upstream (set_user sid ip v) = v_upstream v" "v_upstream (touch_session sid now now_unix v) = v_upstream v"
  "v_upstream (tun_send c tcp ev raw v) = v_upstream v"
  "v_upstream (snd (respond c sid p frame now_unix ms ok v)) = v_upstream v"
  "v_upstream (tun_response_step c now_unix ms ok v) = v_upstream v"
  "v_upstream (tun_write_step v) = v_upstream v" "v_upstream (tun_read_step p v) = v_upstream v"
  "v_upstream (resolve_step lookup v) = v_upstream v"
  "v_upstream (snd (g_allow_source_event a k now v)) = v_upstream v"
  by (simp_all add: g_drop_in_def g_drop_out_def relay_send_def count_out_def rtt_report_def resolve_request_def set_user_def
      touch_session_def tun_send_def respond_def tun_response_step_def tun_write_step_def tun_read_step_def resolve_step_def
      g_allow_source_event_def split_beta Let_def split: option.split list.split)

lemma shared_sessions [simp]:
  "g_sessions (relay_send addr frame v) = g_sessions v" "g_sessions (count_out sid n v) = g_sessions v"
  "g_sessions (rtt_report ev v) = g_sessions v" "g_sessions (resolve_request ev v) = g_sessions v"
  "g_sessions (tun_send c tcp ev raw v) = g_sessions v"
  "g_sessions (snd (respond c sid p frame now_unix ms ok v)) = g_sessions v"
  "g_sessions (tun_response_step c now_unix ms ok v) = g_sessions v"
  "g_sessions (tun_write_step v) = g_sessions v" "g_sessions (tun_read_step p v) = g_sessions v"
  "g_sessions (resolve_step lookup v) = g_sessions v"
  by (simp_all add: relay_send_def count_out_def rtt_report_def resolve_request_def tun_send_def respond_def
      tun_response_step_def tun_write_step_def tun_read_step_def resolve_step_def split_beta Let_def
      split: option.split list.split)

lemma set_user_session:
  "dm_get (g_sessions v) sid = Some s \<Longrightarrow> auth_state s = Authenticated \<Longrightarrow> dm_get (g_sessions (set_user x ip v)) sid = Some s"
  by (auto simp: set_user_def split: option.split)

text \<open>A response leaves for the endpoint its session has now, or not at all.\<close>

lemma respond_sent:
  "v_sent (snd (respond c sid ip frame now_unix ms ok v)) = v_sent v \<or>
    (\<exists>addr. forwarding_addr (g_sessions v) sid (vc_auth_required c) now_unix = Some addr \<and>
       v_sent (snd (respond c sid ip frame now_unix ms ok v)) = v_sent v @ [(addr, frame)])"
  by (auto simp: respond_def relay_send_def count_out_def g_drop_out_def split_beta Let_def split: option.split)

section \<open>Expiry of sessions\<close>

lemma expire_session_ok:
  assumes "gate_ok g" "dm_get (g_sessions g) sid = Some s"
  shows "gate_ok (expire_session (sid, s) g)"
proof -
  have c: "counts_ok (g_sessions g) (g_source_session_counts g)" using assms(1) by (simp add: gate_ok_def)
  then have "dm_len (g_sessions g) = Suc (dm_len (dm_remove sid (g_sessions g)))"
    using dm.entries_remove [OF _ assms(2)] by (simp add: counts_ok_def)
  then show ?thesis
    using assms counts_ok_remove [OF c assms(2)] by (simp add: gate_ok_def expire_session_def)
qed

text \<open>A sweep that treats each entry like \<open>expire_session\<close>, whatever else it does.\<close>

lemma expire_fold:
  assumes step: "\<And>x g. gate.truncate (f x g) = gate.truncate (expire_session x g)"
    and "gate_ok g" "distinct (map fst xs)" "\<forall>(sid, s) \<in> set xs. dm_get (g_sessions g) sid = Some s"
  shows "gate_ok (fold f xs g) \<and>
    (\<forall>sid. dm_get (g_sessions (fold f xs g)) sid = (if sid \<in> fst ` set xs then None else dm_get (g_sessions g) sid))"
  using assms(2-4)
proof (induction xs arbitrary: g)
  case (Cons x xs)
  obtain k s where x: "x = (k, s)" by (cases x)
  have get: "g_sessions (f x g) = dm_remove k (g_sessions g)"
    using step [of x g] by (simp add: gate.truncate_def expire_session_def x)
  have g: "gate_ok (f x g)"
    using Cons.prems x expire_session_ok [of g k s] gate_ok_truncate [OF step [of x g]] by simp
  have "\<forall>(sid, s) \<in> set xs. dm_get (g_sessions (f x g)) sid = Some s"
    using Cons.prems by (force simp: x get [unfolded x])
  note IH = Cons.IH [OF g _ this]
  show ?case using IH Cons.prems by (auto simp: x get [unfolded x])
qed simp_all

lemma expired_entries:
  assumes "dm_ok ss"
  shows "distinct (map fst (filter p ss))" "\<forall>(sid, s) \<in> set (filter p ss). dm_get ss sid = Some s"
  using assms dm_get_in_set [OF assms] by (auto simp: dm_ok_def distinct_map_filter)

lemma expire_sweep:
  assumes "\<And>x g. gate.truncate (f x g) = gate.truncate (expire_session x g)" "gate_ok g"
  shows "gate_ok (fold f (filter (\<lambda>(sid, s). gone s) (g_sessions g)) g)"
    "dm_get (g_sessions (fold f (filter (\<lambda>(sid, s). gone s) (g_sessions g)) g)) sid =
      (case dm_get (g_sessions g) sid of None \<Rightarrow> None | Some s \<Rightarrow> if gone s then None else Some s)"
proof -
  have ok: "dm_ok (g_sessions g)" using assms(2) by (simp add: gate_ok_def counts_ok_def)
  note fold = expire_fold [OF assms(1,2) expired_entries [OF ok, of "\<lambda>(sid, s). gone s"]]
  show "gate_ok (fold f (filter (\<lambda>(sid, s). gone s) (g_sessions g)) g)" using fold by blast
  have "sid \<in> fst ` set (filter (\<lambda>(sid, s). gone s) (g_sessions g)) \<longleftrightarrow>
      (\<exists>s. dm_get (g_sessions g) sid = Some s \<and> gone s)"
    using dm_get_in_set [OF ok] by force
  then show "dm_get (g_sessions (fold f (filter (\<lambda>(sid, s). gone s) (g_sessions g)) g)) sid =
      (case dm_get (g_sessions g) sid of None \<Rightarrow> None | Some s \<Rightarrow> if gone s then None else Some s)"
    using fold by (auto split: option.split)
qed

lemmas expire_sessions_ok = expire_sweep(1) [of expire_session, OF refl, folded expire_sessions_def]
lemmas expire_sessions_get = expire_sweep(2) [of expire_session, OF refl, folded expire_sessions_def]

lemma expire_sessions_more: "gate.more (expire_sessions gone g) = gate.more g"
proof -
  have "gate.more (fold expire_session xs h) = gate.more h" for xs and h :: "'a gate_scheme"
    by (induction xs arbitrary: h) (simp_all add: expire_session_def split_beta Let_def)
  then show ?thesis by (simp add: expire_sessions_def)
qed

end
