(* ===== verification/Datapath_V1.thy ===== *)
theory Datapath_V1
  imports Relay_Core
begin

text \<open>
  The first datapath (\<^verbatim>\<open>src/src/main.rs\<close>): the receive loop of \<^verbatim>\<open>main\<close> after admission, the
  task of a flow (\<^verbatim>\<open>run_flow_handler\<close>), the response task, the TUN threads, the cleanup task
  and the resolve tasks, as steps on one state.  Each step runs one iteration of one task to
  its end; which task runs next, what arrives, the clock readings and the outcome of system
  calls are arguments of the step.

  The generation of a flow is an \<^verbatim>\<open>Arc<()>\<close> compared by pointer; here it is a number no earlier
  flow has had.  The channel of a flow is the queue of the task with that generation: it is
  closed for the sender when the task has ended, and for the task when no entry of the flow
  table has its generation.  \<open>v_sent\<close>, \<open>v_upstream\<close> and \<open>v_tun_written\<close> record what is handed
  to the client socket, to the sockets of the flows and to the TUN device.
\<close>

section \<open>Definitions\<close>

definition MIN_FLOW_CHANNEL_CAPACITY :: nat where
  "MIN_FLOW_CHANNEL_CAPACITY = 8"

definition MAX_FLOW_CHANNEL_CAPACITY :: nat where
  "MAX_FLOW_CHANNEL_CAPACITY = 4096"

definition DEFAULT_FLOW_CHANNEL_CAPACITY :: nat where
  "DEFAULT_FLOW_CHANNEL_CAPACITY = 256"

definition parse_flow_channel_capacity :: "string option \<Rightarrow> nat" where
  "parse_flow_channel_capacity raw =
     (let parsed = (case raw of
            None \<Rightarrow> DEFAULT_FLOW_CHANNEL_CAPACITY
          | Some s \<Rightarrow> (case parse_uint u64_max (trim s) of None \<Rightarrow> DEFAULT_FLOW_CHANNEL_CAPACITY | Some n \<Rightarrow> n))
      in min (max parsed MIN_FLOW_CHANNEL_CAPACITY) MAX_FLOW_CHANNEL_CAPACITY)"

record v1_config = relay_config +
  vc_flow_channel_capacity :: nat

record flow_entry =
  fe_generation :: nat
  fe_client_addr :: sock_addr
  fe_last_activity :: instant
  fe_original_info :: original_packet_info
  fe_marked_for_removal :: "instant option"

record flow_task =
  ft_flow_key :: string
  ft_game_addr :: sock_addr
  ft_session_id :: session_id
  ft_queue :: "bytes list"
  ft_running :: bool
  ft_recv_errors :: nat
  ft_send_errors :: nat

record v1_state = relay +
  v_flows :: "(string, flow_entry) dmap"
  v_session_flow_keys :: "(session_id, string list) dmap"
  v_next_generation :: nat
  v_tasks :: "(nat, flow_task) dmap"
  v_response_queue :: "(sock_addr \<times> session_id \<times> bytes) list"
  v_response_open :: bool

subsection \<open>Sending\<close>

definition v1_ack :: "v1_state ack_fun" where
  "v1_ack addr sid status v = relay_send addr (auth_ack_frame sid status) v"

subsection \<open>Flow tables\<close>

definition indexed_session_flow_count :: "(session_id, string list) dmap \<Rightarrow> session_id \<Rightarrow> nat" where
  "indexed_session_flow_count m sid = (case dm_get m sid of None \<Rightarrow> 0 | Some keys \<Rightarrow> length keys)"

definition v1_flow_capacity_available ::
  "(string, flow_entry) dmap \<Rightarrow> (session_id, string list) dmap \<Rightarrow> stats \<Rightarrow> session_id \<Rightarrow> bool \<times> stats" where
  "v1_flow_capacity_available flows keys s sid =
     (if dm_len flows \<ge> MAX_FLOWS_TOTAL then (False, drop_in Capacity s)
      else if indexed_session_flow_count keys sid \<ge> MAX_FLOWS_PER_SESSION then (False, drop_in Capacity s)
      else (True, s))"

definition remove_v1_flow :: "session_id \<Rightarrow> string \<Rightarrow> nat \<Rightarrow> v1_state \<Rightarrow> v1_state" where
  "remove_v1_flow sid key generation v =
     (case dm_get (v_flows v) key of
        None \<Rightarrow> v
      | Some flow \<Rightarrow>
          if fe_generation flow \<noteq> generation then v
          else
            v\<lparr>v_flows := dm_remove key (v_flows v),
              v_session_flow_keys :=
                (case dm_get (v_session_flow_keys v) sid of
                   None \<Rightarrow> v_session_flow_keys v
                 | Some keys \<Rightarrow>
                     let keys = filter (\<lambda>k. k \<noteq> key) keys
                     in if keys = [] then dm_remove sid (v_session_flow_keys v)
                        else dm_insert sid keys (v_session_flow_keys v))\<rparr>)"

subsection \<open>Control frames\<close>

definition v1_ping :: "rx_event \<Rightarrow> v1_state \<Rightarrow> v1_state" where
  "v1_ping ev v =
     (let response = pong_reply (ev_frame ev) (ev_mono_ms ev);
          v = relay_send (ev_addr ev) response v
      in if ev_send_ok ev then count_out (ev_sid ev) (length response) v else v)"

definition refresh_flow :: "instant \<Rightarrow> sock_addr \<Rightarrow> string \<Rightarrow> (string, flow_entry) dmap \<Rightarrow> (string, flow_entry) dmap" where
  "refresh_flow now addr key flows =
     (case dm_get flows key of
        None \<Rightarrow> flows
      | Some flow \<Rightarrow> dm_insert key (flow\<lparr>fe_last_activity := now, fe_client_addr := addr\<rparr>) flows)"

definition v1_keepalive :: "rx_event \<Rightarrow> v1_state \<Rightarrow> v1_state" where
  "v1_keepalive ev v =
     (case dm_get (v_session_flow_keys v) (ev_sid ev) of
        None \<Rightarrow> v
      | Some keys \<Rightarrow> v\<lparr>v_flows := fold (refresh_flow (ev_later ev) (ev_addr ev)) keys (v_flows v)\<rparr>)"

subsection \<open>Payload\<close>

text \<open>\<^verbatim>\<open>try_send\<close> to the TUN writer, and the forwarding counter of the protocol.\<close>

definition v1_new_flow ::
  "v1_config \<Rightarrow> rx_event \<Rightarrow> string \<Rightarrow> sock_addr \<Rightarrow> bytes \<Rightarrow> original_packet_info \<Rightarrow> v1_state \<Rightarrow> v1_state" where
  "v1_new_flow c ev key game payload info v =
     (let queued = vc_flow_channel_capacity c > 0;
          v = (if queued then v else g_drop_in FlowQueue v);
          generation = v_next_generation v;
          keys = (case dm_get (v_session_flow_keys v) (ev_sid ev) of None \<Rightarrow> [] | Some keys \<Rightarrow> keys)
      in v\<lparr>v_next_generation := generation + 1,
           v_flows := dm_insert key
             \<lparr>fe_generation = generation, fe_client_addr = ev_addr ev, fe_last_activity = ev_later ev,
              fe_original_info = info, fe_marked_for_removal = None\<rparr> (v_flows v),
           v_session_flow_keys := dm_insert (ev_sid ev) (keys @ [key]) (v_session_flow_keys v),
           v_tasks := dm_insert generation
             \<lparr>ft_flow_key = key, ft_game_addr = game, ft_session_id = ev_sid ev,
              ft_queue = (if queued then [payload] else []), ft_running = False,
              ft_recv_errors = 0, ft_send_errors = 0\<rparr> (v_tasks v)\<rparr>)"

definition v1_existing_flow ::
  "v1_config \<Rightarrow> rx_event \<Rightarrow> string \<Rightarrow> flow_entry \<Rightarrow> bytes \<Rightarrow> original_packet_info \<Rightarrow> v1_state \<Rightarrow> v1_state" where
  "v1_existing_flow c ev key flow payload info v =
     (let v = v\<lparr>v_flows := dm_insert key
            (flow\<lparr>fe_last_activity := ev_later ev, fe_client_addr := ev_addr ev, fe_original_info := info,
                  fe_marked_for_removal := None\<rparr>) (v_flows v)\<rparr>
      in case dm_get (v_tasks v) (fe_generation flow) of
           Some task \<Rightarrow>
             if length (ft_queue task) < vc_flow_channel_capacity c then
               v\<lparr>v_tasks := dm_insert (fe_generation flow) (task\<lparr>ft_queue := ft_queue task @ [payload]\<rparr>) (v_tasks v)\<rparr>
             else g_drop_in FlowQueue v
         | None \<Rightarrow> remove_v1_flow (ev_sid ev) key (fe_generation flow) v)"

text \<open>The entry is taken after the admission check; cleanup may have removed it in between.\<close>

definition v1_flow_entry ::
  "v1_config \<Rightarrow> rx_event \<Rightarrow> bool \<Rightarrow> string \<Rightarrow> sock_addr \<Rightarrow> bytes \<Rightarrow> original_packet_info \<Rightarrow> v1_state \<Rightarrow> v1_state" where
  "v1_flow_entry c ev new_flow key game payload info v =
     (case dm_get (v_flows v) key of
        Some flow \<Rightarrow> v1_existing_flow c ev key flow payload info v
      | None \<Rightarrow>
          if \<not> new_flow then g_drop_in FlowCreate v
          else v1_new_flow c ev key game payload info v)"

definition v1_flow_admit :: "rx_event \<Rightarrow> v1_state \<Rightarrow> bool \<times> v1_state" where
  "v1_flow_admit ev v =
     (let (ok, s) = v1_flow_capacity_available (v_flows v) (v_session_flow_keys v) (g_stats v) (ev_sid ev);
          v = v\<lparr>g_stats := s\<rparr>
      in if \<not> ok then (False, v) else g_allow_source_event (ev_addr ev) KNewFlow (ev_now ev) v)"

definition v1_udp ::
  "v1_config \<Rightarrow> rx_event \<Rightarrow> sock_addr \<Rightarrow> bytes \<Rightarrow> original_packet_info \<Rightarrow> v1_state \<Rightarrow> v1_state" where
  "v1_udp c ev game payload info v =
     (let v = set_user (ev_sid ev) (oi_src_ip info) v;
          key = flow_key (ev_sid ev) game;
          new_flow = (\<not> dm_contains (v_flows v) key);
          (admitted, v) = (if new_flow then v1_flow_admit ev v else (True, v))
      in if \<not> admitted then v else v1_flow_entry c ev new_flow key game payload info v)"

fun v1_forward :: "v1_config \<Rightarrow> rx_event \<Rightarrow> parsed_packet \<Rightarrow> v1_state \<Rightarrow> v1_state" where
  "v1_forward c ev PForbiddenDst v = g_drop_in ForbiddenDst v"
| "v1_forward c ev (PFragment protocol src_ip raw) v =
     set_user (ev_sid ev) src_ip
       (if protocol = 17 \<and> vc_tun_udp_enabled c \<or> protocol = 6 \<and> vc_tcp_enabled c then tun_send c (protocol = 6) ev raw v
        else g_drop_in Fragment v)"
| "v1_forward c ev (PTcp info raw) v =
     set_user (ev_sid ev) (oi_src_ip info)
       (if vc_tcp_enabled c then tun_send c True ev raw v else g_drop_in TcpDisabled v)"
| "v1_forward c ev (PUdp game payload info raw) v =
     (if vc_tun_udp_enabled c then set_user (ev_sid ev) (oi_src_ip info) (tun_send c False ev raw v)
      else v1_udp c ev game payload info v)"

definition v1_payload :: "v1_config \<Rightarrow> rx_event \<Rightarrow> v1_state \<Rightarrow> v1_state" where
  "v1_payload c ev v =
     (if ev_len ev < SESSION_ID_LEN + IP_HEADER_MIN then g_drop_in TooSmall v
      else
        let ip_packet = drop SESSION_ID_LEN (ev_frame ev);
            (parsed, policy) = parse_ip_packet_full (v_policy v) ip_packet;
            v = v\<lparr>v_policy := policy\<rparr>
        in case parsed of
             None \<Rightarrow> g_drop_in Parse v
           | Some p \<Rightarrow>
               let (within, b) = (if p \<noteq> PForbiddenDst then
                       account_budget_allow (v_budgets v) (g_sessions v) (ev_sid ev) False ip_packet (unat (ev_mono_ms ev))
                     else (True, v_budgets v));
                   v = v\<lparr>v_budgets := b\<rparr>
               in if \<not> within then g_drop_in RateLimit v else v1_forward c ev p v)"

text \<open>One iteration of the receive loop.\<close>

definition v1_dispatch :: "v1_config \<Rightarrow> rx_event \<Rightarrow> bool \<Rightarrow> v1_state \<Rightarrow> v1_state" where
  "v1_dispatch c ev session_authenticated v =
     (let refused = (vc_auth_required c \<and> \<not> session_authenticated);
          kind = (if ev_len ev > SESSION_ID_LEN then ev_frame ev ! SESSION_ID_LEN else 0)
      in if ev_len ev = PING_FRAME_LEN \<and> kind = PING_FRAME_TYPE then
           (if refused then g_drop_in Auth v else v1_ping ev v)
         else if ev_len ev = PONG_FRAME_LEN \<and> kind = PONG_FRAME_TYPE then v
         else if ev_len ev = RTT_REPORT_FRAME_LEN \<and> kind = RTT_REPORT_FRAME_TYPE then
           (if refused then g_drop_in Auth v else rtt_report ev v)
         else if ev_len ev > SESSION_ID_LEN \<and> kind = RESOLVE_REQUEST_FRAME_TYPE then
           (if refused then g_drop_in Auth v else resolve_request ev v)
         else if ev_len ev = SESSION_ID_LEN then
           (if refused then g_drop_in Auth v else v1_keepalive ev v)
         else if refused then g_drop_in Auth v
         else v1_payload c ev v)"

definition v1_rx :: "v1_config \<Rightarrow> rx_event \<Rightarrow> v1_state \<Rightarrow> v1_state" where
  "v1_rx c ev v =
     (case rx_gate v1_ack (vc_rx c) ev v of
        (None, v) \<Rightarrow> v
      | (Some session_authenticated, v) \<Rightarrow> v1_dispatch c ev session_authenticated v)"

subsection \<open>The task of a flow\<close>

text \<open>Leaving the loop of \<^verbatim>\<open>run_flow_handler\<close>.\<close>

definition flow_end :: "nat \<Rightarrow> flow_task \<Rightarrow> v1_state \<Rightarrow> v1_state" where
  "flow_end g task v = remove_v1_flow (ft_session_id task) (ft_flow_key task) g (v\<lparr>v_tasks := dm_remove g (v_tasks v)\<rparr>)"

definition flow_put :: "nat \<Rightarrow> flow_task \<Rightarrow> v1_state \<Rightarrow> v1_state" where
  "flow_put g task v = v\<lparr>v_tasks := dm_insert g task (v_tasks v)\<rparr>"

definition flow_current :: "nat \<Rightarrow> flow_task \<Rightarrow> v1_state \<Rightarrow> flow_entry option" where
  "flow_current g task v =
     (case dm_get (v_flows v) (ft_flow_key task) of
        None \<Rightarrow> None
      | Some flow \<Rightarrow> if fe_generation flow = g then Some flow else None)"

definition flow_start :: "bool \<Rightarrow> bool \<Rightarrow> nat \<Rightarrow> flow_task \<Rightarrow> v1_state \<Rightarrow> v1_state" where
  "flow_start bind_ok connect_ok g task v =
     (let forbidden = (case ft_game_addr task of
            SockV4 ip port \<Rightarrow> is_forbidden_dst ip \<or> is_forbidden_dst_port port
          | SockV6 _ _ _ _ \<Rightarrow> False)
      in if forbidden then flow_end g task (g_drop_in ForbiddenDst v)
         else if \<not> bind_ok then flow_end g task v
         else if \<not> connect_ok then flow_end g task v
         else flow_put g (task\<lparr>ft_running := True\<rparr>) v)"

text \<open>\<^verbatim>\<open>rx.recv()\<close>: the next payload goes to the socket.  With an empty queue the channel is closed
  when the flow's entry, which holds the sender, is gone; otherwise nothing is ready.\<close>

definition flow_deliver :: "io_error_kind option \<Rightarrow> nat \<Rightarrow> flow_task \<Rightarrow> v1_state \<Rightarrow> v1_state" where
  "flow_deliver err g task v =
     (case ft_queue task of
        [] \<Rightarrow> if flow_current g task v = None then flow_end g task v else v
      | data # rest \<Rightarrow>
          let task = task\<lparr>ft_queue := rest\<rparr> in
          (case err of
             None \<Rightarrow> flow_put g (task\<lparr>ft_send_errors := 0\<rparr>) (v\<lparr>v_upstream := v_upstream v @ [(ft_game_addr task, data)]\<rparr>)
           | Some e \<Rightarrow>
               if is_transient_send_error e then flow_put g task v
               else
                 let task = task\<lparr>ft_send_errors := ft_send_errors task + 1\<rparr> in
                 if ft_send_errors task \<ge> 5 then flow_end g task v else flow_put g task v))"

text \<open>The response to the client is queued, the flow and the session are refreshed.\<close>

definition flow_reply :: "bytes \<Rightarrow> instant \<Rightarrow> nat \<Rightarrow> nat \<Rightarrow> flow_task \<Rightarrow> flow_entry \<Rightarrow> v1_state \<Rightarrow> v1_state" where
  "flow_reply payload now now_unix g task flow v =
     (let sid = ft_session_id task;
          response = sid @ build_response_ip_packet payload (fe_original_info flow);
          v = (if v_response_open v then
                 v\<lparr>v_response_queue := v_response_queue v @ [(fe_client_addr flow, sid, response)]\<rparr>
               else g_drop_out TxQueue v);
          v = v\<lparr>v_flows := dm_insert (ft_flow_key task)
                (flow\<lparr>fe_last_activity := now, fe_marked_for_removal := None\<rparr>) (v_flows v)\<rparr>
      in touch_session sid now now_unix (flow_put g task v))"

text \<open>\<^verbatim>\<open>socket.recv\<close>: a payload from the game server, or an error.\<close>

definition flow_receive :: "io_error_kind + bytes \<Rightarrow> instant \<Rightarrow> nat \<Rightarrow> nat \<Rightarrow> flow_task \<Rightarrow> v1_state \<Rightarrow> v1_state" where
  "flow_receive result now now_unix g task v =
     (case result of
        Inr payload \<Rightarrow>
          let task = task\<lparr>ft_recv_errors := 0\<rparr>;
              sid = ft_session_id task;
              lease_current = (case dm_get (g_sessions v) sid of None \<Rightarrow> False | Some s \<Rightarrow> session_lease_is_current s now_unix)
          in if \<not> lease_current then flow_end g task v
             else
               (case dm_get (v_flows v) (ft_flow_key task) of
                  Some flow \<Rightarrow>
                    if fe_generation flow \<noteq> g then flow_end g task v else flow_reply payload now now_unix g task flow v
                | None \<Rightarrow> if dm_contains (g_sessions v) sid then flow_put g task v else flow_end g task v)
      | Inl e \<Rightarrow>
          if is_transient_recv_error e then v
          else
            let task = task\<lparr>ft_recv_errors := ft_recv_errors task + 1\<rparr> in
            if ft_recv_errors task \<ge> 5 then flow_end g task v else flow_put g task v)"

text \<open>The timer arm: a flow that cleanup has removed ends.\<close>

definition flow_idle :: "nat \<Rightarrow> flow_task \<Rightarrow> v1_state \<Rightarrow> v1_state" where
  "flow_idle g task v = (if flow_current g task v = None then flow_end g task v else v)"

datatype flow_event =
    FlowStart bool bool
  | FlowDeliver "io_error_kind option"
  | FlowReceive "io_error_kind + bytes" instant nat
  | FlowIdle

fun run_flow_handler :: "flow_event \<Rightarrow> nat \<Rightarrow> flow_task \<Rightarrow> v1_state \<Rightarrow> v1_state" where
  "run_flow_handler (FlowStart bind_ok connect_ok) g task v =
     (if ft_running task then v else flow_start bind_ok connect_ok g task v)"
| "run_flow_handler (FlowDeliver err) g task v = (if ft_running task then flow_deliver err g task v else v)"
| "run_flow_handler (FlowReceive result now now_unix) g task v =
     (if ft_running task then flow_receive result now now_unix g task v else v)"
| "run_flow_handler FlowIdle g task v = (if ft_running task then flow_idle g task v else v)"

definition v1_flow_step :: "nat \<Rightarrow> flow_event \<Rightarrow> v1_state \<Rightarrow> v1_state" where
  "v1_flow_step g e v = (case dm_get (v_tasks v) g of None \<Rightarrow> v | Some task \<Rightarrow> run_flow_handler e g task v)"

subsection \<open>Responses to clients\<close>

definition v1_response_step :: "v1_config \<Rightarrow> nat \<Rightarrow> nat \<Rightarrow> nat \<Rightarrow> bool \<Rightarrow> v1_state \<Rightarrow> v1_state" where
  "v1_response_step c now_unix later_unix mono_ms send_ok v =
     (case v_response_queue v of
        [] \<Rightarrow> v
      | (_, sid, data) # rest \<Rightarrow>
          let (sent, v) = respond c sid (drop SESSION_ID_LEN data) data now_unix mono_ms send_ok (v\<lparr>v_response_queue := rest\<rparr>)
          in if sent then v\<lparr>g_session_traffic := touch_session_traffic (g_session_traffic v) sid later_unix\<rparr> else v)"

subsection \<open>Cleanup\<close>

definition flow_retain :: "instant \<Rightarrow> flow_entry \<Rightarrow> flow_entry option" where
  "flow_retain now flow =
     (let idle_time = now - fe_last_activity flow in
      case fe_marked_for_removal flow of
        Some marked_at \<Rightarrow>
          if now - marked_at \<ge> FLOW_GRACE_PERIOD then None
          else if idle_time < duration_secs 10 then Some (flow\<lparr>fe_marked_for_removal := None\<rparr>)
          else Some flow
      | None \<Rightarrow>
          if idle_time \<ge> SESSION_TIMEOUT then Some (flow\<lparr>fe_marked_for_removal := Some now\<rparr>)
          else Some flow)"

definition flows_retain :: "instant \<Rightarrow> (string, flow_entry) dmap \<Rightarrow> (string, flow_entry) dmap" where
  "flows_retain now flows =
     List.map_filter (\<lambda>(key, flow). map_option (Pair key) (flow_retain now flow)) flows"

definition keys_retain ::
  "(string, flow_entry) dmap \<Rightarrow> sessions \<Rightarrow> (session_id, string list) dmap \<Rightarrow> (session_id, string list) dmap" where
  "keys_retain flows ss m =
     dm_retain (\<lambda>sid keys. keys \<noteq> [] \<and> dm_contains ss sid)
       (map (\<lambda>(sid, keys). (sid, filter (dm_contains flows) keys)) m)"

definition v1_cleanup :: "v1_config \<Rightarrow> instant \<Rightarrow> v1_state \<Rightarrow> v1_state" where
  "v1_cleanup c now v =
     (let v = v\<lparr>v_flows := flows_retain now (v_flows v)\<rparr>;
          v = v\<lparr>v_session_flow_keys := keys_retain (v_flows v) (g_sessions v) (v_session_flow_keys v)\<rparr>;
          v = expire_sessions (session_idle now) v;
          v = (if vc_tun_present c then v\<lparr>v_tun := remove_expired (dm_contains (g_sessions v)) (v_tun v)\<rparr> else v)
      in v\<lparr>g_stats := (g_stats v)\<lparr>active_flows := of_nat (dm_len (v_flows v))\<rparr>\<rparr>)"

subsection \<open>The system\<close>

datatype v1_event =
    V1Rx rx_event
  | V1Flow nat flow_event
  | V1Response nat nat nat bool
  | V1TunWrite
  | V1TunRead bytes
  | V1TunResponse nat nat bool
  | V1Resolve "string \<Rightarrow> ip_addr list option"
  | V1Cleanup instant
  | V1Maintain nat "string \<Rightarrow> bool"

fun v1_step :: "v1_config \<Rightarrow> v1_event \<Rightarrow> v1_state \<Rightarrow> v1_state" where
  "v1_step c (V1Rx ev) v = v1_rx c ev v"
| "v1_step c (V1Flow g e) v = v1_flow_step g e v"
| "v1_step c (V1Response now_unix later_unix mono_ms send_ok) v = v1_response_step c now_unix later_unix mono_ms send_ok v"
| "v1_step c V1TunWrite v = tun_write_step v"
| "v1_step c (V1TunRead packet) v = tun_read_step packet v"
| "v1_step c (V1TunResponse now_unix mono_ms send_ok) v = tun_response_step c now_unix mono_ms send_ok v"
| "v1_step c (V1Resolve lookup) v = resolve_step lookup v"
| "v1_step c (V1Cleanup now) v = v1_cleanup c now v"
| "v1_step c (V1Maintain now in_use) v = v\<lparr>v_budgets := budgets_maintain (v_budgets v) now in_use\<rparr>"

definition v1_init :: "instant \<Rightarrow> dest_policy \<Rightarrow> budget_policy \<Rightarrow> v1_state" where
  "v1_init now policy budget = relay.extend (relay_new now policy budget)
     \<lparr>v_flows = [], v_session_flow_keys = [], v_next_generation = 0, v_tasks = [], v_response_queue = [],
      v_response_open = True\<rparr>"

inductive v1_reach :: "v1_config \<Rightarrow> v1_state \<Rightarrow> v1_state \<Rightarrow> bool" for c v0 where
  v1_start: "v1_reach c v0 v0"
| v1_next: "v1_reach c v0 v \<Longrightarrow> v1_reach c v0 (v1_step c e v)"

end
