(* ===== verification/V1_Invariant.thy ===== *)
theory V1_Invariant
  imports Datapath_V1
begin

text \<open>
  The invariant of the first datapath: the tables of admission, the flow table with its
  index and tasks, the queues, and what has been handed to the outside.  Every step keeps
  it, so it holds in every reachable state.
\<close>

interpretation v1: ack_channel v1_ack
  by unfold_locales (simp_all add: v1_ack_def relay_send_def gate_ok_def same_tables_def)

section \<open>The flow tables\<close>

definition flows_ok :: "(string, flow_entry) dmap \<Rightarrow> nat \<Rightarrow> bool" where
  "flows_ok flows nxt \<longleftrightarrow> dm_ok flows \<and> dm_len flows \<le> MAX_FLOWS_TOTAL \<and>
     (\<forall>k f. dm_get flows k = Some f \<longrightarrow> fe_generation f < nxt) \<and>
     (\<forall>k k' f f'. dm_get flows k = Some f \<longrightarrow> dm_get flows k' = Some f' \<longrightarrow> fe_generation f = fe_generation f' \<longrightarrow> k = k')"

definition index_ok :: "(session_id, string list) dmap \<Rightarrow> bool" where
  "index_ok m \<longleftrightarrow> dm_ok m \<and> (\<forall>sid keys. dm_get m sid = Some keys \<longrightarrow> length keys \<le> MAX_FLOWS_PER_SESSION)"

definition task_ok :: "nat \<Rightarrow> flow_task \<Rightarrow> bool" where
  "task_ok cap t \<longleftrightarrow> allowed_endpoint (ft_game_addr t) \<and> ft_flow_key t = flow_key (ft_session_id t) (ft_game_addr t) \<and>
     length (ft_queue t) \<le> cap \<and> ft_recv_errors t < 5 \<and> ft_send_errors t < 5"

definition tasks_ok :: "nat \<Rightarrow> (string, flow_entry) dmap \<Rightarrow> nat \<Rightarrow> (nat, flow_task) dmap \<Rightarrow> bool" where
  "tasks_ok cap flows nxt tasks \<longleftrightarrow> dm_ok tasks \<and>
     (\<forall>g t. dm_get tasks g = Some t \<longrightarrow> g < nxt \<and> task_ok cap t \<and>
        (\<forall>k f. dm_get flows k = Some f \<longrightarrow> fe_generation f = g \<longrightarrow> k = ft_flow_key t))"

definition v1_flows_ok :: "v1_config \<Rightarrow> v1_state \<Rightarrow> bool" where
  "v1_flows_ok c v \<longleftrightarrow> flows_ok (v_flows v) (v_next_generation v) \<and> index_ok (v_session_flow_keys v) \<and>
     tasks_ok (vc_flow_channel_capacity c) (v_flows v) (v_next_generation v) (v_tasks v)"

lemma flows_ok_get:
  "flows_ok flows nxt \<Longrightarrow> dm_get flows k = Some f \<Longrightarrow> fe_generation f < nxt"
  by (simp add: flows_ok_def)

lemma flows_ok_inj:
  "flows_ok flows nxt \<Longrightarrow> dm_get flows k = Some f \<Longrightarrow> dm_get flows k' = Some f' \<Longrightarrow> fe_generation f = fe_generation f' \<Longrightarrow> k = k'"
  unfolding flows_ok_def by blast

lemma flows_ok_put:
  assumes "flows_ok flows nxt" "dm_get flows k = Some f" "fe_generation f' = fe_generation f"
  shows "flows_ok (dm_insert k f' flows) nxt"
  using assms dm.entries_insert_old [of flows k f f']
  unfolding flows_ok_def by (auto split: if_splits)

lemma flows_ok_new:
  assumes "flows_ok flows nxt" "dm_get flows k = None" "dm_len flows < MAX_FLOWS_TOTAL" "fe_generation f = nxt"
  shows "flows_ok (dm_insert k f flows) (nxt + 1)"
  using assms dm.entries_insert_new [of flows k f]
  unfolding flows_ok_def by (auto split: if_splits simp: less_Suc_eq) (metis less_irrefl)+

lemma flows_ok_remove: "flows_ok flows nxt \<Longrightarrow> flows_ok (dm_remove k flows) nxt"
  using dm.entries_remove_le [of flows k] unfolding flows_ok_def by (auto split: if_splits)

lemma tasks_ok_flows_put:
  assumes "tasks_ok cap flows nxt tasks" "dm_get flows k = Some f" "fe_generation f' = fe_generation f"
  shows "tasks_ok cap (dm_insert k f' flows) nxt tasks"
  using assms unfolding tasks_ok_def by (auto split: if_splits)

lemma tasks_ok_flows_remove: "tasks_ok cap flows nxt tasks \<Longrightarrow> tasks_ok cap (dm_remove k flows) nxt tasks"
  unfolding tasks_ok_def by (auto split: if_splits)

lemma tasks_ok_put:
  assumes "tasks_ok cap flows nxt tasks" "dm_get tasks g = Some t" "task_ok cap t'" "ft_flow_key t' = ft_flow_key t"
  shows "tasks_ok cap flows nxt (dm_insert g t' tasks)"
  using assms unfolding tasks_ok_def by auto

lemma tasks_ok_remove: "tasks_ok cap flows nxt tasks \<Longrightarrow> tasks_ok cap flows nxt (dm_remove g tasks)"
  unfolding tasks_ok_def by (auto split: if_splits)

lemma tasks_ok_new:
  assumes "tasks_ok cap flows nxt tasks" "flows_ok flows nxt" "task_ok cap t" "ft_flow_key t = k" "fe_generation f = nxt"
  shows "tasks_ok cap (dm_insert k f flows) (nxt + 1) (dm_insert nxt t tasks)"
  using assms unfolding tasks_ok_def flows_ok_def by (auto simp: less_Suc_eq split: if_splits) (metis less_irrefl)

lemma index_ok_put: "index_ok m \<Longrightarrow> length keys \<le> MAX_FLOWS_PER_SESSION \<Longrightarrow> index_ok (dm_insert sid keys m)"
  unfolding index_ok_def by auto

lemma index_ok_remove: "index_ok m \<Longrightarrow> index_ok (dm_remove sid m)"
  unfolding index_ok_def by auto

lemma index_ok_filter:
  assumes "index_ok m" "dm_get m sid = Some keys"
  shows "index_ok (dm_insert sid (filter p keys) m)"
proof -
  have "length (filter p keys) \<le> length keys" by (rule length_filter_le)
  moreover have "length keys \<le> MAX_FLOWS_PER_SESSION" using assms by (simp add: index_ok_def)
  ultimately show ?thesis using index_ok_put [OF assms(1)] le_trans by blast
qed

lemma remove_v1_flow_ok:
  assumes "v1_flows_ok c v"
  shows "v1_flows_ok c (remove_v1_flow sid key g v)"
  using assms
  by (auto simp: v1_flows_ok_def remove_v1_flow_def Let_def flows_ok_remove tasks_ok_flows_remove index_ok_remove
      index_ok_filter split: option.splits)

text \<open>What \<^verbatim>\<open>remove_v1_flow\<close> does not touch.\<close>

lemma remove_v1_flow_frame [simp]:
  "gate.truncate (remove_v1_flow sid key g v) = gate.truncate v"
  "g_sessions (remove_v1_flow sid key g v) = g_sessions v"
  "g_stats (remove_v1_flow sid key g v) = g_stats v"
  "v_next_generation (remove_v1_flow sid key g v) = v_next_generation v" "v_tasks (remove_v1_flow sid key g v) = v_tasks v"
  "v_response_queue (remove_v1_flow sid key g v) = v_response_queue v"
  "v_policy (remove_v1_flow sid key g v) = v_policy v" "v_budgets (remove_v1_flow sid key g v) = v_budgets v"
  "v_tun (remove_v1_flow sid key g v) = v_tun v" "v_tun_queue (remove_v1_flow sid key g v) = v_tun_queue v"
  "v_tun_responses (remove_v1_flow sid key g v) = v_tun_responses v" "v_resolves (remove_v1_flow sid key g v) = v_resolves v"
  "v_sent (remove_v1_flow sid key g v) = v_sent v" "v_upstream (remove_v1_flow sid key g v) = v_upstream v"
  "v_tun_written (remove_v1_flow sid key g v) = v_tun_written v"
  by (simp_all add: remove_v1_flow_def gate.truncate_def split: option.splits)

section \<open>The invariant\<close>

definition v1_ok :: "v1_config \<Rightarrow> v1_state \<Rightarrow> bool" where
  "v1_ok c v \<longleftrightarrow> relay_ok v \<and> v1_flows_ok c v"

lemmas v1_ok_defs = v1_ok_def v1_flows_ok_def relay_ok_defs

text \<open>A step that keeps the shared invariant and the fields of the datapath keeps the invariant.\<close>

lemma v1_ok_shared: "v1_ok c v \<Longrightarrow> relay_ok w \<Longrightarrow> relay.more w = relay.more v \<Longrightarrow> v1_ok c w"
  by (cases v; cases w) (simp add: v1_ok_def v1_flows_ok_def)

lemma v1_ok_relay: "v1_ok c v \<Longrightarrow> relay_ok v"
  by (simp add: v1_ok_def)

lemmas v1_ok_balanced = relay_ok_balanced [OF v1_ok_relay]

lemma v1_ok_drops [simp]: "v1_ok c (g_drop_in r v) = v1_ok c v" "v1_ok c (g_drop_out r v) = v1_ok c v"
  by (simp_all add: v1_ok_def) (simp_all add: v1_flows_ok_def g_drop_in_def g_drop_out_def)

lemma v1_ok_trace [simp]:
  "v1_ok c (v\<lparr>v_sent := xs\<rparr>) = v1_ok c v" "v1_ok c (v\<lparr>v_policy := pol\<rparr>) = v1_ok c v"
  "v1_ok c (v\<lparr>v_response_queue := q\<rparr>) = v1_ok c v"
  by (simp_all add: v1_ok_defs)

lemma v1_ok_budgets: "v1_ok c v \<Longrightarrow> budgets_ok b \<Longrightarrow> v1_ok c (v\<lparr>v_budgets := b\<rparr>)"
  by (simp add: v1_ok_defs)

lemma v1_ok_traffic: "v1_ok c v \<Longrightarrow> dm_ok tr \<Longrightarrow> v1_ok c (v\<lparr>g_session_traffic := tr\<rparr>)"
  by (simp add: v1_ok_defs)

lemma v1_ok_stats:
  "v1_ok c v \<Longrightarrow> drops_balanced s \<Longrightarrow> active_sessions s = active_sessions (g_stats v) \<Longrightarrow> v1_ok c (v\<lparr>g_stats := s\<rparr>)"
  by (simp add: v1_ok_defs)

lemma v1_ok_send [simp]: "v1_ok c (relay_send addr frame v) = v1_ok c v"
  by (simp add: relay_send_def)

lemma v1_ok_steps:
  assumes "v1_ok c v"
  shows "v1_ok c (count_out sid n v)" "v1_ok c (rtt_report ev v)" "v1_ok c (resolve_request ev v)"
    "v1_ok c (set_user sid ip v)" "packet_ok raw \<Longrightarrow> v1_ok c (tun_send c' tcp ev raw v)"
    "v1_ok c (touch_session sid now now_unix v)" "v1_ok c (snd (respond c' sid p frame now_unix ms ok v))"
    "v1_ok c (tun_response_step c' now_unix ms ok v)" "v1_ok c (tun_write_step v)" "v1_ok c (tun_read_step p v)"
    "v1_ok c (resolve_step lookup v)" "v1_ok c (snd (g_allow_source_event a k now v))"
  using assms v1_ok_relay [OF assms]
  by (auto intro!: v1_ok_shared [OF assms] relay_ok_count_out relay_ok_rtt relay_ok_resolve relay_ok_set_user relay_ok_tun_send
      relay_ok_touch relay_ok_respond relay_ok_tun_response relay_ok_tun_write relay_ok_tun_read relay_ok_resolve_step
      relay_ok_source_event)

lemmas v1_ok_count_out = v1_ok_steps(1)
lemmas v1_ok_set_user = v1_ok_steps(4)
lemmas v1_ok_tun_send = v1_ok_steps(5)
lemmas v1_ok_respond = v1_ok_steps(7)

subsection \<open>The receive loop\<close>

lemma v1_ok_ping: "v1_ok c v \<Longrightarrow> v1_ok c (v1_ping ev v)"
  by (simp add: v1_ping_def Let_def v1_ok_count_out)

lemma v1_ok_flow_put:
  assumes "v1_ok c v" "dm_get (v_flows v) k = Some f" "fe_generation f' = fe_generation f"
  shows "v1_ok c (v\<lparr>v_flows := dm_insert k f' (v_flows v)\<rparr>)"
  using assms flows_ok_put [of "v_flows v" "v_next_generation v" k f f']
    tasks_ok_flows_put [of "vc_flow_channel_capacity c" "v_flows v" "v_next_generation v" "v_tasks v" k f f']
  by (simp add: v1_ok_defs)

lemma v1_ok_refresh: "v1_ok c v \<Longrightarrow> v1_ok c (v\<lparr>v_flows := refresh_flow now addr key (v_flows v)\<rparr>)"
  unfolding refresh_flow_def by (auto split: option.split intro: v1_ok_flow_put)

lemma v1_ok_keepalive: "v1_ok c v \<Longrightarrow> v1_ok c (v1_keepalive ev v)"
proof -
  have "v1_ok c v \<Longrightarrow> v1_ok c (v\<lparr>v_flows := fold (refresh_flow now addr) keys (v_flows v)\<rparr>)" for now addr keys
  proof (induction keys arbitrary: v)
    case (Cons k keys)
    show ?case using Cons.IH [OF v1_ok_refresh [OF Cons.prems, of now addr k]] by simp
  qed simp
  then show "v1_ok c v \<Longrightarrow> v1_ok c (v1_keepalive ev v)" by (auto simp: v1_keepalive_def split: option.split)
qed

lemma relay_ok_remove_v1_flow [simp]: "relay_ok (remove_v1_flow sid key g v) = relay_ok v"
  by (simp add: remove_v1_flow_def relay_ok_defs split: option.splits)

lemma v1_ok_remove_flow [simp]: "v1_ok c v \<Longrightarrow> v1_ok c (remove_v1_flow sid key g v)"
  using remove_v1_flow_ok [of c v sid key g] by (simp add: v1_ok_def)

lemma v1_ok_task_put:
  assumes "v1_ok c v" "dm_get (v_tasks v) g = Some t" "task_ok (vc_flow_channel_capacity c) t'" "ft_flow_key t' = ft_flow_key t"
  shows "v1_ok c (v\<lparr>v_tasks := dm_insert g t' (v_tasks v)\<rparr>)"
  using assms tasks_ok_put [OF _ assms(2-4)] by (simp add: v1_ok_defs)

lemma v1_ok_task:
  "v1_ok c v \<Longrightarrow> dm_get (v_tasks v) g = Some t \<Longrightarrow> task_ok (vc_flow_channel_capacity c) t"
  by (simp add: v1_ok_defs tasks_ok_def)

lemma v1_ok_existing_flow:
  assumes "v1_ok c v" "dm_get (v_flows v) key = Some flow"
  shows "v1_ok c (v1_existing_flow c ev key flow payload info v)"
proof -
  let ?f = "flow\<lparr>fe_last_activity := ev_later ev, fe_client_addr := ev_addr ev, fe_original_info := info, fe_marked_for_removal := None\<rparr>"
  let ?v = "v\<lparr>v_flows := dm_insert key ?f (v_flows v)\<rparr>"
  have v: "v1_ok c ?v" using assms by (rule v1_ok_flow_put) simp
  show ?thesis
  proof (cases "dm_get (v_tasks v) (fe_generation flow)")
    case None
    then show ?thesis using v by (simp add: v1_existing_flow_def Let_def)
  next
    case (Some task)
    have "v1_ok c (?v\<lparr>v_tasks := dm_insert (fe_generation flow) (task\<lparr>ft_queue := ft_queue task @ [payload]\<rparr>) (v_tasks ?v)\<rparr>)"
      if "length (ft_queue task) < vc_flow_channel_capacity c"
      using that v1_ok_task [OF v, of "fe_generation flow" task] Some
      by (intro v1_ok_task_put [OF v, where t = task]) (simp_all add: task_ok_def)
    then show ?thesis using v Some by (simp add: v1_existing_flow_def Let_def)
  qed
qed

lemma v1_ok_new_flow:
  assumes "v1_ok c v" "dm_get (v_flows v) key = None" "dm_len (v_flows v) < MAX_FLOWS_TOTAL"
    and "indexed_session_flow_count (v_session_flow_keys v) (ev_sid ev) < MAX_FLOWS_PER_SESSION"
    and "key = flow_key (ev_sid ev) game" "allowed_endpoint game"
  shows "v1_ok c (v1_new_flow c ev key game payload info v)"
proof -
  let ?keys = "case dm_get (v_session_flow_keys v) (ev_sid ev) of None \<Rightarrow> [] | Some keys \<Rightarrow> keys"
  have keys: "length (?keys @ [key]) \<le> MAX_FLOWS_PER_SESSION"
    using assms(4) by (auto simp: indexed_session_flow_count_def split: option.splits)
  have ok: "flows_ok (v_flows v) (v_next_generation v)" "index_ok (v_session_flow_keys v)"
    "tasks_ok (vc_flow_channel_capacity c) (v_flows v) (v_next_generation v) (v_tasks v)"
    using assms(1) by (simp_all add: v1_ok_defs)
  let ?f = "\<lparr>fe_generation = v_next_generation v, fe_client_addr = ev_addr ev, fe_last_activity = ev_later ev,
    fe_original_info = info, fe_marked_for_removal = None\<rparr>"
  let ?t = "\<lparr>ft_flow_key = key, ft_game_addr = game, ft_session_id = ev_sid ev,
    ft_queue = (if vc_flow_channel_capacity c > 0 then [payload] else []), ft_running = False,
    ft_recv_errors = 0, ft_send_errors = 0\<rparr>"
  let ?v = "if vc_flow_channel_capacity c > 0 then v else g_drop_in FlowQueue v"
  have "task_ok (vc_flow_channel_capacity c) ?t" using assms(5,6) by (simp add: task_ok_def)
  then have t: "tasks_ok (vc_flow_channel_capacity c) (dm_insert key ?f (v_flows v)) (v_next_generation v + 1)
      (dm_insert (v_next_generation v) ?t (v_tasks v))"
    by (intro tasks_ok_new [OF ok(3,1)]) simp_all
  have f: "flows_ok (dm_insert key ?f (v_flows v)) (v_next_generation v + 1)"
    by (rule flows_ok_new [OF ok(1) assms(2,3)]) simp
  have i: "index_ok (dm_insert (ev_sid ev) (?keys @ [key]) (v_session_flow_keys v))"
    by (rule index_ok_put [OF ok(2) keys])
  have fr: "v_flows ?v = v_flows v" "v_session_flow_keys ?v = v_session_flow_keys v" "v_tasks ?v = v_tasks v"
    "v_next_generation ?v = v_next_generation v" by (simp_all add: g_drop_in_def)
  have v: "relay_ok ?v" using assms(1) by (simp add: v1_ok_def)
  show ?thesis
    using v f i t unfolding v1_new_flow_def Let_def fr v1_ok_def v1_flows_ok_def
    by (simp add: relay_ok_defs)
qed

lemma flow_admit_frame [simp]:
  "v_flows (snd (v1_flow_admit ev v)) = v_flows v"
  "v_session_flow_keys (snd (v1_flow_admit ev v)) = v_session_flow_keys v"
  by (simp_all add: v1_flow_admit_def g_allow_source_event_def split_beta Let_def)

lemma v1_ok_flow_admit: "v1_ok c v \<Longrightarrow> v1_ok c (snd (v1_flow_admit ev v))"
proof -
  assume v: "v1_ok c v"
  let ?s = "snd (v1_flow_capacity_available (v_flows v) (v_session_flow_keys v) (g_stats v) (ev_sid ev))"
  have "v1_ok c (v\<lparr>g_stats := ?s\<rparr>)"
    using v by (intro v1_ok_stats) (simp_all add: v1_flow_capacity_available_def v1_ok_balanced)
  then show ?thesis by (simp add: v1_flow_admit_def split_beta Let_def v1_ok_steps(12))
qed

lemma flow_admitted:
  "fst (v1_flow_admit ev v) \<Longrightarrow> dm_len (v_flows v) < MAX_FLOWS_TOTAL \<and>
     indexed_session_flow_count (v_session_flow_keys v) (ev_sid ev) < MAX_FLOWS_PER_SESSION"
  by (auto simp: v1_flow_admit_def v1_flow_capacity_available_def split_beta Let_def split: if_splits)

lemma set_user_frame [simp]:
  "v_flows (set_user sid ip v) = v_flows v" "v_session_flow_keys (set_user sid ip v) = v_session_flow_keys v"
  "v_tasks (set_user sid ip v) = v_tasks v" "v_tun_queue (set_user sid ip v) = v_tun_queue v"
  by (simp_all add: set_user_def split: option.split)

lemma v1_ok_udp:
  assumes "v1_ok c v" "allowed_endpoint game"
  shows "v1_ok c (v1_udp c ev game payload info v)"
proof -
  let ?u = "set_user (ev_sid ev) (oi_src_ip info) v" and ?key = "flow_key (ev_sid ev) game"
  have u: "v1_ok c ?u" using assms(1) by (rule v1_ok_set_user)
  show ?thesis
  proof (cases "dm_get (v_flows v) ?key")
    case None
    let ?a = "snd (v1_flow_admit ev ?u)"
    have a: "v1_ok c ?a" using u by (rule v1_ok_flow_admit)
    have "v1_ok c (v1_new_flow c ev ?key game payload info ?a)" if "fst (v1_flow_admit ev ?u)"
      using flow_admitted [OF that] None assms(2) by (intro v1_ok_new_flow [OF a]) simp_all
    then show ?thesis
      using None a by (simp add: v1_udp_def v1_flow_entry_def split_beta Let_def dm_contains_get)
  next
    case (Some flow)
    then show ?thesis
      using v1_ok_existing_flow [OF u, of ?key flow ev payload info]
      by (simp add: v1_udp_def v1_flow_entry_def split_beta Let_def dm_contains_get)
  qed
qed

lemma v1_ok_forward:
  assumes "v1_ok c v" "parse_ip_packet_full pol p = (Some r, pol')"
  shows "v1_ok c (v1_forward c ev r v)"
  using parsed_packet_ok [OF assms(2)] assms(1) by (auto simp: v1_ok_set_user v1_ok_tun_send v1_ok_udp)

lemma v1_ok_payload: "v1_ok c v \<Longrightarrow> v1_ok c (v1_payload c ev v)"
proof -
  assume v: "v1_ok c v"
  let ?p = "drop SESSION_ID_LEN (ev_frame ev)"
  obtain r pol where r: "parse_ip_packet_full (v_policy v) ?p = (r, pol)" by fastforce
  have b: "v1_ok c (v\<lparr>v_policy := pol, v_budgets := b\<rparr>)" if "budgets_ok b" for b
    using v1_ok_budgets [of c "v\<lparr>v_policy := pol\<rparr>" b] v that by simp
  show ?thesis
    using v r b v1_ok_balanced(3) [OF v]
    by (auto simp: v1_payload_def split_beta Let_def account_budget_allow_ok intro!: v1_ok_forward [of c _ _ _ _ pol] split: option.split)
qed

lemma v1_ok_dispatch: "v1_ok c v \<Longrightarrow> v1_ok c (v1_dispatch c ev a v)"
  by (simp add: v1_dispatch_def Let_def v1_ok_ping v1_ok_steps v1_ok_keepalive v1_ok_payload)

text \<open>Admission writes the shared tables and sends acknowledgements to the sender, nothing else.\<close>

definition v1_rest :: "v1_state \<Rightarrow> v1_state" where
  "v1_rest v = v\<lparr>g_sessions := [], g_source_session_counts := [], g_session_traffic := [], g_stats := stats_new,
     g_source_limiter := source_rate_limiter_new 0, g_pending_auth := [], g_replay_cache := replay_cache_new, v_sent := []\<rparr>"

definition sent_to :: "sock_addr \<Rightarrow> (sock_addr \<times> bytes) list \<Rightarrow> v1_state \<Rightarrow> bool" where
  "sent_to addr xs v \<longleftrightarrow> (\<exists>ys. v_sent v = xs @ ys \<and> (\<forall>y \<in> set ys. fst y = addr))"

lemma sent_to_more: "sent_to addr xs v \<Longrightarrow> sent_to addr xs (relay_send addr f v)"
  unfolding sent_to_def relay_send_def by force

interpretation v1_frame: gate_frame v1_ack "\<lambda>v. v1_rest v = r \<and> sent_to addr xs v" addr sid for r addr sid xs
  by unfold_locales (simp_all add: sent_to_more v1_ack_def, simp_all add: v1_rest_def relay_send_def sent_to_def)

lemma rx_gate_frame:
  "v1_rest (snd (rx_gate v1_ack c ev v)) = v1_rest v" "sent_to (ev_addr ev) (v_sent v) (snd (rx_gate v1_ack c ev v))"
  using v1_frame.frame_rx_gate [where r = "v1_rest v" and addr = "ev_addr ev" and sid = "ev_sid ev" and xs = "v_sent v" and ev = ev and g = v and c = c]
  by (simp_all add: sent_to_def)

lemma v1_rest_fields:
  assumes "v1_rest v = v1_rest v'"
  shows "v_flows v = v_flows v'" "v_session_flow_keys v = v_session_flow_keys v'" "v_next_generation v = v_next_generation v'"
    "v_tasks v = v_tasks v'" "v_response_queue v = v_response_queue v'" "v_response_open v = v_response_open v'"
    "v_policy v = v_policy v'" "v_budgets v = v_budgets v'" "v_tun v = v_tun v'" "v_tun_queue v = v_tun_queue v'"
    "v_tun_responses v = v_tun_responses v'" "v_resolves v = v_resolves v'" "v_upstream v = v_upstream v'"
    "v_tun_written v = v_tun_written v'"
  using assms by (cases v; cases v'; simp add: v1_rest_def)+

lemma v1_ok_rest: "v1_rest v = v1_rest v' \<Longrightarrow> gate_ok v \<Longrightarrow> v1_ok c v' \<Longrightarrow> v1_ok c v"
  by (simp add: v1_ok_defs v1_rest_fields [of v v'])

lemma v1_ok_rx: "v1_ok c v \<Longrightarrow> v1_ok c (v1_rx c ev v)"
proof -
  assume v: "v1_ok c v"
  have "gate_ok (snd (rx_gate v1_ack (vc_rx c) ev v))" using v by (intro v1.rx_gate_ok) (simp add: v1_ok_def relay_ok_def)
  then have "v1_ok c (snd (rx_gate v1_ack (vc_rx c) ev v))" using v1_ok_rest [OF rx_gate_frame(1)] v by blast
  then show ?thesis by (auto simp: v1_rx_def split_beta v1_ok_dispatch split: option.split)
qed

subsection \<open>The other tasks\<close>

lemma v1_ok_flow_end: "v1_ok c v \<Longrightarrow> v1_ok c (flow_end g task v)"
proof -
  assume "v1_ok c v"
  then have "v1_ok c (v\<lparr>v_tasks := dm_remove g (v_tasks v)\<rparr>)"
    using tasks_ok_remove by (simp add: v1_ok_defs)
  then show ?thesis by (simp add: flow_end_def)
qed

lemma v1_ok_put:
  assumes "v1_ok c v" "dm_get (v_tasks v) g = Some t" "task_ok (vc_flow_channel_capacity c) t'" "ft_flow_key t' = ft_flow_key t"
  shows "v1_ok c (flow_put g t' v)"
  using v1_ok_task_put [OF assms] by (simp add: flow_put_def)

lemma v1_ok_flow_start:
  assumes "v1_ok c v" "dm_get (v_tasks v) g = Some t"
  shows "v1_ok c (flow_start b k g t v)"
  using assms v1_ok_task [OF assms]
  by (auto simp: flow_start_def Let_def v1_ok_flow_end task_ok_def intro!: v1_ok_put [OF assms])

lemma v1_ok_deliver:
  assumes "v1_ok c v" "dm_get (v_tasks v) g = Some t"
  shows "v1_ok c (flow_deliver err g t v)"
proof -
  have t: "task_ok (vc_flow_channel_capacity c) t" using assms by (rule v1_ok_task)
  have up: "v1_ok c (v\<lparr>v_upstream := v_upstream v @ [(ft_game_addr t, d)]\<rparr>)" for d
    using t by (intro v1_ok_shared [OF assms(1)] relay_ok_upstream v1_ok_relay [OF assms(1)]) (simp_all add: task_ok_def)
  show ?thesis
    using assms t up
    by (auto simp: flow_deliver_def Let_def v1_ok_flow_end task_ok_def
        intro!: v1_ok_put [where t = t] split: list.split option.split)
qed

lemma v1_ok_reply:
  assumes "v1_ok c v" "dm_get (v_tasks v) g = Some t" "task_ok (vc_flow_channel_capacity c) t'" "ft_flow_key t' = ft_flow_key t"
    and "dm_get (v_flows v) (ft_flow_key t') = Some flow"
  shows "v1_ok c (flow_reply payload now now_unix g t' flow v)"
proof -
  let ?q = "v_response_queue v @ [(fe_client_addr flow, ft_session_id t', ft_session_id t' @ build_response_ip_packet payload (fe_original_info flow))]"
  let ?w = "if v_response_open v then v\<lparr>v_response_queue := ?q\<rparr> else g_drop_out TxQueue v"
  let ?f = "flow\<lparr>fe_last_activity := now, fe_marked_for_removal := None\<rparr>"
  have w: "v1_ok c ?w" using assms(1) by simp
  have fr: "v_flows ?w = v_flows v" "v_tasks ?w = v_tasks v" by (simp_all add: g_drop_out_def)
  have x: "v1_ok c (?w\<lparr>v_flows := dm_insert (ft_flow_key t') ?f (v_flows ?w)\<rparr>)"
    by (rule v1_ok_flow_put [OF w, where f = flow]) (use fr assms(5) in simp_all)
  have "v1_ok c (flow_put g t' (?w\<lparr>v_flows := dm_insert (ft_flow_key t') ?f (v_flows ?w)\<rparr>))"
    by (rule v1_ok_put [OF x, where t = t]) (use fr assms(2-4) in simp_all)
  then show ?thesis unfolding flow_reply_def Let_def by (rule v1_ok_steps(6))
qed

lemma v1_ok_receive:
  assumes "v1_ok c v" "dm_get (v_tasks v) g = Some t"
  shows "v1_ok c (flow_receive result now now_unix g t v)"
proof -
  have t: "task_ok (vc_flow_channel_capacity c) t" using assms by (rule v1_ok_task)
  have put: "v1_ok c (flow_put g (t\<lparr>ft_recv_errors := n\<rparr>) w)"
    if "v1_ok c w" "n < 5" "dm_get (v_tasks w) g = Some t" for n w
    using t that by (intro v1_ok_put [where t = t]) (simp_all add: task_ok_def)
  show ?thesis
    using assms t
    by (auto simp: flow_receive_def Let_def v1_ok_flow_end task_ok_def intro!: put v1_ok_reply [where t = t]
        split: sum.split option.split)
qed

lemma v1_ok_flow_step: "v1_ok c v \<Longrightarrow> v1_ok c (v1_flow_step g e v)"
  by (cases e) (auto simp: v1_flow_step_def flow_idle_def v1_ok_flow_end v1_ok_flow_start v1_ok_deliver v1_ok_receive
      split: option.split)

lemma v1_ok_response_step: "v1_ok c v \<Longrightarrow> v1_ok c (v1_response_step c' now_unix later ms ok v)"
  by (auto simp: v1_response_step_def split_beta Let_def v1_ok_respond v1_ok_balanced(2) [where c = c]
      intro!: v1_ok_traffic split: list.split)

subsection \<open>Cleanup\<close>

lemma flow_retain_generation: "flow_retain now f = Some f' \<Longrightarrow> fe_generation f' = fe_generation f"
  by (auto simp: flow_retain_def Let_def split: option.splits if_splits)

lemma flows_retain_Cons:
  "flows_retain now ((k, f) # flows) =
     (case flow_retain now f of None \<Rightarrow> flows_retain now flows | Some f' \<Rightarrow> (k, f') # flows_retain now flows)"
  by (auto simp: flows_retain_def List.map_filter_def split: option.split)

lemma flows_retain_Nil: "flows_retain now [] = []"
  by (simp add: flows_retain_def List.map_filter_def)

lemma flows_retain_keys: "set (map fst (flows_retain now flows)) \<subseteq> set (map fst flows)"
proof (induction flows)
  case (Cons x flows)
  then show ?case by (cases x) (auto simp: flows_retain_Cons split: option.split)
qed (simp add: flows_retain_Nil)

lemma flows_retain_ok: "dm_ok flows \<Longrightarrow> dm_ok (flows_retain now flows) \<and> dm_len (flows_retain now flows) \<le> dm_len flows"
proof (induction flows)
  case Nil
  then show ?case by (simp add: flows_retain_def List.map_filter_def)
next
  case (Cons x flows)
  then show ?case
    using flows_retain_keys [of now flows] by (cases x) (auto simp: flows_retain_Cons dm_ok_def dm_len_def split: option.split)
qed

lemma flows_retain_get:
  "dm_ok flows \<Longrightarrow> dm_get (flows_retain now flows) k = Option.bind (dm_get flows k) (flow_retain now)"
proof (induction flows)
  case Nil
  then show ?case by (simp add: flows_retain_def List.map_filter_def)
next
  case (Cons x flows)
  obtain k' f where x: "x = (k', f)" by (cases x)
  have "k' \<notin> set (map fst (flows_retain now flows))" using Cons.prems flows_retain_keys x by (auto simp: dm_ok_def)
  then have "dm_get (flows_retain now flows) k' = None" by (simp add: dm_get_def map_of_eq_None_iff)
  moreover have "dm_get (flows_retain now flows) k = Option.bind (dm_get flows k) (flow_retain now)"
    using Cons by (simp add: dm_ok_def)
  ultimately show ?case by (auto simp: x flows_retain_Cons dm_get_def split: option.split)
qed

lemma flows_retain_tables:
  assumes "flows_ok flows nxt" "tasks_ok cap flows nxt tasks"
  shows "flows_ok (flows_retain now flows) nxt" "tasks_ok cap (flows_retain now flows) nxt tasks"
proof -
  have ok: "dm_ok flows" using assms(1) by (simp add: flows_ok_def)
  have get: "\<exists>f. dm_get flows k = Some f \<and> fe_generation f = fe_generation f'"
    if "dm_get (flows_retain now flows) k = Some f'" for k f'
    using that flows_retain_get [OF ok] flow_retain_generation by (auto simp: bind_eq_Some_conv)
  have lt: "fe_generation f' < nxt" if "dm_get (flows_retain now flows) k = Some f'" for k f'
    using get [OF that] flows_ok_get [OF assms(1)] by metis
  have inj: "k = k'" if a: "dm_get (flows_retain now flows) k = Some f" and b: "dm_get (flows_retain now flows) k' = Some f'"
    and "fe_generation f = fe_generation f'" for k k' f f'
    using get [OF a] get [OF b] that(3) flows_ok_inj [OF assms(1)] by fastforce
  have len: "dm_len (flows_retain now flows) \<le> MAX_FLOWS_TOTAL"
    using flows_retain_ok [OF ok, of now] assms(1) by (simp add: flows_ok_def)
  show "flows_ok (flows_retain now flows) nxt"
    unfolding flows_ok_def using flows_retain_ok [OF ok, of now] len lt inj by blast
  have "k = ft_flow_key t" if "dm_get tasks g = Some t" and f: "dm_get (flows_retain now flows) k = Some f" and "fe_generation f = g" for g t k f
    using that(1,3) get [OF f] assms(2) unfolding tasks_ok_def by auto
  then show "tasks_ok cap (flows_retain now flows) nxt tasks"
    using assms(2) unfolding tasks_ok_def by simp
qed

lemma index_ok_retain: "index_ok m \<Longrightarrow> index_ok (keys_retain flows ss m)"
proof -
  assume m: "index_ok m"
  let ?m = "map (\<lambda>(sid, keys). (sid, filter (dm_contains flows) keys)) m"
  have "map fst ?m = map fst m" by (induction m) auto
  moreover have "dm_ok m" using m by (simp add: index_ok_def)
  ultimately have ok: "dm_ok ?m" by (simp only: dm_ok_def)
  have get: "dm_get ?m sid = map_option (filter (dm_contains flows)) (dm_get m sid)" for sid
    by (induction m) (auto simp: dm_get_def)
  have "length ks \<le> MAX_FLOWS_PER_SESSION" if g: "dm_get ?m sid = Some ks" for sid ks
  proof -
    obtain keys where "dm_get m sid = Some keys" "ks = filter (dm_contains flows) keys" using g get by auto
    then have "length ks \<le> length keys" "length keys \<le> MAX_FLOWS_PER_SESSION" using m by (auto simp: index_ok_def)
    then show ?thesis by simp
  qed
  then show ?thesis using ok unfolding keys_retain_def index_ok_def by (auto split: option.splits if_splits)
qed

lemma v1_rest_more: "gate.more v = gate.more w \<Longrightarrow> v1_rest v = v1_rest w"
  by (cases v; cases w) (simp add: v1_rest_def)

lemmas expire_sessions_rest = v1_rest_more [OF expire_sessions_more]

lemma v1_ok_cleanup: "v1_ok c v \<Longrightarrow> v1_ok c (v1_cleanup c' now v)"
proof -
  assume v: "v1_ok c v"
  let ?a = "v\<lparr>v_flows := flows_retain now (v_flows v)\<rparr>"
  let ?b = "?a\<lparr>v_session_flow_keys := keys_retain (v_flows ?a) (g_sessions ?a) (v_session_flow_keys ?a)\<rparr>"
  let ?e = "expire_sessions (session_idle now) ?b"
  let ?t = "if vc_tun_present c' then ?e\<lparr>v_tun := remove_expired (dm_contains (g_sessions ?e)) (v_tun ?e)\<rparr> else ?e"
  have b: "v1_ok c ?b"
    using v flows_retain_tables [of "v_flows v" "v_next_generation v" "vc_flow_channel_capacity c" "v_tasks v" now] index_ok_retain
    by (simp add: v1_ok_defs)
  then have "gate_ok ?e" by (intro expire_sessions_ok) (simp add: v1_ok_def relay_ok_def)
  then have e: "v1_ok c ?e" using v1_ok_rest [OF expire_sessions_rest] b by blast
  then have t: "v1_ok c ?t" by (simp add: v1_ok_defs)
  show ?thesis
    unfolding v1_cleanup_def Let_def
    by (rule v1_ok_stats [OF t]) (use v1_ok_balanced(1) [OF t] in simp_all)
qed

subsection \<open>Every reachable state\<close>

lemma v1_ok_step: "v1_ok c v \<Longrightarrow> v1_ok c (v1_step c e v)"
  by (cases e)
    (simp_all add: v1_ok_rx v1_ok_flow_step v1_ok_response_step v1_ok_steps v1_ok_cleanup v1_ok_budgets v1_ok_balanced budgets_maintain_ok)

lemma v1_ok_init: "v1_ok c (v1_init now policy budget)"
  unfolding v1_ok_def relay_ok_extend v1_init_def
  by (simp add: relay_ok_new) (simp add: v1_flows_ok_def relay.extend_def flows_ok_def index_ok_def tasks_ok_def dm_len_def)

lemma v1_reach_ok: "v1_reach c v0 v \<Longrightarrow> v1_ok c v0 \<Longrightarrow> v1_ok c v"
  by (induction rule: v1_reach.induct) (auto intro: v1_ok_step)

end
