(* ===== verification/V1_Safety.thy ===== *)
theory V1_Safety
  imports V1_Invariant
begin

text \<open>
  What the first datapath guarantees: bounded tables, no traffic to forbidden
  destinations, payload only from the owner of a session, sessions that keep their owner,
  responses only to the current endpoint of a session with a running lease, tasks that
  leave the flows of others alone, and idle flows that go away.
\<close>

section \<open>Bounds and destinations\<close>

text \<open>
  C4. In every reachable state of the first datapath there are at most 65536 sessions,
  262144 flows, 1024 indexed flows per session, full-capacity flow queues and 4096
  packets in each TUN queue; the session gauge and the per-source counts equal the
  session table, and the drop counters add up to the reasons.
\<close>

theorem v1_tables_bounded:
  assumes "v1_reach c (v1_init now policy budget) v"
  shows "dm_len (g_sessions v) \<le> 65536 \<and> dm_len (v_flows v) \<le> 262144 \<and>
    indexed_session_flow_count (v_session_flow_keys v) sid \<le> 1024 \<and>
    length (v_tun_queue v) \<le> 4096 \<and> length (v_tun_responses v) \<le> 4096 \<and>
    (\<forall>g t. dm_get (v_tasks v) g = Some t \<longrightarrow> length (ft_queue t) \<le> vc_flow_channel_capacity c) \<and>
    active_sessions (g_stats v) = of_nat (dm_len (g_sessions v)) \<and>
    source_session_count (g_source_session_counts v) ip = sessions_from ip (g_sessions v) \<and>
    dropped_in (g_stats v) + dropped_out (g_stats v) = drop_total (drop_reasons (g_stats v))"
proof -
  have ok: "v1_ok c v" using v1_reach_ok [OF assms v1_ok_init] .
  then have "counts_ok (g_sessions v) (g_source_session_counts v)" by (simp add: v1_ok_defs)
  then have "source_session_count (g_source_session_counts v) ip = sessions_from ip (g_sessions v)"
    by (rule source_session_count_ok)
  moreover have "indexed_session_flow_count (v_session_flow_keys v) sid \<le> 1024"
    using ok by (auto simp: v1_ok_defs index_ok_def indexed_session_flow_count_def MAX_FLOWS_PER_SESSION_def split: option.split)
  ultimately show ?thesis
    using ok by (simp add: v1_ok_defs gate_ok_def flows_ok_def tasks_ok_def task_ok_def drops_balanced_def
        MAX_SESSIONS_TOTAL_def MAX_FLOWS_TOTAL_def TUN_QUEUE_CAP_def TUN_RESPONSE_CAP_def)
qed

text \<open>
  C2. In every reachable state of the first datapath, every datagram ever handed to a
  flow socket has an allowed IPv4 destination address and port, and every packet ever
  written to the TUN device has an allowed destination address.
\<close>

theorem v1_never_sends_to_forbidden:
  assumes "v1_reach c (v1_init now policy budget) v"
  shows "(\<forall>(addr, data) \<in> set (v_upstream v).
      \<exists>ip port. addr = SockV4 ip port \<and> \<not> is_forbidden_dst ip \<and> \<not> is_forbidden_dst_port port) \<and>
    (\<forall>p \<in> set (v_tun_written v). 20 \<le> length p \<and> \<not> is_forbidden_dst (read_ipv4 p 16))"
  using v1_reach_ok [OF assms v1_ok_init]
  by (auto simp: v1_ok_defs packet_ok_def ip_headed_def allowed_endpoint_def)

section \<open>Sessions and their owners\<close>

lemma v1_unowned_datagram:
  assumes "vc_auth_required c"
    and "\<not> (\<exists>s. dm_get (g_sessions v) (ev_sid ev) = Some s \<and> session_auth_is_current s (ev_now_unix ev) \<and>
                client_addr s = ev_addr ev)"
  shows "v1_rest (v1_step c (V1Rx ev) v) = v1_rest v \<and>
    (\<exists>acks. v_sent (v1_step c (V1Rx ev) v) = v_sent v @ acks \<and> (\<forall>(addr, frame) \<in> set acks. addr = ev_addr ev))"
proof -
  have "fst (rx_gate v1_ack (vc_rx c) ev v) = None"
    using v1.rx_gate_payload_owner [where c = "vc_rx c" and ev = ev and g = v] assms by (cases "fst (rx_gate v1_ack (vc_rx c) ev v)") auto
  then have "v1_step c (V1Rx ev) v = snd (rx_gate v1_ack (vc_rx c) ev v)" by (simp add: v1_rx_def split_beta)
  then show ?thesis using rx_gate_frame [where c = "vc_rx c" and ev = ev and v = v] by (auto simp: sent_to_def split_beta)
qed

text \<open>
  C1. With authentication on, a datagram whose session is not authenticated with a
  running lease at the sender's own address changes nothing but the admission tables
  (sessions, counters, limiters, replay cache): no flow, task, queue, policy or budget
  changes, nothing goes upstream, and every datagram sent goes back to the sender.
\<close>

theorem v1_payload_needs_owner:
  assumes "vc_auth_required c"
    and "\<not> (\<exists>s. dm_get (g_sessions v) (ev_sid ev) = Some s \<and> session_auth_is_current s (ev_now_unix ev) \<and>
                client_addr s = ev_addr ev)"
  shows "v1_rest (v1_step c (V1Rx ev) v) = v1_rest v \<and>
    (\<exists>acks. v_sent (v1_step c (V1Rx ev) v) = v_sent v @ acks \<and> (\<forall>(addr, frame) \<in> set acks. addr = ev_addr ev))"
  using assms by (rule v1_unowned_datagram)

lemma v1_dispatch_cases:
  assumes "P v" "P (g_drop_in Auth v)" "P (v1_ping ev v)" "P (rtt_report ev v)" "P (resolve_request ev v)" "P (v1_keepalive ev v)"
    and "P (v1_payload c ev v)"
  shows "P (v1_dispatch c ev a v)"
  using assms by (simp add: v1_dispatch_def Let_def)

lemma session_after_dispatch:
  assumes "dm_get (g_sessions v) sid = Some s" "auth_state s = Authenticated"
  shows "dm_get (g_sessions (v1_dispatch c ev a v)) sid = Some s"
proof -
  note user = set_user_session [OF _ assms(2)]
  have flow: "g_sessions (v1_flow_entry c ev n key game payload info w) = g_sessions w" for n key game payload info w
    by (simp add: v1_flow_entry_def v1_existing_flow_def v1_new_flow_def Let_def split: option.split)
  have admit: "g_sessions (snd (v1_flow_admit ev w)) = g_sessions w" for w
    by (simp add: v1_flow_admit_def split_beta Let_def)
  have udp: "dm_get (g_sessions (v1_udp c ev game payload info w)) sid = Some s"
    if "dm_get (g_sessions w) sid = Some s" for game payload info w
    using user [OF that] by (simp add: v1_udp_def split_beta Let_def flow admit)
  have fwd: "dm_get (g_sessions (v1_forward c ev r w)) sid = Some s" if "dm_get (g_sessions w) sid = Some s" for r w
    using that by (cases r) (simp_all add: user udp)
  have payload: "dm_get (g_sessions (v1_payload c ev v)) sid = Some s"
    using assms(1) by (simp add: v1_payload_def split_beta Let_def fwd split: option.split)
  have control: "g_sessions (v1_ping ev v) = g_sessions v" "g_sessions (v1_keepalive ev v) = g_sessions v"
    by (simp_all add: v1_ping_def v1_keepalive_def Let_def split: option.split)
  show ?thesis by (rule v1_dispatch_cases) (simp_all add: control payload assms(1))
qed

lemma flow_end_sessions [simp]: "g_sessions (flow_end g t v) = g_sessions v"
  by (simp add: flow_end_def)

lemma flow_step_session:
  assumes "dm_get (g_sessions v) sid = Some s"
  shows "\<exists>now now_unix. dm_get (g_sessions (v1_flow_step g e v)) sid = Some s \<or>
    dm_get (g_sessions (v1_flow_step g e v)) sid = Some (s\<lparr>last_activity := now, last_activity_unix := now_unix\<rparr>)"
proof -
  have reply: "\<exists>now now_unix. dm_get (g_sessions (flow_reply p n u g t f v)) sid = Some s \<or>
      dm_get (g_sessions (flow_reply p n u g t f v)) sid = Some (s\<lparr>last_activity := now, last_activity_unix := now_unix\<rparr>)" for p n u t f
    using assms by (auto simp: flow_reply_def Let_def touch_session_def flow_put_def split: option.split) blast
  have other: "g_sessions (flow_start b k g t v) = g_sessions v" "g_sessions (flow_deliver err g t v) = g_sessions v"
    "g_sessions (flow_idle g t v) = g_sessions v" for b k t err
    by (simp_all add: flow_start_def flow_deliver_def flow_idle_def flow_put_def Let_def split: list.split option.split)
  have recv: "\<exists>now now_unix. dm_get (g_sessions (flow_receive r n u g t v)) sid = Some s \<or>
      dm_get (g_sessions (flow_receive r n u g t v)) sid = Some (s\<lparr>last_activity := now, last_activity_unix := now_unix\<rparr>)" for r n u t
    using assms reply
    by (simp add: flow_receive_def Let_def flow_put_def split: sum.split option.split)
  show ?thesis
    using assms recv by (cases e) (simp_all add: v1_flow_step_def other split: option.split)
qed

lemma response_step_sessions [simp]: "g_sessions (v1_response_step c now_unix later ms ok v) = g_sessions v"
  by (simp add: v1_response_step_def split_beta Let_def split: list.split)

lemma cleanup_sessions:
  assumes "v1_ok c v"
  shows "dm_get (g_sessions (v1_cleanup c' now v)) sid =
    (case dm_get (g_sessions v) sid of None \<Rightarrow> None | Some s \<Rightarrow> if session_idle now s then None else Some s)"
proof -
  let ?b = "v\<lparr>v_flows := flows_retain now (v_flows v),
     v_session_flow_keys := keys_retain (flows_retain now (v_flows v)) (g_sessions v) (v_session_flow_keys v)\<rparr>"
  have "gate_ok ?b" using assms by (simp add: v1_ok_defs)
  moreover have "g_sessions (v1_cleanup c' now v) = g_sessions (expire_sessions (session_idle now) ?b)"
    by (simp add: v1_cleanup_def Let_def)
  ultimately show ?thesis by (simp add: expire_sessions_get)
qed

text \<open>
  C3. With authentication on, whatever happens next to a reachable relay, an
  authenticated session stays with its user: it is removed only by cleanup after 210
  idle seconds, and its endpoint and lease change only by a hello from the new endpoint
  with a ticket that verifies for that session and the same user.
\<close>

theorem v1_session_keeps_owner:
  assumes "v1_reach c (v1_init t0 policy budget) v" "vc_auth_required c"
    and "dm_get (g_sessions v) sid = Some s" "auth_state s = Authenticated"
  shows "(\<exists>now. e = V1Cleanup now \<and> session_idle now s \<and> dm_get (g_sessions (v1_step c e v)) sid = None) \<or>
    (\<exists>s'. dm_get (g_sessions (v1_step c e v)) sid = Some s' \<and> auth_state s' = Authenticated \<and> user_id s' = user_id s \<and>
       (client_addr s' = client_addr s \<and> lease_expires_at_unix s' = lease_expires_at_unix s \<or>
        (\<exists>ev token ticket. e = V1Rx ev \<and> sid = ev_sid ev \<and> client_addr s' = ev_addr ev \<and>
           parse_auth_hello_token (ev_frame ev) (ev_len ev) = Inr token \<and>
           verify_relay_ticket (c_ext (vc_rx c)) token sid (c_auth (vc_rx c)) (ev_now_unix ev) = Inr ticket \<and>
           vt_user_id ticket = user_id s)))"
proof (cases e)
  case (V1Rx ev)
  obtain s' where s': "dm_get (g_sessions (snd (rx_gate v1_ack (vc_rx c) ev v))) sid = Some s'" "keeps_owner (vc_rx c) ev sid s s'"
    using v1.rx_gate_keeps_owner [OF assms(2-4)] by blast
  have "dm_get (g_sessions (v1_rx c ev v)) sid = Some s'"
    using s' by (auto simp: v1_rx_def split_beta keeps_owner_def intro: session_after_dispatch split: option.split)
  then show ?thesis using s'(2) V1Rx by (auto simp: keeps_owner_def)
next
  case (V1Flow g fe)
  show ?thesis using flow_step_session [OF assms(3), of g fe] assms(4) V1Flow by auto
next
  case (V1Cleanup now)
  show ?thesis using cleanup_sessions [OF v1_reach_ok [OF assms(1) v1_ok_init], of c now sid] assms(3,4) V1Cleanup by auto
qed (use assms(3,4) in simp_all)

section \<open>Responses\<close>

text \<open>
  C26. A queued response, from a flow or from the TUN device, is either not sent or sent
  exactly once, to the endpoint the session has at that moment, and only while the lease
  of the session runs; with authentication on the session must also be authenticated and
  leased.
\<close>

theorem v1_responses_go_to_current_endpoint:
  assumes "e = V1Response now_unix later ms ok \<and> v_response_queue v = (a, sid, frame) # rest \<or>
      e = V1TunResponse now_unix ms ok \<and> v_tun_responses v = p # rest' \<and> sid = tp_session_id p \<and> frame = sid @ tp_ip_packet p"
  shows "v_sent (v1_step c e v) = v_sent v \<or>
    (\<exists>s. dm_get (g_sessions v) sid = Some s \<and> v_sent (v1_step c e v) = v_sent v @ [(client_addr s, frame)] \<and>
       (\<forall>exp. lease_expires_at_unix s = Some exp \<longrightarrow> now_unix < exp) \<and>
       (vc_auth_required c \<longrightarrow> auth_state s = Authenticated \<and> lease_expires_at_unix s \<noteq> None))"
proof -
  let ?w1 = "v\<lparr>v_response_queue := rest\<rparr>" and ?w2 = "v\<lparr>v_tun_responses := rest'\<rparr>"
  have "v_sent (v1_step c e v) = v_sent (snd (respond c sid (drop SESSION_ID_LEN frame) frame now_unix ms ok ?w1)) \<or>
      v_sent (v1_step c e v) = v_sent (snd (respond c sid (tp_ip_packet p) frame now_unix ms ok ?w2))"
    using assms by (auto simp: v1_response_step_def tun_response_step_def split_beta Let_def)
  then have "v_sent (v1_step c e v) = v_sent v \<or> (\<exists>addr. forwarding_addr (g_sessions v) sid (vc_auth_required c) now_unix = Some addr \<and>
      v_sent (v1_step c e v) = v_sent v @ [(addr, frame)])"
    using respond_sent [where v = ?w1 and c = c and sid = sid and ip = "drop SESSION_ID_LEN frame" and frame = frame
          and now_unix = now_unix and ms = ms and ok = ok]
        respond_sent [where v = ?w2 and c = c and sid = sid and ip = "tp_ip_packet p" and frame = frame
          and now_unix = now_unix and ms = ms and ok = ok] by auto
  then show ?thesis unfolding egress_needs_current_session by blast
qed

section \<open>Flows and their tasks\<close>

lemma remove_v1_flow_other:
  "dm_get (v_flows v) k = Some f \<Longrightarrow> fe_generation f \<noteq> g \<Longrightarrow> dm_get (v_flows (remove_v1_flow sid key g v)) k = Some f"
  by (auto simp: remove_v1_flow_def split: option.split)

lemma remove_v1_flow_get:
  "dm_get (v_flows (remove_v1_flow sid key g v)) k =
     (case dm_get (v_flows v) k of None \<Rightarrow> None | Some f \<Rightarrow> if k = key \<and> fe_generation f = g then None else Some f)"
  by (auto simp: remove_v1_flow_def split: option.split)

lemma flow_end_other:
  "dm_get (v_flows v) k = Some f \<Longrightarrow> fe_generation f \<noteq> g \<Longrightarrow> dm_get (v_flows (flow_end g t v)) k = Some f"
  by (simp add: flow_end_def remove_v1_flow_other)

lemma touch_session_flows [simp]: "v_flows (touch_session sid n u v) = v_flows v" "v_tasks (touch_session sid n u v) = v_tasks v"
  by (simp_all add: touch_session_def split: option.split)

text \<open>
  A step of a flow's task leaves every flow of another generation exactly as it is, so a
  task that outlives its flow cannot remove or refresh the flow that took over its key.
\<close>

theorem v1_task_touches_only_its_generation:
  assumes "dm_get (v_flows v) k = Some f" "fe_generation f \<noteq> g"
  shows "dm_get (v_flows (v1_step c (V1Flow g e) v)) k = Some f"
proof -
  have start: "dm_get (v_flows (flow_start b o' g t v)) k = Some f" for b o' t
    using assms by (simp add: flow_start_def Let_def flow_put_def flow_end_other g_drop_in_def)
  have deliver: "dm_get (v_flows (flow_deliver err g t v)) k = Some f" for err t
    using assms by (simp add: flow_deliver_def Let_def flow_put_def flow_end_other split: list.split option.split)
  have receive: "dm_get (v_flows (flow_receive r n u g t v)) k = Some f" for r n u t
    using assms
    by (auto simp: flow_receive_def flow_reply_def Let_def flow_put_def flow_end_other g_drop_out_def
        split: sum.split option.split)
  show ?thesis
    using assms by (cases e) (simp_all add: v1_flow_step_def start deliver receive flow_idle_def flow_end_other split: option.split)
qed

text \<open>
  The fifth hard send error in a row, or the fifth hard receive error in a row,
  ends the task of a flow and removes the flow of its generation.
\<close>

theorem v1_flow_gives_up:
  assumes "dm_get (v_tasks v) g = Some t" "ft_running t"
    and "e = FlowDeliver (Some err) \<and> \<not> is_transient_send_error err \<and> ft_queue t \<noteq> [] \<and> ft_send_errors t = 4 \<or>
      e = FlowReceive (Inl err) n u \<and> \<not> is_transient_recv_error err \<and> ft_recv_errors t = 4"
  shows "dm_get (v_tasks (v1_step c (V1Flow g e) v)) g = None \<and>
    (\<forall>f. dm_get (v_flows (v1_step c (V1Flow g e) v)) (ft_flow_key t) = Some f \<longrightarrow> fe_generation f \<noteq> g)"
  using assms
  by (auto simp: v1_flow_step_def flow_deliver_def flow_receive_def Let_def flow_end_def remove_v1_flow_get
      split: list.splits option.splits if_splits)

section \<open>What the relay owes its clients\<close>

lemma hello_accepted:
  assumes "is_auth_hello ev" "vc_auth_required c"
    and "rx_verify v1_ack (vc_rx c) ev (g_count_in (ev_len ev) v) = (Some (Some ticket), w)" "fst (rx_admit ev w)"
    and "\<forall>s. dm_get (g_sessions v) (ev_sid ev) = Some s \<and> auth_state s = Authenticated \<longrightarrow> user_id s = vt_user_id ticket"
  shows "\<exists>s'. dm_get (g_sessions (v1_step c (V1Rx ev) v)) (ev_sid ev) = Some s' \<and>
      user_id s' = vt_user_id ticket \<and> auth_state s' = Authenticated \<and> client_addr s' = ev_addr ev \<and>
      lease_expires_at_unix s' = (if vt_lease ticket then Some (vt_exp ticket) else None) \<and>
      last (v_sent (v1_step c (V1Rx ev) v)) = (ev_addr ev, ev_sid ev @ [0xA2, 0])"
proof -
  have g: "g_sessions w = g_sessions v"
    using v1.rx_verify_tables(1) [where c = "vc_rx c" and ev = ev and g = "g_count_in (ev_len ev) v"] assms(3) by simp
  let ?t = "touched (vc_rx c) ev (dm_get (g_sessions v) (ev_sid ev))"
  have own: "\<not> (auth_state ?t = Authenticated \<and> user_id ?t \<noteq> vt_user_id ticket)"
    using assms(5) by (auto simp: touched_def split: option.splits)
  have mode: "ac_mode (c_auth (vc_rx c)) \<noteq> AuthOff" using assms(2) by (simp add: requires_auth_def)
  have "v1_step c (V1Rx ev) v = snd (rx_gate v1_ack (vc_rx c) ev v)"
    using rx_gate_accepts_hello [OF assms(1-4)] by (simp add: v1_rx_def)
  then show ?thesis
    using own mode unfolding rx_gate_accepts_hello [OF assms(1-4)]
    by (simp add: rx_hello_def Let_def touch_session_get g v1_ack_def relay_send_def auth_ack_frame_def AUTH_ACK_FRAME_TYPE_def
        AUTH_ACK_OK_def)
qed

text \<open>
  C27. A hello whose ticket verifies and which the limits admit, for a session that is
  free or already belongs to the ticket's user, makes the session authenticated for that
  user at the sender's address with the ticket's expiry as lease, and the last datagram
  sent is the acknowledgement OK to the sender.
\<close>

theorem v1_valid_hello_is_accepted:
  assumes "is_auth_hello ev" "vc_auth_required c"
    and "rx_verify v1_ack (vc_rx c) ev (g_count_in (ev_len ev) v) = (Some (Some ticket), w)" "fst (rx_admit ev w)"
    and "\<forall>s. dm_get (g_sessions v) (ev_sid ev) = Some s \<and> auth_state s = Authenticated \<longrightarrow> user_id s = vt_user_id ticket"
  shows "\<exists>s'. dm_get (g_sessions (v1_step c (V1Rx ev) v)) (ev_sid ev) = Some s' \<and>
      user_id s' = vt_user_id ticket \<and> auth_state s' = Authenticated \<and> client_addr s' = ev_addr ev \<and>
      lease_expires_at_unix s' = (if vt_lease ticket then Some (vt_exp ticket) else None) \<and>
      last (v_sent (v1_step c (V1Rx ev) v)) = (ev_addr ev, ev_sid ev @ [0xA2, 0])"
  using assms by (rule hello_accepted)

text \<open>
  The last datagram sent on an admitted ping is a pong to the sender that repeats the
  session, the sequence number and the client's time stamp byte for byte and adds the
  relay's clock, and nothing outside the admission tables changes.
\<close>

theorem v1_ping_is_answered:
  assumes "fst (rx_gate v1_ack (vc_rx c) ev v) = Some authenticated" "vc_auth_required c \<longrightarrow> authenticated"
    and "ev_len ev = PING_FRAME_LEN" "ev_frame ev ! SESSION_ID_LEN = PING_FRAME_TYPE"
  shows "v1_rest (v1_step c (V1Rx ev) v) = v1_rest v \<and>
    (\<exists>acks. v_sent (v1_step c (V1Rx ev) v) = v_sent v @ acks @
       [(ev_addr ev, ev_sid ev @ [0xA4] @ drop (SESSION_ID_LEN + 1) (ev_frame ev) @ to_be_bytes 8 (unat (ev_mono_ms ev)))])"
proof -
  let ?g = "snd (rx_gate v1_ack (vc_rx c) ev v)"
  have "SESSION_ID_LEN < PING_FRAME_LEN" by (simp add: PING_FRAME_LEN_def)
  then have "v1_step c (V1Rx ev) v = v1_ping ev ?g"
    using assms by (cases "rx_gate v1_ack (vc_rx c) ev v") (auto simp: v1_rx_def v1_dispatch_def)
  moreover have "pong_reply (ev_frame ev) (ev_mono_ms ev) =
      ev_sid ev @ [0xA4] @ drop (SESSION_ID_LEN + 1) (ev_frame ev) @ to_be_bytes 8 (unat (ev_mono_ms ev))"
    using pong_reply_bytes assms(3) by (simp add: ev_len_def ev_sid_def PONG_FRAME_TYPE_def)
  moreover have "v1_rest ?g = v1_rest v" "sent_to (ev_addr ev) (v_sent v) ?g" by (rule rx_gate_frame)+
  ultimately show ?thesis
    by (auto simp: v1_ping_def relay_send_def count_out_def sent_to_def Let_def v1_rest_def)
qed

lemma cleanup_flows:
  "v_flows (v1_cleanup c now v) = flows_retain now (v_flows v)" "v_tasks (v1_cleanup c now v) = v_tasks v"
proof -
  let ?b = "v\<lparr>v_flows := flows_retain now (v_flows v),
     v_session_flow_keys := keys_retain (flows_retain now (v_flows v)) (g_sessions v) (v_session_flow_keys v)\<rparr>"
  show "v_flows (v1_cleanup c now v) = flows_retain now (v_flows v)" "v_tasks (v1_cleanup c now v) = v_tasks v"
    using v1_rest_fields(1,4) [OF expire_sessions_rest [of "session_idle now" ?b]] by (simp_all add: v1_cleanup_def Let_def)
qed

text \<open>
  C31. An unmarked flow with a running task and without activity for 180 seconds is kept
  by the next cleanup, which marks it with its time; another cleanup less than 30
  seconds later still keeps it with that mark; a cleanup that runs at least 30 seconds
  after the first removes it, and the idle timer then ends its task.
\<close>

theorem v1_idle_flow_is_collected:
  assumes "v1_reach c (v1_init t0 policy budget) v" "dm_get (v_flows v) k = Some f" "fe_marked_for_removal f = None"
    and "fe_last_activity f + duration_secs 180 \<le> t1" "t1 + duration_secs 30 \<le> t2"
    and "dm_get (v_tasks v) (fe_generation f) = Some t" "ft_running t"
    and "u = v1_step c (V1Cleanup t1) v" "w = v1_step c (V1Cleanup t2) u"
  shows "dm_get (v_flows u) k = Some (f\<lparr>fe_marked_for_removal := Some t1\<rparr>) \<and>
    (\<forall>t'. t1 \<le> t' \<and> t' < t1 + duration_secs 30 \<longrightarrow>
       dm_get (v_flows (v1_step c (V1Cleanup t') u)) k = Some (f\<lparr>fe_marked_for_removal := Some t1\<rparr>)) \<and>
    dm_get (v_flows w) k = None \<and>
    dm_get (v_tasks (v1_step c (V1Flow (fe_generation f) FlowIdle) w)) (fe_generation f) = None"
proof -
  let ?f = "f\<lparr>fe_marked_for_removal := Some t1\<rparr>"
  have ok: "v1_ok c v" by (rule v1_reach_ok [OF assms(1) v1_ok_init])
  have "v1_ok c (v1_cleanup c t1 v)" using ok by (rule v1_ok_cleanup)
  then have d: "dm_ok (v_flows v)" "dm_ok (v_flows u)" using ok by (simp_all add: v1_ok_defs flows_ok_def assms(8))
  have "flow_retain t1 f = Some ?f" using assms(3,4) by (simp add: flow_retain_def Let_def SESSION_TIMEOUT_def)
  then have marked: "dm_get (v_flows u) k = Some ?f" using assms(2) d by (simp add: assms(8) cleanup_flows flows_retain_get)
  have "flow_retain t2 ?f = None"
    using le_diff_conv2 [of t1 t2 "duration_secs 30"] assms(5) by (simp add: flow_retain_def Let_def FLOW_GRACE_PERIOD_def)
  then have gone: "dm_get (v_flows w) k = None" using marked d by (simp add: assms(9) cleanup_flows flows_retain_get)
  have "flow_retain t' ?f = Some ?f" if "t1 \<le> t'" "t' < t1 + duration_secs 30" for t'
  proof -
    have "\<not> duration_secs 30 \<le> t' - t1" "\<not> t' - fe_last_activity f < duration_secs 10"
      using that assms(4) unfolding duration_secs_def by linarith+
    then show ?thesis by (simp add: flow_retain_def Let_def FLOW_GRACE_PERIOD_def)
  qed
  then have grace: "dm_get (v_flows (v1_step c (V1Cleanup t') u)) k = Some ?f" if "t1 \<le> t'" "t' < t1 + duration_secs 30" for t'
    using that marked d by (simp add: cleanup_flows flows_retain_get)
  have "ft_flow_key t = k" using ok assms(2,6) by (auto simp: v1_ok_defs tasks_ok_def)
  then have "flow_current (fe_generation f) t w = None" using gone by (simp add: flow_current_def)
  then have "v1_step c (V1Flow (fe_generation f) FlowIdle) w = flow_end (fe_generation f) t w"
    using assms(6,7) by (simp add: assms(8,9) cleanup_flows v1_flow_step_def flow_idle_def)
  then show ?thesis using gone marked grace by (simp add: flow_end_def)
qed

text \<open>
  A keepalive refreshes the activity of a flow but leaves its mark, and cleanup looks at the
  age of the mark before it looks for new activity: a flow marked 30 seconds ago goes away
  however recent its last keepalive is.
\<close>

lemma keepalive_does_not_unmark:
  assumes "dm_ok (v_flows v)" "dm_get (v_session_flow_keys v) (ev_sid ev) = Some [k]" "dm_get (v_flows v) k = Some f"
    and "fe_marked_for_removal f = Some m" "m + duration_secs 30 \<le> now" "ev_later ev \<le> now"
  shows "dm_get (v_flows (v1_cleanup c now (v1_keepalive ev v))) k = None"
  using assms le_diff_conv2 [of m now "duration_secs 30"]
  by (simp add: cleanup_flows v1_keepalive_def refresh_flow_def flows_retain_get flow_retain_def FLOW_GRACE_PERIOD_def)

section \<open>Witnesses\<close>

definition sample_config :: v1_config where
  "sample_config = \<lparr>vc_rx = \<lparr>c_ext = sample_ext, c_auth = sample_auth, c_hash = (\<lambda>_. 7)\<rparr>, vc_tcp_enabled = False,
     vc_tun_udp_enabled = False, vc_tun_present = False, vc_flow_channel_capacity = 8\<rparr>"

definition sample_addr :: sock_addr where
  "sample_addr = SockV4 (Ipv4 203 0 113 5) 40000"

definition sample_event :: "bytes \<Rightarrow> rx_event" where
  "sample_event rest = \<lparr>ev_frame = sample_sid @ rest, ev_addr = sample_addr, ev_now = 5, ev_now_unix = 1010, ev_later = 6,
     ev_mono_ms = 9000, ev_send_ok = True\<rparr>"

definition sample_hello :: rx_event where
  "sample_hello = sample_event ([0xA1, 0, 66] @ bytes_of_str sample_token)"

definition sample_v0 :: v1_state where
  "sample_v0 = v1_init 0 sample_policy sample_budget"

definition sample_v1 :: v1_state where
  "sample_v1 = v1_step sample_config (V1Rx sample_hello) sample_v0"

definition sample_session :: session_entry where
  "sample_session = \<lparr>user_id = ''u1'', auth_state = Authenticated, lease_expires_at_unix = Some 1600,
     client_addr = sample_addr, created_at_unix = 1010, last_activity = 5, last_activity_unix = 1010\<rparr>"

definition sample_w :: v1_state where
  "sample_w = snd (rx_verify v1_ack (vc_rx sample_config) sample_hello (g_count_in (ev_len sample_hello) sample_v0))"

lemma sample_hello_parse:
  "is_auth_hello sample_hello" "ev_sid sample_hello = sample_sid" "ev_addr sample_hello = sample_addr"
  "parse_auth_hello_token (ev_frame sample_hello) (ev_len sample_hello) = Inr sample_token"
  "vc_auth_required sample_config"
  by code_simp+

lemma sample_fields [simp]:
  "c_ext (vc_rx sample_config) = sample_ext" "c_auth (vc_rx sample_config) = sample_auth" "c_hash (vc_rx sample_config) = (\<lambda>_. 7)"
  "ev_now sample_hello = 5" "ev_now_unix sample_hello = 1010"
  "g_pending_auth sample_v0 = replicate 4096 (source_rate_state_new 0)" "g_replay_cache sample_v0 = replay_cache_new"
  "g_sessions sample_v0 = []" "g_source_session_counts sample_v0 = []" "g_source_limiter sample_v0 = source_rate_limiter_new 0"
  by (simp_all add: sample_config_def sample_hello_def sample_event_def sample_v0_def v1_init_def relay.extend_def relay_new_def gate.extend_def gate_new_def
      pending_auth_limiter_new_def)

lemma count_in_fields [simp]:
  "g_pending_auth (g_count_in n g) = g_pending_auth g" "g_replay_cache (g_count_in n g) = g_replay_cache g"
  "g_source_limiter (g_count_in n g) = g_source_limiter g"
  by (simp_all add: g_count_in_def)

lemma sample_source_allowed: "fst (source_rate_state_allow (source_rate_state_new 0) KNewSession 5)"
  by code_simp

lemma sample_verified:
  "rx_verify v1_ack (vc_rx sample_config) sample_hello (g_count_in (ev_len sample_hello) sample_v0) = (Some (Some sample_ticket), sample_w)"
proof -
  have "fst (rx_verify v1_ack (vc_rx sample_config) sample_hello (g_count_in (ev_len sample_hello) sample_v0)) = Some (Some sample_ticket)"
    using sample_hello_parse sample_verify sample_source_allowed
    by (simp add: rx_verify_def g_pending_allow_def pending_auth_limiter_allow_def split_beta Let_def verify_once_eq
        accept_once_def prune_expired_def replay_cache_new_def)
  then show ?thesis by (simp add: sample_w_def prod_eq_iff)
qed

lemma sample_limits:
  defines "ip \<equiv> sock_ip sample_addr"
  defines "l1 \<equiv> source_rate_limiter_allow (source_rate_limiter_new 0) ip KPacket 5"
  defines "l2 \<equiv> source_rate_limiter_allow (snd l1) ip KNewSession 5"
  shows "fst l1" "fst l2" "fst (source_rate_limiter_allow (snd l2) ip KNewFlow 5)"
  unfolding ip_def l1_def l2_def by code_simp+

lemma sample_admitted:
  assumes "g_sessions w = []" "g_source_session_counts w = []" "g_source_limiter w = source_rate_limiter_new 0"
    and "ev_addr ev = sample_addr" "ev_now ev = 5"
  shows "fst (rx_admit ev w)"
    "fst (source_rate_limiter_allow (g_source_limiter (snd (rx_admit ev w))) (sock_ip sample_addr) KNewFlow 5)"
  using assms sample_limits
  by (simp_all add: rx_admit_def g_allow_source_event_def allow_source_event_def v1_session_capacity_available_def
      split_beta Let_def dm_contains_get dm_len_def source_session_count_def MAX_SESSIONS_TOTAL_def MAX_SESSIONS_PER_SRC_IP_def)

lemma sample_w_fields:
  "g_sessions sample_w = []" "g_source_session_counts sample_w = []" "g_source_limiter sample_w = source_rate_limiter_new 0"
  using sample_hello_parse sample_verify sample_source_allowed
  by (simp_all add: sample_w_def rx_verify_def g_pending_allow_def pending_auth_limiter_allow_def split_beta Let_def verify_once_eq
        accept_once_def prune_expired_def replay_cache_new_def)

theorem v1_valid_hello_is_accepted_witness:
  "\<exists>s'. dm_get (g_sessions sample_v1) sample_sid = Some s' \<and> user_id s' = ''u1'' \<and> auth_state s' = Authenticated \<and>
     client_addr s' = sample_addr \<and> lease_expires_at_unix s' = Some 1600 \<and> last (v_sent sample_v1) = (sample_addr, sample_sid @ [0xA2, 0])"
  using v1_valid_hello_is_accepted [OF sample_hello_parse(1,5) sample_verified sample_admitted(1) [OF sample_w_fields]]
    sample_hello_parse(2,3)
  by (simp add: sample_v1_def sample_ticket_def)

lemma sample_v1_session:
  obtains s where "dm_get (g_sessions sample_v1) sample_sid = Some s" "auth_state s = Authenticated" "user_id s = ''u1''"
    "client_addr s = sample_addr" "lease_expires_at_unix s = Some 1600"
  using hello_accepted [OF sample_hello_parse(1,5) sample_verified sample_admitted(1) [OF sample_w_fields]] sample_hello_parse(2,3)
  by (auto simp: sample_v1_def sample_ticket_def)

lemma sample_v1_reach: "v1_reach sample_config (v1_init 0 sample_policy sample_budget) sample_v1"
  unfolding sample_v1_def sample_v0_def by (rule v1_next [OF v1_start])

theorem v1_session_keeps_owner_witness:
  "\<exists>s'. dm_get (g_sessions (v1_step sample_config (V1Rx (sample_event [1, 2, 3])) sample_v1)) sample_sid = Some s' \<and>
     auth_state s' = Authenticated \<and> user_id s' = ''u1''"
proof -
  obtain s where s: "dm_get (g_sessions sample_v1) sample_sid = Some s" "auth_state s = Authenticated" "user_id s = ''u1''"
    by (rule sample_v1_session)
  show ?thesis
    using v1_session_keeps_owner [OF sample_v1_reach sample_hello_parse(5) s(1,2), of "V1Rx (sample_event [1, 2, 3])"] s(3) by auto
qed

theorem v1_payload_needs_owner_witness:
  "v1_rest (v1_step sample_config (V1Rx (sample_event [1, 2, 3])) sample_v0) = v1_rest sample_v0"
  using v1_payload_needs_owner [OF sample_hello_parse(5), of sample_v0 "sample_event [1, 2, 3]"] by simp

text \<open>A relay with authentication off that carries one packet to a game server.\<close>

definition sample_open :: v1_config where
  "sample_open = \<lparr>vc_rx = \<lparr>c_ext = sample_ext, c_auth = \<lparr>ac_mode = AuthOff, ac_public_key = None, ac_server_id = None\<rparr>, c_hash = (\<lambda>_. 7)\<rparr>,
     vc_tcp_enabled = False, vc_tun_udp_enabled = False, vc_tun_present = False, vc_flow_channel_capacity = 8\<rparr>"

definition sample_udp :: rx_event where
  "sample_udp = sample_event (response_bytes [1, 2, 3] sample_info 7)"

definition sample_game :: sock_addr where
  "sample_game = SockV4 (Ipv4 9 0 0 2) 5000"

definition sample_v2 :: v1_state where
  "sample_v2 = v1_step sample_open (V1Rx sample_udp) sample_v0"

definition sample_v3 :: v1_state where
  "sample_v3 = v1_step sample_open (V1Flow 0 (FlowStart True True)) sample_v2"

definition sample_v4 :: v1_state where
  "sample_v4 = v1_step sample_open (V1Flow 0 (FlowDeliver None)) sample_v3"

definition sample_flow :: flow_entry where
  "sample_flow = \<lparr>fe_generation = 0, fe_client_addr = sample_addr, fe_last_activity = 6,
     fe_original_info = swap_info sample_info 7, fe_marked_for_removal = None\<rparr>"

definition sample_task :: flow_task where
  "sample_task = \<lparr>ft_flow_key = flow_key sample_sid sample_game, ft_game_addr = sample_game, ft_session_id = sample_sid,
     ft_queue = [[1, 2, 3]], ft_running = False, ft_recv_errors = 0, ft_send_errors = 0\<rparr>"

lemma sample_udp_fields:
  "ev_sid sample_udp = sample_sid" "ev_addr sample_udp = sample_addr" "ev_now sample_udp = 5" "ev_later sample_udp = 6"
  "ev_now_unix sample_udp = 1010" "ev_len sample_udp = 39" "\<not> is_auth_hello sample_udp"
  "drop SESSION_ID_LEN (ev_frame sample_udp) = response_bytes [1, 2, 3] sample_info 7" "ev_frame sample_udp ! SESSION_ID_LEN = 0x45"
proof -
  have sid: "length sample_sid = SESSION_ID_LEN" by (simp add: sample_sid_def SESSION_ID_LEN_def)
  have first: "response_bytes [1, 2, 3] sample_info 7 ! 0 = 0x45" by (simp add: response_bytes_def ip_fields_def Let_def)
  then show "ev_frame sample_udp ! SESSION_ID_LEN = 0x45" using sid
    by (simp add: sample_udp_def sample_event_def nth_append)
  then show "\<not> is_auth_hello sample_udp" by (simp add: is_auth_hello_def AUTH_HELLO_FRAME_TYPE_def)
  show "ev_len sample_udp = 39"
    using length_response [of "[1, 2, 3]" sample_info 7] sid by (simp add: sample_udp_def sample_event_def ev_len_def SESSION_ID_LEN_def)
qed (simp_all add: sample_udp_def sample_event_def ev_sid_def sample_sid_def SESSION_ID_LEN_def)

lemma sample_parse:
  "parse_ip_packet_full sample_policy (response_bytes [1, 2, 3] sample_info 7) =
    (Some (PUdp sample_game [1, 2, 3] (swap_info sample_info 7) (response_bytes [1, 2, 3] sample_info 7)), sample_policy)"
proof -
  have "sample_game = SockV4 (oi_src_ip sample_info) (oi_src_port sample_info)" by (simp add: sample_game_def sample_info_def)
  then show ?thesis
    using parse_response [of "[1, 2, 3]" sample_info sample_policy sample_policy 7] sample_info_allowed sample_policy_permits by simp
qed

lemma sample_open_gate:
  fixes v :: "'a gate_scheme"
  assumes "\<not> is_auth_hello (sample_event rest)"
    and tables: "g_sessions v = []" "g_source_session_counts v = []" "g_source_limiter v = source_rate_limiter_new 0"
  obtains g :: "'a gate_scheme" where "rx_gate ack (vc_rx sample_open) (sample_event rest) v = (Some False, g)"
    "gate.more g = gate.more v"
    "fst (source_rate_limiter_allow (g_source_limiter g) (sock_ip sample_addr) KNewFlow 5)"
    "\<exists>s. dm_get (g_sessions g) sample_sid = Some s \<and> auth_state s = Legacy \<and> lease_expires_at_unix s = None"
proof -
  let ?ev = "sample_event rest"
  let ?n = "ev_len ?ev"
  have ev: "ev_sid ?ev = sample_sid" "ev_addr ?ev = sample_addr" "ev_now ?ev = 5" "ev_now_unix ?ev = 1010" "\<not> ?n < SESSION_ID_LEN"
    by (simp_all add: sample_event_def ev_sid_def ev_len_def sample_sid_def SESSION_ID_LEN_def)
  let ?w = "g_count_in ?n v"
  let ?a = "snd (rx_admit ?ev ?w)"
  let ?h = "snd (rx_touch_session (vc_rx sample_open) ?ev ?a)"
  let ?g = "?h\<lparr>g_session_traffic := record_session_ingress (g_session_traffic ?h) sample_sid 1010 ?n\<rparr>"
  have adm: "fst (rx_admit ?ev ?w)" "fst (source_rate_limiter_allow (g_source_limiter ?a) (sock_ip sample_addr) KNewFlow 5)"
    using sample_admitted [of ?w ?ev] ev tables by simp_all
  have off: "\<not> requires_auth (ac_mode (c_auth (vc_rx sample_open)))" by (simp add: sample_open_def requires_auth_def)
  have new: "dm_get (g_sessions ?a) sample_sid = None" using tables by simp
  have 1: "rx_gate ack (vc_rx sample_open) ?ev v = (Some False, ?g)"
    using adm(1) off new ev assms(1)
    by (simp add: rx_gate_def rx_verify_def rx_auth_check_def split_beta Let_def touch_session_fst)
  have "g_source_limiter ?g = g_source_limiter ?a"
    by (simp add: rx_touch_session_def Let_def split: option.split)
  then have 2: "fst (source_rate_limiter_allow (g_source_limiter ?g) (sock_ip sample_addr) KNewFlow 5)" using adm(2) by simp
  have "\<exists>s. dm_get (g_sessions ?g) sample_sid = Some s \<and> auth_state s = Legacy \<and> lease_expires_at_unix s = None"
    using new ev by (simp add: touch_session_get touched_def)
  moreover have "gate.more ?g = gate.more v"
    by (simp add: rx_touch_session_def rx_admit_def g_allow_source_event_def g_count_in_def split_beta Let_def split: option.split)
  ultimately show thesis using that [OF 1 _ 2] by blast
qed

lemma sample_v0_fields:
  "v_flows sample_v0 = []" "v_session_flow_keys sample_v0 = []" "v_next_generation sample_v0 = 0" "v_tasks sample_v0 = []"
  "v_policy sample_v0 = sample_policy" "v_upstream sample_v0 = []"
  by (simp_all add: sample_v0_def v1_init_def relay.extend_def relay_new_def gate.extend_def gate_new_def)

lemma sample_v2_flow:
  "v_flows sample_v2 = [(flow_key sample_sid sample_game, sample_flow)]" "v_tasks sample_v2 = [(0, sample_task)]"
  "v_upstream sample_v2 = []"
proof -
  obtain g s where g: "rx_gate v1_ack (vc_rx sample_open) sample_udp sample_v0 = (Some False, g)"
    "fst (source_rate_limiter_allow (g_source_limiter g) (sock_ip sample_addr) KNewFlow 5)"
    "dm_get (g_sessions g) sample_sid = Some s" "auth_state s = Legacy"
    using sample_open_gate [of _ sample_v0 v1_ack] sample_udp_fields(7) sample_fields(8-10) unfolding sample_udp_def by metis
  have "v1_rest g = v1_rest sample_v0" using rx_gate_frame(1) [of "vc_rx sample_open" sample_udp sample_v0] g(1) by simp
  note f = v1_rest_fields [OF this] sample_v0_fields
  have same: "g\<lparr>v_policy := sample_policy, v_budgets := v_budgets sample_v0\<rparr> = g"
    using f(7,8) sample_v0_fields(5) by (cases g) simp
  have off: "\<not> vc_auth_required sample_open" "\<not> vc_tun_udp_enabled sample_open" "vc_flow_channel_capacity sample_open = 8"
    by (simp_all add: sample_open_def requires_auth_def)
  have "sample_v2 = v1_payload sample_open sample_udp g"
    using g(1) off sample_udp_fields
    by (simp add: sample_v2_def v1_rx_def v1_dispatch_def Let_def PING_FRAME_LEN_def PONG_FRAME_LEN_def RTT_REPORT_FRAME_LEN_def
        RESOLVE_REQUEST_FRAME_TYPE_def SESSION_ID_LEN_def)
  also have "\<dots> = v1_udp sample_open sample_udp sample_game [1, 2, 3] (swap_info sample_info 7) g"
    using g(3,4) off sample_udp_fields
    by (simp add: v1_payload_def f sample_parse account_budget_allow_def same SESSION_ID_LEN_def IP_HEADER_MIN_def)
  finally have u: "sample_v2 = \<dots>" .
  let ?u = "set_user sample_sid (oi_src_ip (swap_info sample_info 7)) g"
  have lim: "g_source_limiter ?u = g_source_limiter g" "v_upstream ?u = v_upstream g" "v_next_generation ?u = v_next_generation g"
    by (simp_all add: set_user_def split: option.split)
  show "v_flows sample_v2 = [(flow_key sample_sid sample_game, sample_flow)]" "v_tasks sample_v2 = [(0, sample_task)]"
    "v_upstream sample_v2 = []"
    using g(2) off sample_udp_fields lim unfolding u
    by (simp_all add: v1_udp_def v1_flow_admit_def v1_flow_capacity_available_def g_allow_source_event_def allow_source_event_def
        v1_flow_entry_def v1_new_flow_def split_beta Let_def f dm_contains_get dm_len_def indexed_session_flow_count_def
        MAX_FLOWS_TOTAL_def MAX_FLOWS_PER_SESSION_def dm_insert_def sample_flow_def sample_task_def)
qed

lemma sample_v3_flow:
  "v_flows sample_v3 = [(flow_key sample_sid sample_game, sample_flow)]" "v_tasks sample_v3 = [(0, sample_task\<lparr>ft_running := True\<rparr>)]"
  "v_upstream sample_v3 = []"
proof -
  have "\<not> is_forbidden_dst (Ipv4 9 0 0 2)" "\<not> is_forbidden_dst_port 5000" by code_simp+
  then show "v_flows sample_v3 = [(flow_key sample_sid sample_game, sample_flow)]"
    "v_tasks sample_v3 = [(0, sample_task\<lparr>ft_running := True\<rparr>)]" "v_upstream sample_v3 = []"
    by (simp_all add: sample_v3_def v1_flow_step_def sample_v2_flow dm_get_def sample_task_def flow_start_def Let_def flow_put_def
        dm_insert_def sample_game_def)
qed

lemma sample_v4_upstream: "v_upstream sample_v4 = [(sample_game, [1, 2, 3])]"
  by (simp add: sample_v4_def v1_flow_step_def sample_v3_flow dm_get_def sample_task_def flow_deliver_def Let_def flow_put_def)

lemma sample_reach:
  "v1_reach sample_open (v1_init 0 sample_policy sample_budget) sample_v3" "v1_reach sample_open (v1_init 0 sample_policy sample_budget) sample_v4"
  unfolding sample_v4_def sample_v3_def sample_v2_def sample_v0_def by (intro v1_next v1_start)+

theorem v1_tables_bounded_witness: "dm_len (v_flows sample_v4) \<le> 262144 \<and> dm_len (g_sessions sample_v4) \<le> 65536"
  using v1_tables_bounded [OF sample_reach(2), of sample_sid "sock_ip sample_addr"] by simp

theorem v1_never_sends_to_forbidden_witness:
  "v_upstream sample_v4 = [(sample_game, [1, 2, 3])] \<and> (\<exists>ip port. sample_game = SockV4 ip port \<and> \<not> is_forbidden_dst ip)"
  using v1_never_sends_to_forbidden [OF sample_reach(2)] sample_v4_upstream by auto

theorem v1_task_touches_only_its_generation_witness:
  "dm_get (v_flows (v1_step sample_open (V1Flow 1 FlowIdle) sample_v3)) (flow_key sample_sid sample_game) = Some sample_flow"
  by (rule v1_task_touches_only_its_generation) (simp_all add: sample_v3_flow dm_get_def sample_flow_def)

theorem v1_idle_flow_is_collected_witness:
  "let u = v1_step sample_open (V1Cleanup (duration_secs 200)) sample_v3; w = v1_step sample_open (V1Cleanup (duration_secs 300)) u
   in dm_get (v_flows u) (flow_key sample_sid sample_game) = Some (sample_flow\<lparr>fe_marked_for_removal := Some (duration_secs 200)\<rparr>) \<and>
      dm_get (v_flows w) (flow_key sample_sid sample_game) = None"
  using v1_idle_flow_is_collected [OF sample_reach(1), of "flow_key sample_sid sample_game" sample_flow "duration_secs 200"
      "duration_secs 300" "sample_task\<lparr>ft_running := True\<rparr>", OF _ _ _ _ _ _ refl refl]
  by (simp add: sample_v3_flow dm_get_def sample_flow_def duration_secs_def)

theorem v1_flow_gives_up_witness:
  "dm_get (v_tasks (v1_step sample_open (V1Flow 0 (FlowReceive (Inl OtherKind) 9 9))
     (sample_v3\<lparr>v_tasks := [(0, sample_task\<lparr>ft_running := True, ft_recv_errors := 4\<rparr>)]\<rparr>))) 0 = None"
  using v1_flow_gives_up [of "sample_v3\<lparr>v_tasks := [(0, sample_task\<lparr>ft_running := True, ft_recv_errors := 4\<rparr>)]\<rparr>" 0
      "sample_task\<lparr>ft_running := True, ft_recv_errors := 4\<rparr>" "FlowReceive (Inl OtherKind) 9 9" OtherKind 9 9 sample_open]
  by (simp add: dm_get_def)

theorem v1_responses_go_to_current_endpoint_witness:
  "let v = sample_v1\<lparr>v_response_queue := [(sample_game, sample_sid, sample_sid @ [9])]\<rparr>;
       v' = v1_step sample_config (V1Response 1700 1700 0 True) v
   in v_sent v' = v_sent v"
proof -
  let ?v = "sample_v1\<lparr>v_response_queue := [(sample_game, sample_sid, sample_sid @ [9])]\<rparr>"
  obtain s where s: "dm_get (g_sessions sample_v1) sample_sid = Some s" "lease_expires_at_unix s = Some 1600"
    by (rule sample_v1_session)
  show ?thesis
    using v1_responses_go_to_current_endpoint [of "V1Response 1700 1700 0 True" 1700 1700 0 True ?v sample_game sample_sid
        "sample_sid @ [9]" "[]" undefined undefined sample_config] s
    by (auto simp: Let_def)
qed

definition sample_ping :: rx_event where
  "sample_ping = sample_event [0xA3, 0, 0, 0, 1, 0, 0, 0, 0, 0, 0, 0, 2]"

theorem v1_ping_is_answered_witness:
  "\<exists>acks. v_sent (v1_step sample_open (V1Rx sample_ping) sample_v0) = v_sent sample_v0 @ acks @
     [(sample_addr, sample_sid @ [0xA4] @ [0, 0, 0, 1, 0, 0, 0, 0, 0, 0, 0, 2] @ to_be_bytes 8 9000)]"
proof -
  have p: "\<not> is_auth_hello sample_ping" "ev_len sample_ping = PING_FRAME_LEN" "ev_frame sample_ping ! SESSION_ID_LEN = PING_FRAME_TYPE"
    "ev_sid sample_ping = sample_sid" "drop (SESSION_ID_LEN + 1) (ev_frame sample_ping) = [0, 0, 0, 1, 0, 0, 0, 0, 0, 0, 0, 2]"
    "unat (ev_mono_ms sample_ping) = 9000" "ev_addr sample_ping = sample_addr" "\<not> vc_auth_required sample_open"
    by code_simp+
  have "fst (rx_gate v1_ack (vc_rx sample_open) sample_ping sample_v0) = Some False"
    using sample_open_gate [of _ sample_v0 v1_ack] p(1) sample_fields(8-10) unfolding sample_ping_def by (metis fst_conv)
  from v1_ping_is_answered [OF this _ p(2,3)] show ?thesis using p by simp
qed

end
