(* ===== verification/Shard.thy ===== *)
theory Shard
  imports Relay_Core "HOL-Library.Multiset"
begin

text \<open>
  The tables of one shard of the second datapath (\<^verbatim>\<open>run_shard\<close> in
  \<^verbatim>\<open>src/src/datapath_v2.rs\<close>): the flows, the poll tokens of their sockets, the index of the
  flows of a session, and the operations on them: allocation of a token, insertion, refresh,
  removal of a flow or of a session, and the periodic cleanup.  The invariant \<open>tables_ok\<close> says
  that tokens and flows correspond one to one and that the index lists exactly the flows.
\<close>

section \<open>Definitions\<close>

definition CLEANUP_INTERVAL :: nat where
  "CLEANUP_INTERVAL = duration_secs 30"

type_synonym flow_id = "session_id \<times> sock_addr"

record flow_state =
  fs_client_addr :: sock_addr
  fs_original_info :: original_packet_info
  fs_last_activity :: instant
  fs_marked_for_removal :: "instant option"
  fs_token :: u64

datatype shard_msg =
    ClientPacket session_id sock_addr sock_addr original_packet_info nat nat instant
  | Keepalive session_id sock_addr
  | RemoveSession session_id

record shard =
  sh_next_token :: u64
  sh_token_to_flow :: "(u64, flow_id) dmap"
  sh_flows :: "(flow_id, flow_state) dmap"
  sh_session_flows :: "(session_id, sock_addr list) dmap"
  sh_inbox :: "shard_msg list"
  sh_cleanup_at :: instant

definition shard_new :: "instant \<Rightarrow> shard" where
  "shard_new now = \<lparr>sh_next_token = 1, sh_token_to_flow = [], sh_flows = [], sh_session_flows = [], sh_inbox = [],
     sh_cleanup_at = now + CLEANUP_INTERVAL\<rparr>"

definition shard_for_session :: "session_id \<Rightarrow> nat \<Rightarrow> nat" where
  "shard_for_session session_id shard_count =
     (let sid = of_nat (from_be_bytes session_id) :: u64;
          sid = sid XOR drop_bit 33 sid;
          sid = sid * 0xff51afd7ed558ccd;
          sid = sid XOR drop_bit 33 sid;
          sid = sid * 0xc4ceb9fe1a85ec53;
          sid = sid XOR drop_bit 33 sid
      in unat sid mod shard_count)"

subsection \<open>The index of a session\<close>

text \<open>\<^verbatim>\<open>position\<close> and \<^verbatim>\<open>swap_remove\<close> of a vector.\<close>

fun position :: "('a \<Rightarrow> bool) \<Rightarrow> 'a list \<Rightarrow> nat option" where
  "position p [] = None"
| "position p (x # xs) = (if p x then Some 0 else map_option Suc (position p xs))"

definition swap_remove :: "nat \<Rightarrow> 'a list \<Rightarrow> 'a list" where
  "swap_remove i xs = butlast (xs[i := last xs])"

definition remove_flow_from_session_index ::
  "flow_id \<Rightarrow> (session_id, sock_addr list) dmap \<Rightarrow> (session_id, sock_addr list) dmap" where
  "remove_flow_from_session_index flow session_flows =
     (case dm_get session_flows (fst flow) of
        None \<Rightarrow> session_flows
      | Some list \<Rightarrow>
          let list = (case position (\<lambda>addr. addr = snd flow) list of None \<Rightarrow> list | Some pos \<Rightarrow> swap_remove pos list)
          in if list = [] then dm_remove (fst flow) session_flows else dm_insert (fst flow) list session_flows)"

subsection \<open>Tokens\<close>

text \<open>
  The search for a free token may in principle run for ever, so it is a partial function;
  \<^term>\<open>None\<close> means that it does not return.  Token 0 belongs to the waker.
\<close>

definition advance_token :: "u64 \<Rightarrow> u64" where
  "advance_token t = (if t + 1 = 0 then 1 else t + 1)"

partial_function (option) allocate_loop :: "u64 \<Rightarrow> u64 \<Rightarrow> (u64, flow_id) dmap \<Rightarrow> (u64 option \<times> u64) option" where
  "allocate_loop start next_token token_to_flow =
     (let token = next_token; next_token = advance_token next_token in
      if token = 0 \<or> dm_contains token_to_flow token then
        (if next_token = start then Some (None, next_token) else allocate_loop start next_token token_to_flow)
      else Some (Some token, next_token))"

declare allocate_loop.simps [code]

definition allocate_flow_token :: "u64 \<Rightarrow> (u64, flow_id) dmap \<Rightarrow> (u64 option \<times> u64) option" where
  "allocate_flow_token next_token token_to_flow =
     (let next_token = (if next_token = 0 then 1 else next_token)
      in allocate_loop next_token next_token token_to_flow)"

subsection \<open>Flows\<close>

definition insert_flow :: "flow_id \<Rightarrow> flow_state \<Rightarrow> shard \<Rightarrow> shard" where
  "insert_flow key flow sh =
     sh\<lparr>sh_token_to_flow := dm_insert (fs_token flow) key (sh_token_to_flow sh),
        sh_session_flows := dm_insert (fst key)
          ((case dm_get (sh_session_flows sh) (fst key) of None \<Rightarrow> [] | Some list \<Rightarrow> list) @ [snd key]) (sh_session_flows sh),
        sh_flows := dm_insert key flow (sh_flows sh)\<rparr>"

definition put_flow :: "flow_id \<Rightarrow> flow_state \<Rightarrow> shard \<Rightarrow> shard" where
  "put_flow key flow sh = sh\<lparr>sh_flows := dm_insert key flow (sh_flows sh)\<rparr>"

definition keepalive_flow :: "session_id \<Rightarrow> sock_addr \<Rightarrow> instant \<Rightarrow> sock_addr \<Rightarrow> shard \<Rightarrow> shard" where
  "keepalive_flow sid client now addr sh =
     (case dm_get (sh_flows sh) (sid, addr) of
        None \<Rightarrow> sh
      | Some flow \<Rightarrow> put_flow (sid, addr)
          (flow\<lparr>fs_client_addr := client, fs_last_activity := now, fs_marked_for_removal := None\<rparr>) sh)"

definition shard_keepalive :: "session_id \<Rightarrow> sock_addr \<Rightarrow> instant \<Rightarrow> shard \<Rightarrow> shard" where
  "shard_keepalive sid client now sh =
     (case dm_get (sh_session_flows sh) sid of
        None \<Rightarrow> sh
      | Some flow_list \<Rightarrow> fold (keepalive_flow sid client now) flow_list sh)"

definition remove_flow :: "flow_id \<Rightarrow> shard \<Rightarrow> shard" where
  "remove_flow key sh =
     (case dm_get (sh_flows sh) key of
        None \<Rightarrow> sh
      | Some flow \<Rightarrow> sh\<lparr>sh_flows := dm_remove key (sh_flows sh),
                       sh_token_to_flow := dm_remove (fs_token flow) (sh_token_to_flow sh)\<rparr>)"

definition shard_remove_session :: "session_id \<Rightarrow> shard \<Rightarrow> shard" where
  "shard_remove_session sid sh =
     (case dm_get (sh_session_flows sh) sid of
        None \<Rightarrow> sh
      | Some flow_list \<Rightarrow>
          fold (\<lambda>addr. remove_flow (sid, addr)) flow_list (sh\<lparr>sh_session_flows := dm_remove sid (sh_session_flows sh)\<rparr>))"

subsection \<open>Cleanup\<close>

text \<open>The verdict of \<^verbatim>\<open>retain\<close> on one flow; \<^term>\<open>None\<close> removes it.\<close>

definition shard_flow_verdict :: "instant \<Rightarrow> flow_state \<Rightarrow> flow_state option" where
  "shard_flow_verdict now flow =
     (let idle_time = now - fs_last_activity flow in
      case fs_marked_for_removal flow of
        Some marked_at \<Rightarrow>
          if now - marked_at \<ge> FLOW_GRACE_PERIOD then None
          else if idle_time < duration_secs 10 then Some (flow\<lparr>fs_marked_for_removal := None\<rparr>)
          else Some flow
      | None \<Rightarrow>
          if idle_time \<ge> SESSION_TIMEOUT then Some (flow\<lparr>fs_marked_for_removal := Some now\<rparr>) else Some flow)"

definition retain_flow :: "instant \<Rightarrow> flow_id \<Rightarrow> shard \<Rightarrow> shard" where
  "retain_flow now key sh =
     (case dm_get (sh_flows sh) key of
        None \<Rightarrow> sh
      | Some flow \<Rightarrow>
          (case shard_flow_verdict now flow of
             Some flow \<Rightarrow> put_flow key flow sh
           | None \<Rightarrow>
               let sh = remove_flow key sh
               in sh\<lparr>sh_session_flows := remove_flow_from_session_index key (sh_session_flows sh)\<rparr>))"

definition shard_retain :: "instant \<Rightarrow> shard \<Rightarrow> shard" where
  "shard_retain now sh = fold (retain_flow now) (map fst (sh_flows sh)) sh"

section \<open>The shard of a session\<close>

lemma shard_for_session_less: "0 < n \<Longrightarrow> shard_for_session sid n < n"
  by (simp add: shard_for_session_def Let_def)

section \<open>Tokens are fresh\<close>

lemma advance_token_nat: "unat (advance_token t) = (if unat t = u64_max then 1 else unat t + 1)"
proof (cases "t + 1 = 0")
  case True
  have "unat (- 1 :: u64) = u64_max" by code_simp
  moreover have "t = - 1" using True by (simp add: eq_neg_iff_add_eq_0)
  ultimately show ?thesis using True by (simp add: advance_token_def)
next
  case False
  then have "unat (t + 1) = unat t + 1" using unatSuc [of t] by (simp add: add.commute)
  moreover have "unat (t + 1) < 2 ^ 64" using unsigned_less [of "t + 1"] by simp
  ultimately show ?thesis using False by (simp add: advance_token_def u64_max_def)
qed

text \<open>The tokens the search still has to try, and their number.\<close>

definition to_visit :: "u64 \<Rightarrow> u64 \<Rightarrow> u64 set" where
  "to_visit start nxt =
     (if unat nxt < unat start then {t. unat nxt \<le> unat t \<and> unat t < unat start}
      else {t. unat nxt \<le> unat t \<or> 1 \<le> unat t \<and> unat t < unat start})"

definition visits_left :: "u64 \<Rightarrow> u64 \<Rightarrow> nat" where
  "visits_left start nxt =
     (if unat nxt < unat start then unat start - unat nxt else u64_max - unat nxt + unat start)"

lemma unat_u64_max: "unat (t :: u64) \<le> u64_max"
proof -
  have "(unsigned t :: nat) < 2 ^ LENGTH(64)" by (rule unsigned_less)
  then show ?thesis by (simp add: u64_max_def)
qed

lemma visit_step:
  assumes "start \<noteq> 0" "nxt \<noteq> 0"
  shows "advance_token nxt = start \<Longrightarrow> to_visit start nxt = {nxt}"
    and "advance_token nxt \<noteq> start \<Longrightarrow> to_visit start nxt = insert nxt (to_visit start (advance_token nxt))"
    and "advance_token nxt \<noteq> start \<Longrightarrow> visits_left start (advance_token nxt) < visits_left start nxt"
proof -
  have pos: "1 \<le> unat start" "1 \<le> unat nxt" using assms by (simp_all add: Suc_le_eq unat_gt_0)
  note bounds = unat_u64_max [of start] unat_u64_max [of nxt]
  have eq: "x = y \<longleftrightarrow> unat x = unat y" for x y :: u64 by (rule word_unat_eq_iff)
  note facts = pos bounds advance_token_nat [of nxt]
  show "advance_token nxt = start \<Longrightarrow> to_visit start nxt = {nxt}"
  proof (rule set_eqI)
    fix x :: u64
    assume "advance_token nxt = start"
    then show "x \<in> to_visit start nxt \<longleftrightarrow> x \<in> {nxt}"
      using facts unat_u64_max [of x] unfolding to_visit_def singleton_iff eq [of _ nxt] eq [of "advance_token nxt" start]
      by (auto split: if_splits)
  qed
  show "advance_token nxt \<noteq> start \<Longrightarrow> to_visit start nxt = insert nxt (to_visit start (advance_token nxt))"
  proof (rule set_eqI)
    fix x :: u64
    assume "advance_token nxt \<noteq> start"
    then show "x \<in> to_visit start nxt \<longleftrightarrow> x \<in> insert nxt (to_visit start (advance_token nxt))"
      using facts unat_u64_max [of x] unfolding to_visit_def insert_iff eq [of _ nxt] eq [of "advance_token nxt" start]
      by (auto split: if_splits)
  qed
  show "advance_token nxt \<noteq> start \<Longrightarrow> visits_left start (advance_token nxt) < visits_left start nxt"
    using facts unfolding visits_left_def eq [of "advance_token nxt" start] by (auto split: if_splits)
qed

lemma allocate_loop_spec:
  assumes "start \<noteq> 0" "nxt \<noteq> 0"
  shows "\<exists>r nt. allocate_loop start nxt m = Some (r, nt) \<and> nt \<noteq> 0 \<and>
    (case r of Some t \<Rightarrow> t \<noteq> 0 \<and> dm_get m t = None | None \<Rightarrow> \<forall>t \<in> to_visit start nxt. dm_get m t \<noteq> None)"
  using assms(2)
proof (induction "visits_left start nxt" arbitrary: nxt rule: less_induct)
  case less
  let ?n = "advance_token nxt"
  have n: "?n \<noteq> 0" by (simp add: advance_token_def)
  show ?case
  proof (cases "dm_contains m nxt \<and> ?n \<noteq> start")
    case True
    have "allocate_loop start nxt m = allocate_loop start ?n m"
      using True by (subst allocate_loop.simps) (simp add: Let_def)
    moreover obtain r nt where r: "allocate_loop start ?n m = Some (r, nt)" "nt \<noteq> 0"
      "case r of Some t \<Rightarrow> t \<noteq> 0 \<and> dm_get m t = None | None \<Rightarrow> \<forall>t \<in> to_visit start ?n. dm_get m t \<noteq> None"
      using less(1) [OF visit_step(3) [OF assms(1) less(2)] n] True by blast
    ultimately show ?thesis
      using True visit_step(2) [OF assms(1) less(2)] by (auto simp: dm_contains_get split: option.splits)
  next
    case False
    then show ?thesis
      using less(2) n visit_step(1) [OF assms(1) less(2)]
      by (subst allocate_loop.simps) (cases "dm_get m nxt"; simp add: Let_def dm_contains_get)
  qed
qed

lemma allocate_flow_token_spec:
  "\<exists>r nt. allocate_flow_token nxt m = Some (r, nt) \<and> nt \<noteq> 0 \<and>
    (case r of Some t \<Rightarrow> t \<noteq> 0 \<and> dm_get m t = None | None \<Rightarrow> \<forall>t. t \<noteq> 0 \<longrightarrow> dm_get m t \<noteq> None)"
proof -
  define s :: u64 where "s = (if nxt = 0 then 1 else nxt)"
  have s: "s \<noteq> 0" by (simp add: s_def)
  have "t \<in> to_visit s s" if "t \<noteq> 0" for t
    using that by (auto simp: to_visit_def Suc_le_eq unat_gt_0)
  moreover obtain r nt where r: "allocate_loop s s m = Some (r, nt)" "nt \<noteq> 0"
    "case r of Some t \<Rightarrow> t \<noteq> 0 \<and> dm_get m t = None | None \<Rightarrow> \<forall>t \<in> to_visit s s. dm_get m t \<noteq> None"
    using allocate_loop_spec [OF s s, of m] by blast
  ultimately have "case r of Some t \<Rightarrow> t \<noteq> 0 \<and> dm_get m t = None | None \<Rightarrow> \<forall>t. t \<noteq> 0 \<longrightarrow> dm_get m t \<noteq> None"
    by (cases r) simp_all
  moreover have "allocate_flow_token nxt m = Some (r, nt)"
    using r(1) by (simp add: allocate_flow_token_def s_def)
  ultimately show ?thesis using r(2) by blast
qed

lemma tokens_left:
  assumes "dm_ok m" "dm_len m < u64_max"
  shows "\<exists>t :: u64. t \<noteq> 0 \<and> dm_get m t = None"
proof (rule ccontr)
  assume "\<not> ?thesis"
  then have "UNIV - {0} \<subseteq> dom (dm_get m)" by auto
  then have "card (UNIV - {0 :: u64}) \<le> dm_len m"
    unfolding dm.entries_card [OF assms(1)] by (rule card_mono [OF dm.finite_keys [OF assms(1)]])
  moreover have "card (UNIV - {0 :: u64}) = u64_max" by (simp add: card_word u64_max_def)
  ultimately show False using assms(2) by simp
qed

text \<open>
  C17. The search for a poll token always returns; what it returns is a non-zero token
  no flow uses, and it finds one whenever fewer than 2^64 - 1 tokens are taken, wrap-
  around of the counter included.
\<close>

theorem flow_token_is_fresh:
  "(\<exists>r nt. allocate_flow_token nxt m = Some (r, nt) \<and> nt \<noteq> 0 \<and> (\<forall>t. r = Some t \<longrightarrow> t \<noteq> 0 \<and> dm_get m t = None)) \<and>
   (dm_ok m \<and> dm_len m < 2 ^ 64 - 1 \<longrightarrow> (\<exists>t nt. allocate_flow_token nxt m = Some (Some t, nt)))"
proof -
  obtain r nt where r: "allocate_flow_token nxt m = Some (r, nt)" "nt \<noteq> 0"
    "case r of Some t \<Rightarrow> t \<noteq> 0 \<and> dm_get m t = None | None \<Rightarrow> \<forall>t. t \<noteq> 0 \<longrightarrow> dm_get m t \<noteq> None"
    using allocate_flow_token_spec [of nxt m] by blast
  have "r \<noteq> None" if "dm_ok m" "dm_len m < 2 ^ 64 - 1"
    using tokens_left [OF that(1)] that(2) r(3) by (cases r) (auto simp: u64_max_def)
  then show ?thesis using r by (cases r) auto
qed

theorem flow_token_is_fresh_witness:
  "\<exists>t nt. allocate_flow_token (2 ^ 64 - 1) [(2 ^ 64 - 1, ([1], SockV4 (Ipv4 9 0 0 2) 5000)), (1, ([2], SockV4 (Ipv4 9 0 0 2) 5000))]
     = Some (Some t, nt)"
proof -
  let ?m = "[(2 ^ 64 - 1 :: u64, ([1 :: u8], SockV4 (Ipv4 9 0 0 2) 5000)), (1, ([2], SockV4 (Ipv4 9 0 0 2) 5000))]"
  have "dm_ok ?m" "dm_len ?m < 2 ^ 64 - 1" by (simp_all add: dm_ok_def dm_len_def)
  then show ?thesis using flow_token_is_fresh [of "2 ^ 64 - 1" ?m] by blast
qed

section \<open>The tables agree\<close>

definition tokens_ok :: "('k, flow_state) dmap \<Rightarrow> (u64, 'k) dmap \<Rightarrow> bool" where
  "tokens_ok flows tokens \<longleftrightarrow> dm_ok flows \<and> dm_ok tokens \<and>
     (\<forall>key f. dm_get flows key = Some f \<longrightarrow> fs_token f \<noteq> 0 \<and> dm_get tokens (fs_token f) = Some key) \<and>
     (\<forall>t key. dm_get tokens t = Some key \<longrightarrow> (\<exists>f. dm_get flows key = Some f \<and> fs_token f = t))"

definition indexed :: "(session_id, sock_addr list) dmap \<Rightarrow> session_id \<Rightarrow> sock_addr list" where
  "indexed m sid = (case dm_get m sid of None \<Rightarrow> [] | Some list \<Rightarrow> list)"

definition index_exact :: "(flow_id, flow_state) dmap \<Rightarrow> (session_id, sock_addr list) dmap \<Rightarrow> bool" where
  "index_exact flows m \<longleftrightarrow> dm_ok m \<and>
     (\<forall>sid. distinct (indexed m sid) \<and> length (indexed m sid) \<le> MAX_FLOWS_PER_SESSION \<and>
        (\<forall>addr. addr \<in> set (indexed m sid) \<longleftrightarrow> dm_get flows (sid, addr) \<noteq> None))"

definition tables_ok :: "shard \<Rightarrow> bool" where
  "tables_ok sh \<longleftrightarrow> tokens_ok (sh_flows sh) (sh_token_to_flow sh) \<and> index_exact (sh_flows sh) (sh_session_flows sh)"

lemma tables_ok_new: "tables_ok (shard_new now)"
  by (simp add: tables_ok_def shard_new_def tokens_ok_def index_exact_def indexed_def)

lemma tokens_ok_put:
  assumes "tokens_ok flows tokens" "dm_get flows key = Some f" "fs_token f' = fs_token f"
  shows "tokens_ok (dm_insert key f' flows) tokens"
proof -
  have "\<exists>g. dm_get (dm_insert key f' flows) k = Some g \<and> fs_token g = t" if k: "dm_get tokens t = Some k" for t k
  proof -
    obtain g where "dm_get flows k = Some g" "fs_token g = t" using assms(1) k unfolding tokens_ok_def by blast
    then show ?thesis using assms(2,3) by (cases "k = key") simp_all
  qed
  then show ?thesis using assms unfolding tokens_ok_def by simp
qed

lemma index_exact_put:
  assumes "index_exact flows m" "dm_get flows key = Some f"
  shows "index_exact (dm_insert key f' flows) m"
  using assms unfolding index_exact_def by auto

lemma tables_ok_put:
  assumes "tables_ok sh" "dm_get (sh_flows sh) key = Some f" "fs_token f' = fs_token f"
  shows "tables_ok (put_flow key f' sh)"
  using assms tokens_ok_put [OF _ assms(2,3)] index_exact_put [OF _ assms(2)] by (simp add: tables_ok_def put_flow_def)

lemma tokens_ok_insert:
  assumes "tokens_ok flows tokens" "dm_get flows key = None" "fs_token f \<noteq> 0" "dm_get tokens (fs_token f) = None"
  shows "tokens_ok (dm_insert key f flows) (dm_insert (fs_token f) key tokens)"
  using assms unfolding tokens_ok_def by (auto split: if_splits) (metis option.distinct(1))+

lemma indexed_insert: "indexed (dm_insert sid l m) sid' = (if sid' = sid then l else indexed m sid')"
  by (simp add: indexed_def)

lemma indexed_remove: "indexed (dm_remove sid m) sid' = (if sid' = sid then [] else indexed m sid')"
  by (simp add: indexed_def)

lemma tables_ok_insert:
  assumes "tables_ok sh" "dm_get (sh_flows sh) key = None" "fs_token f \<noteq> 0"
    and "dm_get (sh_token_to_flow sh) (fs_token f) = None"
    and "length (indexed (sh_session_flows sh) (fst key)) < MAX_FLOWS_PER_SESSION"
  shows "tables_ok (insert_flow key f sh)"
proof -
  have "index_exact (dm_insert key f (sh_flows sh))
      (dm_insert (fst key) (indexed (sh_session_flows sh) (fst key) @ [snd key]) (sh_session_flows sh))"
    using assms(1,2,5) unfolding tables_ok_def index_exact_def
    by (cases key) (auto simp: indexed_insert)
  then show ?thesis
    using assms(1) tokens_ok_insert [OF _ assms(2-4)] by (simp add: tables_ok_def insert_flow_def indexed_def)
qed

lemma tokens_ok_remove:
  assumes "tokens_ok flows tokens" "dm_get flows key = Some f"
  shows "tokens_ok (dm_remove key flows) (dm_remove (fs_token f) tokens)"
proof -
  have inv: "dm_get tokens (fs_token g) = Some k" if "dm_get flows k = Some g" for k g
    using assms(1) that unfolding tokens_ok_def by blast
  have "fs_token g \<noteq> fs_token f" if "dm_get flows k = Some g" "k \<noteq> key" for k g
    using inv [OF that(1)] inv [OF assms(2)] that(2) by auto
  moreover have "\<exists>g. dm_get flows k = Some g \<and> fs_token g = t" if "dm_get tokens t = Some k" for t k
    using assms(1) that unfolding tokens_ok_def by blast
  moreover have "k \<noteq> key" if "dm_get tokens t = Some k" "t \<noteq> fs_token f" for t k
    using calculation(2) [OF that(1)] assms(2) that(2) by auto
  ultimately show ?thesis using assms(1) unfolding tokens_ok_def by simp
qed

lemma position_some:
  "position p xs = Some i \<Longrightarrow> i < length xs \<and> p (xs ! i)"
  by (induction xs arbitrary: i) (auto split: if_splits)

lemma position_none: "position p xs = None \<longleftrightarrow> (\<forall>x \<in> set xs. \<not> p x)"
  by (induction xs) auto

lemma mset_swap_remove:
  assumes "i < length xs"
  shows "mset xs = add_mset (xs ! i) (mset (swap_remove i xs))"
proof -
  have ne: "xs \<noteq> []" using assms by auto
  let ?ys = "xs[i := last xs]"
  have "mset ?ys = add_mset (last xs) (mset xs - {#xs ! i#})" using assms by (simp add: mset_update)
  moreover have "mset ?ys = add_mset (last ?ys) (mset (butlast ?ys))"
    using ne by (metis append_butlast_last_id list_update_nonempty mset.simps(2) mset_append union_commute add_mset_add_single mset_single_iff_right)
  moreover have "last ?ys = last xs"
    using ne assms by (simp add: last_list_update)
  ultimately have "mset (butlast ?ys) = mset xs - {#xs ! i#}" by simp
  then show ?thesis using assms by (simp add: swap_remove_def)
qed

lemma remove_from_index:
  assumes "index_exact flows m" "dm_get flows (sid, addr) = Some f"
  shows "index_exact (dm_remove (sid, addr) flows) (remove_flow_from_session_index (sid, addr) m)"
proof -
  let ?l = "indexed m sid"
  have m: "distinct ?l" "addr \<in> set ?l" "length ?l \<le> MAX_FLOWS_PER_SESSION" "dm_ok m"
    using assms unfolding index_exact_def by auto
  obtain l where l: "dm_get m sid = Some l" using m(2) by (cases "dm_get m sid") (simp_all add: indexed_def)
  then have il: "?l = l" by (simp add: indexed_def)
  obtain pos where pos: "position (\<lambda>a. a = addr) l = Some pos" "pos < length l" "l ! pos = addr"
    using m(2) il position_none [of "\<lambda>a. a = addr" l] position_some [of "\<lambda>a. a = addr" l] by (cases "position (\<lambda>a. a = addr) l") auto
  let ?r = "swap_remove pos l"
  have "mset l = add_mset addr (mset ?r)" using mset_swap_remove [OF pos(2)] pos(3) by simp
  then have r: "distinct ?r" "set ?r = set l - {addr}" "length ?r \<le> length l"
    using m(1) il by (metis distinct.simps(2) mset.simps(2) mset_eq_imp_distinct_iff,
      metis Diff_insert_absorb distinct.simps(2) list.simps(15) m(1) il mset.simps(2) mset_eq_imp_distinct_iff mset_eq_setD,
      metis le_add2 length_Cons mset.simps(2) mset_eq_length plus_1_eq_Suc)
  have "indexed (remove_flow_from_session_index (sid, addr) m) sid' = (if sid' = sid then ?r else indexed m sid')" for sid'
    using l pos(1) by (auto simp: remove_flow_from_session_index_def indexed_insert indexed_remove Let_def)
  moreover have "dm_ok (remove_flow_from_session_index (sid, addr) m)"
    using m(4) l by (simp add: remove_flow_from_session_index_def Let_def)
  ultimately show ?thesis
    using assms(1) r m(3) il unfolding index_exact_def by (auto intro: order_trans)
qed

text \<open>What the operations leave alone.\<close>

definition shard_rest :: "shard \<Rightarrow> u64 \<times> shard_msg list \<times> instant" where
  "shard_rest sh = (sh_next_token sh, sh_inbox sh, sh_cleanup_at sh)"

lemma shard_rest_ops [simp]:
  "shard_rest (put_flow key f sh) = shard_rest sh" "shard_rest (insert_flow key f sh) = shard_rest sh"
  "shard_rest (remove_flow key sh) = shard_rest sh" "shard_rest (keepalive_flow sid a now addr sh) = shard_rest sh"
  "shard_rest (retain_flow now key sh) = shard_rest sh"
  by (simp_all add: shard_rest_def put_flow_def insert_flow_def remove_flow_def keepalive_flow_def retain_flow_def Let_def
      split: option.split)

lemma fold_invariant:
  assumes "\<And>x s. x \<in> set xs \<Longrightarrow> P s \<Longrightarrow> P (f x s)" "P s"
  shows "P (fold f xs s)"
  using assms by (induction xs arbitrary: s) auto

lemma keepalive_flow_ok: "tables_ok sh \<Longrightarrow> tables_ok (keepalive_flow sid client now addr sh)"
  by (auto simp: keepalive_flow_def intro: tables_ok_put split: option.split)

text \<open>The server a packet was sent to, and tables whose flows come from other tables with that server.\<close>

definition info_server :: "original_packet_info \<Rightarrow> sock_addr" where
  "info_server info = SockV4 (oi_dst_ip info) (oi_dst_port info)"

definition flows_from :: "shard \<Rightarrow> shard \<Rightarrow> bool" where
  "flows_from sh sh' \<longleftrightarrow> (\<forall>key f'. dm_get (sh_flows sh') key = Some f' \<longrightarrow>
     (\<exists>f. dm_get (sh_flows sh) key = Some f \<and> info_server (fs_original_info f') = info_server (fs_original_info f)))"

lemma flows_from_refl [simp]: "flows_from sh sh"
  by (simp add: flows_from_def)

lemma flows_from_trans: "flows_from sh sh' \<Longrightarrow> flows_from sh' sh'' \<Longrightarrow> flows_from sh sh''"
  unfolding flows_from_def by metis

lemma flows_from_put:
  "dm_get (sh_flows sh) key = Some f \<Longrightarrow> info_server (fs_original_info f') = info_server (fs_original_info f) \<Longrightarrow>
     flows_from sh (put_flow key f' sh)"
  by (simp add: flows_from_def put_flow_def)

lemma flows_from_keepalive: "flows_from sh (keepalive_flow sid client now addr sh)"
  by (auto simp: keepalive_flow_def intro: flows_from_put split: option.split)

lemma shard_keepalive_ok:
  assumes "tables_ok sh"
  shows "tables_ok (shard_keepalive sid client now sh)" "shard_rest (shard_keepalive sid client now sh) = shard_rest sh"
    "flows_from sh (shard_keepalive sid client now sh)"
proof -
  have "tables_ok s \<and> shard_rest s = shard_rest sh \<and> flows_from sh s"
    if "s = fold (keepalive_flow sid client now) l sh" for l s
    unfolding that
    by (rule fold_invariant) (auto simp: assms keepalive_flow_ok intro: flows_from_trans [OF _ flows_from_keepalive])
  then show "tables_ok (shard_keepalive sid client now sh)" "shard_rest (shard_keepalive sid client now sh) = shard_rest sh"
    "flows_from sh (shard_keepalive sid client now sh)"
    using assms by (simp_all add: shard_keepalive_def split: option.split)
qed

lemma verdict_token: "shard_flow_verdict now f = Some f' \<Longrightarrow> fs_token f' = fs_token f \<and> fs_original_info f' = fs_original_info f"
  by (auto simp: shard_flow_verdict_def Let_def split: option.splits if_splits)

lemma retain_flow_ok:
  assumes "tables_ok sh"
  shows "tables_ok (retain_flow now key sh)"
proof (cases "dm_get (sh_flows sh) key")
  case (Some f)
  obtain sid addr where key: "key = (sid, addr)" by (cases key)
  show ?thesis
  proof (cases "shard_flow_verdict now f")
    case None
    then show ?thesis
      using assms Some tokens_ok_remove [of "sh_flows sh" "sh_token_to_flow sh" key f]
        remove_from_index [of "sh_flows sh" "sh_session_flows sh" sid addr f]
      by (simp add: retain_flow_def remove_flow_def tables_ok_def Let_def key)
  next
    case (Some f')
    then show ?thesis
      using tables_ok_put [OF assms \<open>dm_get (sh_flows sh) key = Some f\<close> conjunct1 [OF verdict_token [OF Some]]]
        \<open>dm_get (sh_flows sh) key = Some f\<close> by (simp add: retain_flow_def)
  qed
qed (use assms in \<open>simp add: retain_flow_def\<close>)

lemma flows_from_retain: "flows_from sh (retain_flow now k sh)"
  by (auto simp: retain_flow_def remove_flow_def flows_from_def put_flow_def Let_def dest: verdict_token split: option.splits if_splits)

lemma shard_retain_ok:
  assumes "tables_ok sh"
  shows "tables_ok (shard_retain now sh)" "shard_rest (shard_retain now sh) = shard_rest sh"
    "flows_from sh (shard_retain now sh)"
proof -
  let ?P = "\<lambda>s. tables_ok s \<and> shard_rest s = shard_rest sh \<and> flows_from sh s"
  have "?P (shard_retain now sh)"
    unfolding shard_retain_def
    by (rule fold_invariant) (auto simp: assms retain_flow_ok intro: flows_from_trans [OF _ flows_from_retain])
  then show "tables_ok (shard_retain now sh)" "shard_rest (shard_retain now sh) = shard_rest sh"
    "flows_from sh (shard_retain now sh)" by blast+
qed

lemma remove_flows_fold:
  assumes "tokens_ok (sh_flows sh) (sh_token_to_flow sh)" "s = fold (\<lambda>addr. remove_flow (sid, addr)) l sh"
  shows "tokens_ok (sh_flows s) (sh_token_to_flow s) \<and> shard_rest s = shard_rest sh \<and> sh_session_flows s = sh_session_flows sh \<and>
    dm_get (sh_flows s) key = (if fst key = sid \<and> snd key \<in> set l then None else dm_get (sh_flows sh) key)"
  using assms
proof (induction l arbitrary: sh)
  case (Cons a l)
  let ?s = "remove_flow (sid, a) sh"
  have s: "tokens_ok (sh_flows ?s) (sh_token_to_flow ?s)" "sh_session_flows ?s = sh_session_flows sh"
    "dm_get (sh_flows ?s) key = (if key = (sid, a) then None else dm_get (sh_flows sh) key)"
    using Cons.prems(1) tokens_ok_remove by (auto simp: remove_flow_def split: option.split)
  show ?case using Cons.IH [OF s(1)] Cons.prems(2) s(2,3) by (cases key) auto
qed simp

lemma shard_remove_session_ok:
  assumes "tables_ok sh"
  shows "tables_ok (shard_remove_session sid sh)" "shard_rest (shard_remove_session sid sh) = shard_rest sh"
    "dm_get (sh_flows (shard_remove_session sid sh)) key = (if fst key = sid then None else dm_get (sh_flows sh) key)"
proof -
  let ?r = "sh\<lparr>sh_session_flows := dm_remove sid (sh_session_flows sh)\<rparr>" and ?l = "indexed (sh_session_flows sh) sid"
  let ?s = "fold (\<lambda>addr. remove_flow (sid, addr)) ?l ?r"
  have idx: "\<And>addr. addr \<in> set ?l \<longleftrightarrow> dm_get (sh_flows sh) (sid, addr) \<noteq> None"
    using assms by (simp add: tables_ok_def index_exact_def)
  have start: "tokens_ok (sh_flows ?r) (sh_token_to_flow ?r)" using assms by (simp add: tables_ok_def)
  note fold = remove_flows_fold [OF start refl, where l = ?l and sid = sid]
  have get: "dm_get (sh_flows ?s) key = (if fst key = sid then None else dm_get (sh_flows sh) key)" for key
    using idx [of "snd key"] fold [of key] by (cases key) auto
  have rest: "shard_rest ?s = shard_rest sh" "tokens_ok (sh_flows ?s) (sh_token_to_flow ?s)"
    "sh_session_flows ?s = dm_remove sid (sh_session_flows sh)"
    using fold [of "(sid, undefined)"] by (simp_all add: shard_rest_def)
  have ok: "tables_ok ?s"
    using assms rest(2,3) get by (simp add: tables_ok_def index_exact_def indexed_remove)
  show "tables_ok (shard_remove_session sid sh)" "shard_rest (shard_remove_session sid sh) = shard_rest sh"
    "dm_get (sh_flows (shard_remove_session sid sh)) key = (if fst key = sid then None else dm_get (sh_flows sh) key)"
    using assms ok rest(1) get idx [of "snd key"]
    by (cases key; auto simp: shard_remove_session_def indexed_def split: option.splits)+
qed

end
