(* ===== verification/Buffer_Pool.thy ===== *)
theory Buffer_Pool
  imports Relay_Prelude "HOL-Library.Multiset"
begin

text \<open>
  The packet buffers of the second datapath (\<^verbatim>\<open>BufferPool\<close> in \<^verbatim>\<open>src/src/datapath_v2.rs\<close>):
  a fixed array of buffers and a queue of free indices.  The buffers are shared between the
  threads without a lock (\<^verbatim>\<open>unsafe impl Sync\<close>) because an index is used only by whoever took
  it from the queue.  The locale \<open>slot_pool\<close> states what the threads rely on; \<open>sound\<close> says
  that every index is either free or held exactly once.
\<close>

section \<open>Definitions\<close>

definition MAX_PACKET_SIZE :: nat where
  "MAX_PACKET_SIZE = 1600"

record buffer_pool =
  pool_buffers :: "bytes list"
  pool_free :: "nat list"

definition pool_new :: "nat \<Rightarrow> buffer_pool" where
  "pool_new slots = \<lparr>pool_buffers = replicate slots (replicate MAX_PACKET_SIZE 0), pool_free = [0..<slots]\<rparr>"

definition pool_try_acquire :: "buffer_pool \<Rightarrow> (nat \<times> buffer_pool) option" where
  "pool_try_acquire p = (case pool_free p of [] \<Rightarrow> None | i # rest \<Rightarrow> Some (i, p\<lparr>pool_free := rest\<rparr>))"

definition pool_release :: "nat \<Rightarrow> buffer_pool \<Rightarrow> buffer_pool" where
  "pool_release i p = p\<lparr>pool_free := pool_free p @ [i]\<rparr>"

text \<open>Reading a buffer, and copying bytes to its start.\<close>

definition pool_buffer :: "buffer_pool \<Rightarrow> nat \<Rightarrow> bytes" where
  "pool_buffer p i = pool_buffers p ! i"

definition pool_write :: "nat \<Rightarrow> bytes \<Rightarrow> buffer_pool \<Rightarrow> buffer_pool" where
  "pool_write i data p = p\<lparr>pool_buffers := (pool_buffers p)[i := data @ drop (length data) (pool_buffers p ! i)]\<rparr>"

section \<open>The contract\<close>

locale slot_pool =
  fixes free :: "'p \<Rightarrow> nat list"
    and slots :: "'p \<Rightarrow> nat"
    and buffer :: "'p \<Rightarrow> nat \<Rightarrow> bytes"
    and acquire :: "'p \<Rightarrow> (nat \<times> 'p) option"
    and release :: "nat \<Rightarrow> 'p \<Rightarrow> 'p"
    and fill :: "nat \<Rightarrow> bytes \<Rightarrow> 'p \<Rightarrow> 'p"
  assumes acquire_free: "acquire p = Some (i, q) \<Longrightarrow> mset (free p) = add_mset i (mset (free q))"
    and acquire_same: "acquire p = Some (i, q) \<Longrightarrow> slots q = slots p \<and> buffer q = buffer p"
    and acquire_none: "acquire p = None \<Longrightarrow> free p = []"
    and release_free: "mset (free (release i p)) = add_mset i (mset (free p))"
    and release_same: "slots (release i p) = slots p \<and> buffer (release i p) = buffer p"
    and fill_same: "free (fill i d p) = free p \<and> slots (fill i d p) = slots p"
    and fill_buffer: "i < slots p \<Longrightarrow> buffer (fill i d p) j = (if j = i then d @ drop (length d) (buffer p i) else buffer p j)"
begin

definition sound :: "'p \<Rightarrow> nat multiset \<Rightarrow> bool" where
  "sound p held \<longleftrightarrow> mset (free p) + held = mset [0..<slots p]"

lemma sound_once:
  assumes "sound p held"
  shows "count (mset (free p)) i + count held i \<le> 1" and "i \<in># held \<Longrightarrow> i < slots p"
proof -
  have "count (mset (free p) + held) i = count (mset [0..<slots p]) i" using assms by (simp add: sound_def)
  moreover have "count (mset [0..<slots p]) i \<le> 1" using distinct_count_atmost_1 [of "[0..<slots p]"] by auto
  ultimately show "count (mset (free p)) i + count held i \<le> 1" by simp
  assume "i \<in># held"
  then have "i \<in># mset [0..<slots p]" using assms unfolding sound_def by (metis union_iff)
  then show "i < slots p" by simp
qed

text \<open>An acquired buffer was nobody's; while it is held the queue has room to take it back.\<close>

lemma sound_acquire:
  assumes "sound p held" "acquire p = Some (i, q)"
  shows "sound q (add_mset i held)" "i \<notin># held" "i < slots p"
proof -
  show s: "sound q (add_mset i held)"
    using assms(1) acquire_free [OF assms(2)] acquire_same [OF assms(2)] by (simp add: sound_def)
  show "i < slots p" using sound_once(2) [OF s, of i] acquire_same [OF assms(2)] by simp
  show "i \<notin># held" using sound_once(1) [OF s, of i] by (simp add: count_eq_zero_iff [symmetric])
qed

lemma sound_release: "sound p (add_mset i held) \<Longrightarrow> sound (release i p) held"
  using release_free [of i p] release_same [of i p] by (simp add: sound_def)

lemma sound_room: "sound p (add_mset i held) \<Longrightarrow> length (free p) < slots p"
  unfolding sound_def by (drule arg_cong [where f = size]) simp

lemma sound_fill: "sound (fill i d p) held = sound p held"
  using fill_same [of i d p] by (simp add: sound_def)

lemma sound_hand_other: "sound p (add_mset i held) \<Longrightarrow> j \<in># held \<Longrightarrow> j \<noteq> i"
  using sound_once(1) [of p "add_mset i held" i] by (auto simp: count_eq_zero_iff)

end

interpretation pool: slot_pool pool_free "\<lambda>p. length (pool_buffers p)" pool_buffer pool_try_acquire pool_release pool_write
  by unfold_locales
    (auto simp: pool_try_acquire_def pool_release_def pool_write_def pool_buffer_def fun_eq_iff split: list.splits)

lemma pool_new_sound: "pool.sound (pool_new n) {#}"
  by (simp add: pool.sound_def pool_new_def)

text \<open>The size of every buffer.\<close>

definition buffers_sized :: "buffer_pool \<Rightarrow> bool" where
  "buffers_sized p \<longleftrightarrow> (\<forall>b \<in> set (pool_buffers p). length b = MAX_PACKET_SIZE)"

lemma buffers_sized_new: "buffers_sized (pool_new n)"
  by (simp add: buffers_sized_def pool_new_def)

lemma buffers_sized_get: "buffers_sized p \<Longrightarrow> i < length (pool_buffers p) \<Longrightarrow> length (pool_buffer p i) = MAX_PACKET_SIZE"
  by (simp add: buffers_sized_def pool_buffer_def)

lemma buffers_sized_ops:
  assumes "buffers_sized p"
  shows "pool_try_acquire p = Some (i, q) \<Longrightarrow> buffers_sized q" "buffers_sized (pool_release j p)"
    "length d \<le> MAX_PACKET_SIZE \<Longrightarrow> j < length (pool_buffers p) \<Longrightarrow> buffers_sized (pool_write j d p)"
  using assms buffers_sized_get [OF assms, of j]
  by (auto simp: buffers_sized_def pool_try_acquire_def pool_release_def pool_write_def pool_buffer_def
      set_update_subset_insert [THEN subsetD] split: list.splits dest!: set_update_subset_insert [THEN subsetD])

lemma length_buffers [simp]:
  "pool_try_acquire p = Some (i, q) \<Longrightarrow> length (pool_buffers q) = length (pool_buffers p)"
  "length (pool_buffers (pool_release j p)) = length (pool_buffers p)"
  "length (pool_buffers (pool_write j d p)) = length (pool_buffers p)"
  by (auto simp: pool_try_acquire_def pool_release_def pool_write_def split: list.splits)

end
