(* ===== verification/Datapath_V2.thy ===== *)
theory Datapath_V2
  imports Shard Buffer_Pool Tuning
begin

text \<open>
  The second datapath (\<^verbatim>\<open>src/src/datapath_v2.rs\<close>): the receive thread, the shard threads, the
  transmit thread, the session cleanup task and the statistics task, as steps on one state.
  Packets travel between the threads as indices into the buffer pool.  A step of a shard
  drains a burst of any length up to the bound of the source; as a burst may be short, every
  interleaving of the threads between two packets is a sequence of steps.

  Two traces are kept beside the state of the program: \<open>w_accepted\<close>, the payloads the
  receive thread hands to the shards, and \<open>w_received\<close>, the datagrams the kernel hands to the
  shards on the sockets of their flows, with the session and the game server of the flow.
  No step reads them.
\<close>

section \<open>Definitions\<close>

definition MAX_FLOW_RECV_BURST :: nat where
  "MAX_FLOW_RECV_BURST = 64"

definition MAX_INBOX_DRAIN_BURST :: nat where
  "MAX_INBOX_DRAIN_BURST = 1024"

definition MAX_DATA_QUEUE_AGE :: nat where
  "MAX_DATA_QUEUE_AGE = duration_millis 250"

datatype queued_packet_kind = QData | QControl

record tx_packet =
  tx_addr :: sock_addr
  tx_session_id :: session_id
  tx_buf_idx :: nat
  tx_len :: nat
  tx_enqueued_at :: instant
  tx_kind :: queued_packet_kind

record v2_config = relay_config +
  vc_tuning :: v2_tuning
  vc_resolve_socket :: bool

record v2_state = relay +
  w_pool :: buffer_pool
  w_shards :: "shard list"
  w_flow_counts :: "u64 list"
  w_tx_control :: "tx_packet list"
  w_tx_data :: "tx_packet list"
  w_accepted :: "(session_id \<times> sock_addr \<times> bytes) list"
  w_received :: "(session_id \<times> sock_addr \<times> bytes) list"

definition should_drop_stale_queued_packet :: "queued_packet_kind \<Rightarrow> instant \<Rightarrow> instant \<Rightarrow> bool" where
  "should_drop_stale_queued_packet kind enqueued_at now \<longleftrightarrow>
     kind = QData \<and> saturating_duration_since now enqueued_at > MAX_DATA_QUEUE_AGE"

subsection \<open>Queues\<close>

definition w_release :: "nat \<Rightarrow> v2_state \<Rightarrow> v2_state" where
  "w_release i v = v\<lparr>w_pool := pool_release i (w_pool v)\<rparr>"

definition pool_dry :: "v2_state \<Rightarrow> v2_state" where
  "pool_dry v = v\<lparr>g_stats := (g_stats v)\<lparr>pool_exhausted := pool_exhausted (g_stats v) + 1\<rparr>\<rparr>"

text \<open>\<^verbatim>\<open>try_send\<close> of a control or data packet; a packet that finds no room gives its buffer back.\<close>

definition send_control :: "v2_config \<Rightarrow> tx_packet \<Rightarrow> v2_state \<Rightarrow> v2_state" where
  "send_control c packet v =
     (if length (w_tx_control v) < tx_queue_cap (vc_tuning c) then v\<lparr>w_tx_control := w_tx_control v @ [packet]\<rparr>
      else w_release (tx_buf_idx packet) (g_drop_out TxQueue v))"

definition send_data :: "v2_config \<Rightarrow> tx_packet \<Rightarrow> v2_state \<Rightarrow> v2_state" where
  "send_data c packet v =
     (if length (w_tx_data v) < tx_queue_cap (vc_tuning c) then v\<lparr>w_tx_data := w_tx_data v @ [packet]\<rparr>
      else w_release (tx_buf_idx packet) (g_drop_out TxQueue v))"

definition shard_of :: "session_id \<Rightarrow> v2_state \<Rightarrow> nat" where
  "shard_of sid v = shard_for_session sid (length (w_shards v))"

definition update_shard :: "nat \<Rightarrow> (shard \<Rightarrow> shard) \<Rightarrow> v2_state \<Rightarrow> v2_state" where
  "update_shard i f v = v\<lparr>w_shards := (w_shards v)[i := f (w_shards v ! i)]\<rparr>"

definition shard_has_room :: "v2_config \<Rightarrow> nat \<Rightarrow> v2_state \<Rightarrow> bool" where
  "shard_has_room c i v \<longleftrightarrow> length (sh_inbox (w_shards v ! i)) < shard_queue_cap (vc_tuning c)"

definition push_msg :: "nat \<Rightarrow> shard_msg \<Rightarrow> v2_state \<Rightarrow> v2_state" where
  "push_msg i msg v = update_shard i (\<lambda>sh. sh\<lparr>sh_inbox := sh_inbox sh @ [msg]\<rparr>) v"

definition send_small_control_frame ::
  "v2_config \<Rightarrow> instant \<Rightarrow> sock_addr \<Rightarrow> session_id \<Rightarrow> u8 \<Rightarrow> u8 \<Rightarrow> v2_state \<Rightarrow> v2_state" where
  "send_small_control_frame c now addr sid frame_type status v =
     (case pool_try_acquire (w_pool v) of
        None \<Rightarrow> pool_dry (g_drop_out Pool v)
      | Some (buf_idx, pool) \<Rightarrow>
          send_control c
            \<lparr>tx_addr = addr, tx_session_id = sid, tx_buf_idx = buf_idx, tx_len = SESSION_ID_LEN + 2,
             tx_enqueued_at = now, tx_kind = QControl\<rparr>
            (v\<lparr>w_pool := pool_write buf_idx (sid @ [frame_type, status]) pool\<rparr>))"

definition v2_ack :: "v2_config \<Rightarrow> instant \<Rightarrow> v2_state ack_fun" where
  "v2_ack c now addr sid status v = send_small_control_frame c now addr sid AUTH_ACK_FRAME_TYPE status v"

subsection \<open>Admission\<close>

text \<open>What \<^verbatim>\<open>recv_from\<close> leaves in the buffer of the receive thread.\<close>

definition recv_from :: "rx_event \<Rightarrow> rx_event" where
  "recv_from ev = ev\<lparr>ev_frame := take MAX_PACKET_SIZE (ev_frame ev)\<rparr>"

definition v2_verify :: "v2_config \<Rightarrow> rx_event \<Rightarrow> v2_state \<Rightarrow> verified_relay_ticket option option \<times> v2_state" where
  "v2_verify c ev v =
     (if vc_auth_required c \<and> is_auth_hello ev then
        let (allowed, v) = g_pending_allow (vc_rx c) (sock_ip (ev_addr ev)) (ev_now ev) v in
        if \<not> allowed then (None, g_drop_in RateLimit v)
        else
          let (result, v) = (case parse_auth_hello_token (ev_frame ev) (ev_len ev) of
                Inl err \<Rightarrow> (Inl err, v)
              | Inr token \<Rightarrow>
                  let (r, cache) = verify_relay_ticket_once (c_ext (vc_rx c)) token (ev_sid ev) (c_auth (vc_rx c))
                        (ev_now_unix ev) (g_replay_cache v)
                  in (r, v\<lparr>g_replay_cache := cache\<rparr>))
          in (case result of
                Inr ticket \<Rightarrow> (Some (Some ticket), v)
              | Inl err \<Rightarrow> (None, send_small_control_frame c (ev_later ev) (ev_addr ev) (ev_sid ev) AUTH_ACK_FRAME_TYPE
                   (ack_status err) v))
      else (Some None, v))"

definition v2_auth_check :: "v2_config \<Rightarrow> rx_event \<Rightarrow> verified_relay_ticket option \<Rightarrow> v2_state \<Rightarrow> bool \<times> v2_state" where
  "v2_auth_check c ev verified_ticket v =
     (let moved = (case dm_get (g_sessions v) (ev_sid ev) of
              None \<Rightarrow> False | Some session \<Rightarrow> client_addr session \<noteq> ev_addr ev);
          v = (if vc_auth_required c \<and> verified_ticket = None \<and> moved then
                 let (allowed, v) = g_pending_allow (vc_rx c) (sock_ip (ev_addr ev)) (ev_now ev) v in
                 if allowed then
                   send_small_control_frame c (ev_later ev) (ev_addr ev) (ev_sid ev) AUTH_ACK_FRAME_TYPE
                     AUTH_ACK_REAUTH_REQUIRED v
                 else v
               else v);
          owner = (case dm_get (g_sessions v) (ev_sid ev) of
              None \<Rightarrow> False
            | Some session \<Rightarrow> session_auth_is_current session (ev_now_unix ev)
                \<and> authenticated_session_source_allowed session True (ev_addr ev) False)
      in if vc_auth_required c \<and> verified_ticket = None \<and> \<not> owner then (False, g_drop_in Auth v) else (True, v))"

text \<open>The limits; unlike in the first datapath the capacities are tested in place.\<close>

definition v2_admit :: "rx_event \<Rightarrow> v2_state \<Rightarrow> bool \<times> v2_state" where
  "v2_admit ev v =
     (let (allowed, v) = g_allow_source_event (ev_addr ev) KPacket (ev_now ev) v in
      if \<not> allowed then (False, v)
      else if dm_contains (g_sessions v) (ev_sid ev) then (True, v)
      else if dm_len (g_sessions v) \<ge> MAX_SESSIONS_TOTAL then (False, g_drop_in Capacity v)
      else if source_session_count (g_source_session_counts v) (sock_ip (ev_addr ev)) \<ge> MAX_SESSIONS_PER_SRC_IP then
        (False, g_drop_in Capacity v)
      else g_allow_source_event (ev_addr ev) KNewSession (ev_now ev) v)"

definition v2_touch_session :: "v2_config \<Rightarrow> rx_event \<Rightarrow> v2_state \<Rightarrow> (bool \<times> bool) \<times> v2_state" where
  "v2_touch_session c ev v =
     (case dm_get (g_sessions v) (ev_sid ev) of
        Some session \<Rightarrow>
          ((session_auth_is_current session (ev_now_unix ev),
            authenticated_session_source_allowed session (vc_auth_required c) (ev_addr ev) (is_auth_hello ev)),
           if \<not> vc_auth_required c \<or> (\<not> is_auth_hello ev \<and> client_addr session = ev_addr ev) then
             v\<lparr>g_source_session_counts := update_source_session_count_for_rebind (g_source_session_counts v)
                 (sock_ip (client_addr session)) (sock_ip (ev_addr ev)),
               g_sessions := dm_insert (ev_sid ev)
                 (session\<lparr>client_addr := ev_addr ev, last_activity := ev_now ev, last_activity_unix := ev_now_unix ev\<rparr>)
                 (g_sessions v)\<rparr>
           else v)
      | None \<Rightarrow>
          ((False, True),
           v\<lparr>g_sessions := dm_insert (ev_sid ev)
               \<lparr>user_id = derive_user_id (ev_sid ev), auth_state = Legacy, lease_expires_at_unix = None,
                client_addr = ev_addr ev, created_at_unix = ev_now_unix ev, last_activity = ev_now ev,
                last_activity_unix = ev_now_unix ev\<rparr> (g_sessions v),
             g_source_session_counts := increment_source_session_count (g_source_session_counts v) (sock_ip (ev_addr ev)),
             g_stats := (g_stats v)\<lparr>active_sessions := active_sessions (g_stats v) + 1\<rparr>\<rparr>))"

definition v2_hello :: "v2_config \<Rightarrow> rx_event \<Rightarrow> verified_relay_ticket option \<Rightarrow> v2_state \<Rightarrow> v2_state" where
  "v2_hello c ev verified_ticket v =
     (let ack = send_small_control_frame c (ev_later ev) (ev_addr ev) (ev_sid ev) AUTH_ACK_FRAME_TYPE in
      if ac_mode (c_auth (vc_rx c)) = AuthOff then ack AUTH_ACK_AUTH_DISABLED v
      else
        (case verified_ticket of
           None \<Rightarrow> ack (ack_status BadFormat) v
         | Some ticket \<Rightarrow>
             let owner_conflict = (case dm_get (g_sessions v) (ev_sid ev) of
                   None \<Rightarrow> False
                 | Some existing \<Rightarrow> auth_state existing = Authenticated \<and> user_id existing \<noteq> vt_user_id ticket)
             in if owner_conflict then ack AUTH_ACK_OWNER_MISMATCH v
                else
                  ack AUTH_ACK_OK
                    (case dm_get (g_sessions v) (ev_sid ev) of
                       None \<Rightarrow> v
                     | Some session \<Rightarrow>
                         v\<lparr>g_source_session_counts := update_source_session_count_for_rebind (g_source_session_counts v)
                             (sock_ip (client_addr session)) (sock_ip (ev_addr ev)),
                           g_sessions := dm_insert (ev_sid ev)
                             (session\<lparr>user_id := vt_user_id ticket, auth_state := Authenticated,
                                lease_expires_at_unix := (if vt_lease ticket then Some (vt_exp ticket) else None),
                                client_addr := ev_addr ev, last_activity := ev_now ev,
                                last_activity_unix := ev_now_unix ev\<rparr>) (g_sessions v)\<rparr>)))"

definition v2_gate :: "v2_config \<Rightarrow> rx_event \<Rightarrow> v2_state \<Rightarrow> bool option \<times> v2_state" where
  "v2_gate c ev v =
     (let v = g_count_in (ev_len ev) v in
      if ev_len ev < SESSION_ID_LEN then (None, g_drop_in TooSmall v)
      else
        (case v2_verify c ev v of
           (None, v) \<Rightarrow> (None, v)
         | (Some verified_ticket, v) \<Rightarrow>
             let (owner, v) = v2_auth_check c ev verified_ticket v in
             if \<not> owner then (None, v)
             else
               let (admitted, v) = v2_admit ev v in
               if \<not> admitted then (None, v)
               else
                 let ((session_authenticated, session_source_allowed), v) = v2_touch_session c ev v;
                     v = v\<lparr>g_session_traffic := record_session_ingress (g_session_traffic v) (ev_sid ev) (ev_now_unix ev)
                            (ev_len ev)\<rparr>
                 in if is_auth_hello ev then (None, v2_hello c ev verified_ticket v)
                    else if \<not> session_source_allowed then (None, g_drop_in Auth v)
                    else (Some session_authenticated, v)))"

subsection \<open>Control frames and payload\<close>

definition v2_ping :: "v2_config \<Rightarrow> rx_event \<Rightarrow> v2_state \<Rightarrow> v2_state" where
  "v2_ping c ev v =
     (case pool_try_acquire (w_pool v) of
        None \<Rightarrow> pool_dry (g_drop_out Pool v)
      | Some (buf_idx, pool) \<Rightarrow>
          send_control c
            \<lparr>tx_addr = ev_addr ev, tx_session_id = ev_sid ev, tx_buf_idx = buf_idx, tx_len = PONG_FRAME_LEN,
             tx_enqueued_at = ev_later ev, tx_kind = QControl\<rparr>
            (v\<lparr>w_pool := pool_write buf_idx (pong_reply (ev_frame ev) (ev_mono_ms ev)) pool\<rparr>))"

definition v2_resolve :: "v2_config \<Rightarrow> rx_event \<Rightarrow> v2_state \<Rightarrow> v2_state" where
  "v2_resolve c ev v = (if vc_resolve_socket c then resolve_request ev v else v)"

definition v2_keepalive :: "v2_config \<Rightarrow> rx_event \<Rightarrow> v2_state \<Rightarrow> v2_state" where
  "v2_keepalive c ev v =
     (let shard_id = shard_of (ev_sid ev) v in
      if shard_id < length (w_shards v) then
        (if shard_has_room c shard_id v then push_msg shard_id (Keepalive (ev_sid ev) (ev_addr ev)) v
         else g_drop_in ShardQueue v)
      else v)"

text \<open>A UDP payload goes to the shard of its session in a buffer of the pool.\<close>

definition v2_udp ::
  "v2_config \<Rightarrow> rx_event \<Rightarrow> sock_addr \<Rightarrow> bytes \<Rightarrow> original_packet_info \<Rightarrow> v2_state \<Rightarrow> v2_state" where
  "v2_udp c ev game payload info v =
     (let v = set_user (ev_sid ev) (oi_src_ip info) v in
      case pool_try_acquire (w_pool v) of
        None \<Rightarrow> pool_dry (g_drop_in Pool v)
      | Some (payload_idx, pool) \<Rightarrow>
          let v = v\<lparr>w_pool := pool_write payload_idx payload pool\<rparr>;
              shard_id = shard_of (ev_sid ev) v
          in if shard_id < length (w_shards v) \<and> shard_has_room c shard_id v then
               push_msg shard_id
                 (ClientPacket (ev_sid ev) (ev_addr ev) game info payload_idx (length payload) (ev_now ev))
                 (v\<lparr>w_accepted := w_accepted v @ [(ev_sid ev, game, payload)]\<rparr>)
             else w_release payload_idx (g_drop_in ShardQueue v))"

fun v2_forward :: "v2_config \<Rightarrow> rx_event \<Rightarrow> parsed_packet \<Rightarrow> v2_state \<Rightarrow> v2_state" where
  "v2_forward c ev PForbiddenDst v = g_drop_in ForbiddenDst v"
| "v2_forward c ev (PFragment protocol src_ip raw) v =
     set_user (ev_sid ev) src_ip
       (if protocol = 17 \<and> vc_tun_udp_enabled c \<or> protocol = 6 \<and> vc_tcp_enabled c then tun_send c (protocol = 6) ev raw v
        else g_drop_in Fragment v)"
| "v2_forward c ev (PTcp info raw) v =
     set_user (ev_sid ev) (oi_src_ip info)
       (if vc_tcp_enabled c then tun_send c True ev raw v else g_drop_in TcpDisabled v)"
| "v2_forward c ev (PUdp game payload info raw) v =
     (if vc_tun_udp_enabled c then set_user (ev_sid ev) (oi_src_ip info) (tun_send c False ev raw v)
      else v2_udp c ev game payload info v)"

definition v2_payload :: "v2_config \<Rightarrow> rx_event \<Rightarrow> v2_state \<Rightarrow> v2_state" where
  "v2_payload c ev v =
     (if ev_len ev < SESSION_ID_LEN + IP_HEADER_MIN then g_drop_in TooSmall v
      else
        let ip_packet = drop SESSION_ID_LEN (ev_frame ev);
            (parsed, policy) = parse_ip_packet_full (v_policy v) ip_packet;
            v = v\<lparr>v_policy := policy\<rparr>
        in case parsed of
             None \<Rightarrow> g_drop_in Parse v
           | Some p \<Rightarrow>
               let (within, b) = (if p \<noteq> PForbiddenDst then
                       account_budget_allow (v_budgets v) (g_sessions v) (ev_sid ev) False ip_packet (unat (ev_mono_ms ev))
                     else (True, v_budgets v));
                   v = v\<lparr>v_budgets := b\<rparr>
               in if \<not> within then g_drop_in RateLimit v else v2_forward c ev p v)"

definition v2_dispatch :: "v2_config \<Rightarrow> rx_event \<Rightarrow> bool \<Rightarrow> v2_state \<Rightarrow> v2_state" where
  "v2_dispatch c ev session_authenticated v =
     (let refused = (vc_auth_required c \<and> \<not> session_authenticated);
          kind = (if ev_len ev > SESSION_ID_LEN then ev_frame ev ! SESSION_ID_LEN else 0)
      in if ev_len ev = PING_FRAME_LEN \<and> kind = PING_FRAME_TYPE then
           (if refused then g_drop_in Auth v else v2_ping c ev v)
         else if ev_len ev = PONG_FRAME_LEN \<and> kind = PONG_FRAME_TYPE then v
         else if ev_len ev = RTT_REPORT_FRAME_LEN \<and> kind = RTT_REPORT_FRAME_TYPE then
           (if refused then g_drop_in Auth v else rtt_report ev v)
         else if ev_len ev > SESSION_ID_LEN \<and> kind = RESOLVE_REQUEST_FRAME_TYPE then
           (if refused then g_drop_in Auth v else v2_resolve c ev v)
         else if ev_len ev = SESSION_ID_LEN then
           (if refused then g_drop_in Auth v else v2_keepalive c ev v)
         else if refused then g_drop_in Auth v
         else v2_payload c ev v)"

definition v2_rx :: "v2_config \<Rightarrow> rx_event \<Rightarrow> v2_state \<Rightarrow> v2_state" where
  "v2_rx c ev v =
     (case v2_gate c ev v of
        (None, v) \<Rightarrow> v
      | (Some session_authenticated, v) \<Rightarrow> v2_dispatch c ev session_authenticated v)"

subsection \<open>A shard: responses from game servers\<close>

datatype recv_outcome = RecvErr | RecvOk bytes "u8 option" instant nat nat

text \<open>One \<^verbatim>\<open>recv_flow_response\<close>; the first component tells whether the burst goes on.\<close>

definition shard_recv :: "v2_config \<Rightarrow> nat \<Rightarrow> flow_id \<Rightarrow> flow_state \<Rightarrow> recv_outcome \<Rightarrow> v2_state \<Rightarrow> bool \<times> v2_state" where
  "shard_recv c i key flow outcome v =
     (case outcome of
        RecvErr \<Rightarrow> (False, v)
      | RecvOk datagram response_tos received_at now_unix later_unix \<Rightarrow>
          let recv_buf = take MAX_PACKET_SIZE datagram;
              v = v\<lparr>w_received := w_received v @ [(fst key, snd key, recv_buf)]\<rparr>;
              lease_current = (case dm_get (g_sessions v) (fst key) of
                None \<Rightarrow> False | Some session \<Rightarrow> session_lease_is_current session now_unix)
          in if \<not> lease_current then (False, v)
             else
               let v = update_shard i (put_flow key
                     (flow\<lparr>fs_last_activity := received_at, fs_marked_for_removal := None\<rparr>)) v;
                   v = touch_session (fst key) received_at later_unix v
               in (case pool_try_acquire (w_pool v) of
                     None \<Rightarrow> (False, pool_dry (g_drop_out Pool v))
                   | Some (buf_idx, pool) \<Rightarrow>
                       let pool = pool_write buf_idx (fst key) pool;
                           tos = (case response_tos of None \<Rightarrow> oi_tos (fs_original_info flow) | Some t \<Rightarrow> t)
                       in (case write_response_ip_packet_into_with_tos (drop SESSION_ID_LEN (pool_buffer pool buf_idx))
                                  recv_buf (fs_original_info flow) tos of
                             None \<Rightarrow> (False, w_release buf_idx (v\<lparr>w_pool := pool\<rparr>))
                           | Some (out, ip_len) \<Rightarrow>
                               (True, send_data c
                                  \<lparr>tx_addr = fs_client_addr flow, tx_session_id = fst key, tx_buf_idx = buf_idx,
                                   tx_len = SESSION_ID_LEN + ip_len, tx_enqueued_at = received_at, tx_kind = QData\<rparr>
                                  (v\<lparr>w_pool := pool_write buf_idx (fst key @ out) pool\<rparr>)))))"

fun recv_burst :: "v2_config \<Rightarrow> nat \<Rightarrow> flow_id \<Rightarrow> recv_outcome list \<Rightarrow> v2_state \<Rightarrow> v2_state" where
  "recv_burst c i key [] v = v"
| "recv_burst c i key (outcome # outcomes) v =
     (case dm_get (sh_flows (w_shards v ! i)) key of
        None \<Rightarrow> v
      | Some flow \<Rightarrow>
          let (go_on, v) = shard_recv c i key flow outcome v
          in if go_on then recv_burst c i key outcomes v else v)"

definition shard_readable :: "v2_config \<Rightarrow> nat \<Rightarrow> u64 \<Rightarrow> recv_outcome list \<Rightarrow> v2_state \<Rightarrow> v2_state" where
  "shard_readable c i token outcomes v =
     (if token = 0 then v
      else
        (case dm_get (sh_token_to_flow (w_shards v ! i)) token of
           None \<Rightarrow> v
         | Some key \<Rightarrow> recv_burst c i key (take MAX_FLOW_RECV_BURST outcomes) v))"

subsection \<open>A shard: messages from the receive thread\<close>

text \<open>The clock readings of an iteration and the outcomes of its system calls.\<close>

record inbox_event =
  ie_now :: instant
  ie_later :: instant
  ie_socket_ok :: bool
  ie_register_ok :: bool
  ie_send :: "io_error_kind option"

definition total_flows :: "v2_state \<Rightarrow> nat" where
  "total_flows v = sum_list (map unat (w_flow_counts v))"

text \<open>A new flow; \<^term>\<open>None\<close> drops the packet.  The token search always returns.\<close>

definition shard_new_flow ::
  "v2_config \<Rightarrow> nat \<Rightarrow> inbox_event \<Rightarrow> flow_id \<Rightarrow> sock_addr \<Rightarrow> original_packet_info \<Rightarrow> v2_state \<Rightarrow> flow_state option \<times> v2_state" where
  "shard_new_flow c i e key client info v =
     (let sh = w_shards v ! i in
      if total_flows v \<ge> MAX_FLOWS_TOTAL then (None, g_drop_in Capacity v)
      else if (case dm_get (sh_session_flows sh) (fst key) of None \<Rightarrow> 0 | Some l \<Rightarrow> length l) \<ge> MAX_FLOWS_PER_SESSION then
        (None, g_drop_in Capacity v)
      else
        let (allowed, v) = g_allow_source_event client KNewFlow (ie_later e) v in
        if \<not> allowed then (None, v)
        else if \<not> ie_socket_ok e then (None, g_drop_in FlowCreate v)
        else
          (case allocate_flow_token (sh_next_token sh) (sh_token_to_flow sh) of
             None \<Rightarrow> (None, v)
           | Some (token, next_token) \<Rightarrow>
               let v = update_shard i (\<lambda>sh. sh\<lparr>sh_next_token := next_token\<rparr>) v in
               (case token of
                  None \<Rightarrow> (None, g_drop_in FlowCreate v)
                | Some token \<Rightarrow>
                    if \<not> ie_register_ok e then (None, g_drop_in FlowCreate v)
                    else
                      let flow = \<lparr>fs_client_addr = client, fs_original_info = info, fs_last_activity = ie_later e,
                                  fs_marked_for_removal = None, fs_token = token\<rparr>
                      in (Some flow, update_shard i (insert_flow key flow) v))))"

definition shard_client_packet ::
  "v2_config \<Rightarrow> nat \<Rightarrow> inbox_event \<Rightarrow> session_id \<Rightarrow> sock_addr \<Rightarrow> sock_addr \<Rightarrow> original_packet_info \<Rightarrow> nat \<Rightarrow> nat \<Rightarrow> instant
    \<Rightarrow> v2_state \<Rightarrow> v2_state" where
  "shard_client_packet c i e sid client game info payload_idx payload_len enqueued_at v =
     (if should_drop_stale_queued_packet QData enqueued_at (ie_now e) then w_release payload_idx (g_drop_in StaleQueue v)
      else
        let key = (sid, game);
            (flow, v) = (case dm_get (sh_flows (w_shards v ! i)) key of
                Some existing \<Rightarrow> (Some existing, v)
              | None \<Rightarrow> shard_new_flow c i e key client info v)
        in (case flow of
              None \<Rightarrow> w_release payload_idx v
            | Some flow \<Rightarrow>
                let v = update_shard i (put_flow key
                      (flow\<lparr>fs_client_addr := client, fs_original_info := info, fs_last_activity := ie_later e,
                            fs_marked_for_removal := None\<rparr>)) v;
                    data = take payload_len (pool_buffer (w_pool v) payload_idx);
                    v = w_release payload_idx v
                in (case ie_send e of
                      None \<Rightarrow> v\<lparr>v_upstream := v_upstream v @ [(game, data)]\<rparr>
                    | Some err \<Rightarrow> if err = WouldBlock then g_drop_in FlowSend v else v)))"

fun shard_message :: "v2_config \<Rightarrow> nat \<Rightarrow> inbox_event \<Rightarrow> shard_msg \<Rightarrow> v2_state \<Rightarrow> v2_state" where
  "shard_message c i e (ClientPacket sid client game info payload_idx payload_len enqueued_at) v =
     shard_client_packet c i e sid client game info payload_idx payload_len enqueued_at v"
| "shard_message c i e (Keepalive sid client) v = update_shard i (shard_keepalive sid client (ie_later e)) v"
| "shard_message c i e (RemoveSession sid) v = update_shard i (shard_remove_session sid) v"

fun drain_inbox :: "v2_config \<Rightarrow> nat \<Rightarrow> inbox_event list \<Rightarrow> v2_state \<Rightarrow> v2_state" where
  "drain_inbox c i [] v = v"
| "drain_inbox c i (e # es) v =
     (case sh_inbox (w_shards v ! i) of
        [] \<Rightarrow> v
      | msg # rest \<Rightarrow>
          drain_inbox c i es (shard_message c i e msg (update_shard i (\<lambda>sh. sh\<lparr>sh_inbox := rest\<rparr>) v)))"

definition shard_drain :: "v2_config \<Rightarrow> nat \<Rightarrow> inbox_event list \<Rightarrow> v2_state \<Rightarrow> v2_state" where
  "shard_drain c i es v = drain_inbox c i (take MAX_INBOX_DRAIN_BURST es) v"

definition shard_cleanup :: "nat \<Rightarrow> instant \<Rightarrow> v2_state \<Rightarrow> v2_state" where
  "shard_cleanup i now v =
     (if now \<ge> sh_cleanup_at (w_shards v ! i) then
        let v = update_shard i (\<lambda>sh. shard_retain now (sh\<lparr>sh_cleanup_at := now + CLEANUP_INTERVAL\<rparr>)) v
        in v\<lparr>w_flow_counts := (w_flow_counts v)[i := of_nat (dm_len (sh_flows (w_shards v ! i)))]\<rparr>
      else v)"

subsection \<open>The transmit thread\<close>

record tx_event =
  te_now :: instant
  te_now_unix :: nat
  te_mono_ms :: nat
  te_later_unix :: nat
  te_send_ok :: bool

definition send_tx_packet :: "v2_config \<Rightarrow> tx_event \<Rightarrow> tx_packet \<Rightarrow> v2_state \<Rightarrow> v2_state" where
  "send_tx_packet c e packet v =
     (if should_drop_stale_queued_packet (tx_kind packet) (tx_enqueued_at packet) (te_now e) then
        w_release (tx_buf_idx packet) (g_drop_out StaleQueue v)
      else
        let target = (if tx_kind packet = QData
               then forwarding_addr (g_sessions v) (tx_session_id packet) (vc_auth_required c) (te_now_unix e)
               else Some (tx_addr packet))
        in (case target of
              None \<Rightarrow> w_release (tx_buf_idx packet) (g_drop_out Auth v)
            | Some addr \<Rightarrow>
                let frame = take (tx_len packet) (pool_buffer (w_pool v) (tx_buf_idx packet));
                    (within, b) = (if tx_kind packet = QData
                       then account_budget_allow (v_budgets v) (g_sessions v) (tx_session_id packet) True
                              (drop SESSION_ID_LEN frame) (te_mono_ms e)
                       else (True, v_budgets v));
                    v = v\<lparr>v_budgets := b\<rparr>
                in if \<not> within then w_release (tx_buf_idx packet) (g_drop_out RateLimit v)
                   else
                     let v = relay_send addr frame v;
                         v = (if \<not> te_send_ok e then g_drop_out SocketSend v
                              else
                                let v = count_out (tx_session_id packet) (tx_len packet) v
                                in v\<lparr>g_session_traffic := touch_session_traffic (g_session_traffic v)
                                       (tx_session_id packet) (te_later_unix e)\<rparr>)
                     in w_release (tx_buf_idx packet) v))"

text \<open>\<^verbatim>\<open>select_biased\<close>: control packets first.\<close>

definition v2_tx :: "v2_config \<Rightarrow> tx_event \<Rightarrow> v2_state \<Rightarrow> v2_state" where
  "v2_tx c e v =
     (case w_tx_control v of
        packet # rest \<Rightarrow> send_tx_packet c e packet (v\<lparr>w_tx_control := rest\<rparr>)
      | [] \<Rightarrow>
          (case w_tx_data v of
             packet # rest \<Rightarrow> send_tx_packet c e packet (v\<lparr>w_tx_data := rest\<rparr>)
           | [] \<Rightarrow> v))"

subsection \<open>Session cleanup and statistics\<close>

definition lease_grace_secs :: nat where
  "lease_grace_secs = FLOW_GRACE_PERIOD div duration_secs 1 + AUTH_CLOCK_SKEW_SECS"

definition v2_session_gone :: "instant \<Rightarrow> nat \<Rightarrow> session_entry \<Rightarrow> bool" where
  "v2_session_gone now now_unix session \<longleftrightarrow>
     (case lease_expires_at_unix session of
        None \<Rightarrow> False | Some expires_at \<Rightarrow> now_unix \<ge> sat_add64 expires_at lease_grace_secs)
     \<or> now - last_activity session \<ge> SESSION_TIMEOUT + FLOW_GRACE_PERIOD"

definition v2_expire_session :: "v2_config \<Rightarrow> session_id \<times> session_entry \<Rightarrow> v2_state \<Rightarrow> v2_state" where
  "v2_expire_session c entry v =
     (let v = expire_session entry v;
          shard_id = shard_of (fst entry) v
      in if shard_id < length (w_shards v) \<and> shard_has_room c shard_id v
         then push_msg shard_id (RemoveSession (fst entry)) v else v)"

definition v2_cleanup :: "v2_config \<Rightarrow> instant \<Rightarrow> nat \<Rightarrow> v2_state \<Rightarrow> v2_state" where
  "v2_cleanup c now now_unix v =
     (let v = fold (v2_expire_session c) (filter (\<lambda>(sid, s). v2_session_gone now now_unix s) (g_sessions v)) v
      in if vc_tun_present c then v\<lparr>v_tun := remove_expired (dm_contains (g_sessions v)) (v_tun v)\<rparr> else v)"

definition v2_stats :: "v2_state \<Rightarrow> v2_state" where
  "v2_stats v = v\<lparr>g_stats := (g_stats v)\<lparr>active_flows := sum_list (w_flow_counts v)\<rparr>\<rparr>"

subsection \<open>The system\<close>

datatype v2_event =
    V2Rx rx_event
  | V2Readable nat u64 "recv_outcome list"
  | V2Drain nat "inbox_event list"
  | V2ShardCleanup nat instant
  | V2Tx tx_event
  | V2Cleanup instant nat
  | V2Stats
  | V2TunWrite
  | V2TunRead bytes
  | V2TunResponse nat nat bool
  | V2Resolve "string \<Rightarrow> ip_addr list option"
  | V2Maintain nat "string \<Rightarrow> bool"

fun v2_step :: "v2_config \<Rightarrow> v2_event \<Rightarrow> v2_state \<Rightarrow> v2_state" where
  "v2_step c (V2Rx ev) v = v2_rx c (recv_from ev) v"
| "v2_step c (V2Readable i token outcomes) v = (if i < length (w_shards v) then shard_readable c i token outcomes v else v)"
| "v2_step c (V2Drain i es) v = (if i < length (w_shards v) then shard_drain c i es v else v)"
| "v2_step c (V2ShardCleanup i now) v = (if i < length (w_shards v) then shard_cleanup i now v else v)"
| "v2_step c (V2Tx e) v = v2_tx c e v"
| "v2_step c (V2Cleanup now now_unix) v = v2_cleanup c now now_unix v"
| "v2_step c V2Stats v = v2_stats v"
| "v2_step c V2TunWrite v = tun_write_step v"
| "v2_step c (V2TunRead packet) v = tun_read_step packet v"
| "v2_step c (V2TunResponse now_unix mono_ms send_ok) v = tun_response_step c now_unix mono_ms send_ok v"
| "v2_step c (V2Resolve lookup) v = resolve_step lookup v"
| "v2_step c (V2Maintain now in_use) v = v\<lparr>v_budgets := budgets_maintain (v_budgets v) now in_use\<rparr>"

definition v2_init :: "v2_config \<Rightarrow> instant \<Rightarrow> dest_policy \<Rightarrow> budget_policy \<Rightarrow> v2_state" where
  "v2_init c now policy budget = relay.extend (relay_new now policy budget)
     \<lparr>w_pool = pool_new (pool_slots (vc_tuning c)), w_shards = replicate (shard_count (vc_tuning c)) (shard_new now),
      w_flow_counts = replicate (shard_count (vc_tuning c)) 0, w_tx_control = [], w_tx_data = [],
      w_accepted = [], w_received = []\<rparr>"

inductive v2_reach :: "v2_config \<Rightarrow> v2_state \<Rightarrow> v2_state \<Rightarrow> bool" for c v0 where
  v2_start: "v2_reach c v0 v0"
| v2_next: "v2_reach c v0 v \<Longrightarrow> v2_reach c v0 (v2_step c e v)"

end
