(* ===== verification/V2_Invariant.thy ===== *)
theory V2_Invariant
  imports Datapath_V2
begin

text \<open>
  The invariant of the second datapath.  Every buffer of the pool is free, or held by exactly
  one queued packet, or in the hands of the thread that runs; a queued packet's buffer holds
  the bytes it was queued with; the tables of every shard agree and hold only flows of the
  sessions of that shard; the queues are within their capacities.  \<open>v2_inner c H v\<close> is the
  invariant while the buffers in \<open>H\<close> are in hand; every step keeps it with none in hand.
\<close>

section \<open>Who holds a buffer\<close>

fun msg_slots :: "shard_msg \<Rightarrow> nat multiset" where
  "msg_slots (ClientPacket sid client game info payload_idx payload_len enqueued_at) = {#payload_idx#}"
| "msg_slots (Keepalive sid client) = {#}"
| "msg_slots (RemoveSession sid) = {#}"

definition inbox_slots :: "shard \<Rightarrow> nat multiset" where
  "inbox_slots sh = sum_list (map msg_slots (sh_inbox sh))"

definition tx_slots :: "tx_packet list \<Rightarrow> nat multiset" where
  "tx_slots ps = mset (map tx_buf_idx ps)"

definition held_slots :: "shard list \<Rightarrow> tx_packet list \<Rightarrow> tx_packet list \<Rightarrow> nat multiset" where
  "held_slots shards control data = sum_list (map inbox_slots shards) + tx_slots control + tx_slots data"

lemma sum_list_update:
  "i < length xs \<Longrightarrow> sum_list (map f (xs[i := y])) + f (xs ! i) = sum_list (map f xs) + (f y :: 'm :: comm_monoid_add)"
  by (induction xs arbitrary: i) (auto simp: nth_Cons ac_simps split: nat.split)

lemma held_update:
  assumes "i < length shards"
  shows "held_slots (shards[i := sh]) control data + inbox_slots (shards ! i) = held_slots shards control data + inbox_slots sh"
  using sum_list_update [OF assms, of inbox_slots sh] by (simp add: held_slots_def ac_simps)

lemma held_same:
  "i < length shards \<Longrightarrow> sh_inbox sh = sh_inbox (shards ! i) \<Longrightarrow> held_slots (shards[i := sh]) control data = held_slots shards control data"
  using held_update [of i shards sh control data] by (simp add: inbox_slots_def)

lemma tx_slots_append [simp]: "tx_slots (ps @ [p]) = add_mset (tx_buf_idx p) (tx_slots ps)"
  "tx_slots (p # ps) = add_mset (tx_buf_idx p) (tx_slots ps)" "tx_slots [] = {#}"
  by (simp_all add: tx_slots_def)

section \<open>The parts\<close>

definition in_shard :: "nat \<Rightarrow> nat \<Rightarrow> session_id \<Rightarrow> bool" where
  "in_shard n i sid \<longleftrightarrow> shard_for_session sid n = i"

fun msg_ok :: "buffer_pool \<Rightarrow> (session_id \<times> sock_addr \<times> bytes) list \<Rightarrow> nat \<Rightarrow> nat \<Rightarrow> shard_msg \<Rightarrow> bool" where
  "msg_ok pool accepted n i (ClientPacket sid client game info payload_idx payload_len enqueued_at) \<longleftrightarrow>
     in_shard n i sid \<and> length sid = SESSION_ID_LEN \<and> allowed_endpoint game \<and> info_server info = game \<and>
     (sid, game, take payload_len (pool_buffer pool payload_idx)) \<in> set accepted"
| "msg_ok pool accepted n i (Keepalive sid client) \<longleftrightarrow> in_shard n i sid"
| "msg_ok pool accepted n i (RemoveSession sid) \<longleftrightarrow> in_shard n i sid"

definition flows_home :: "nat \<Rightarrow> nat \<Rightarrow> shard \<Rightarrow> bool" where
  "flows_home n i sh \<longleftrightarrow>
     (\<forall>key f. dm_get (sh_flows sh) key = Some f \<longrightarrow>
        in_shard n i (fst key) \<and> length (fst key) = SESSION_ID_LEN \<and> allowed_endpoint (snd key) \<and>
        info_server (fs_original_info f) = snd key)"

definition shard_ok ::
  "nat \<Rightarrow> buffer_pool \<Rightarrow> (session_id \<times> sock_addr \<times> bytes) list \<Rightarrow> nat \<Rightarrow> nat \<Rightarrow> shard \<Rightarrow> bool" where
  "shard_ok cap pool accepted n i sh \<longleftrightarrow> tables_ok sh \<and> flows_home n i sh \<and> length (sh_inbox sh) \<le> cap \<and>
     (\<forall>msg \<in> set (sh_inbox sh). msg_ok pool accepted n i msg)"

text \<open>
  A queued response is the session identifier and a packet around a datagram received for
  that session, with the address of the server it came from as its source.
\<close>

definition data_ok :: "buffer_pool \<Rightarrow> (session_id \<times> sock_addr \<times> bytes) list \<Rightarrow> tx_packet \<Rightarrow> bool" where
  "data_ok pool received p \<longleftrightarrow> tx_kind p = QData \<and>
     (\<exists>payload info tos. (tx_session_id p, info_server info, payload) \<in> set received \<and>
        take (tx_len p) (pool_buffer pool (tx_buf_idx p)) =
          tx_session_id p @ build_response_ip_packet_with_tos payload info tos)"

definition v2_parts_ok ::
  "v2_tuning \<Rightarrow> nat multiset \<Rightarrow> buffer_pool \<Rightarrow> shard list \<Rightarrow> u64 list \<Rightarrow> tx_packet list \<Rightarrow> tx_packet list
    \<Rightarrow> (session_id \<times> sock_addr \<times> bytes) list \<Rightarrow> (session_id \<times> sock_addr \<times> bytes) list \<Rightarrow> bool" where
  "v2_parts_ok t H pool shards counts control data accepted received \<longleftrightarrow>
     pool.sound pool (H + held_slots shards control data) \<and> buffers_sized pool \<and> length (pool_buffers pool) = pool_slots t \<and>
     length shards = shard_count t \<and> length counts = shard_count t \<and>
     (\<forall>i < length shards. shard_ok (shard_queue_cap t) pool accepted (shard_count t) i (shards ! i)) \<and>
     length control \<le> tx_queue_cap t \<and> length data \<le> tx_queue_cap t \<and>
     (\<forall>p \<in> set control. tx_kind p = QControl) \<and> (\<forall>p \<in> set data. data_ok pool received p)"

text \<open>What has gone to a game server is a payload the receive thread accepted for that server.\<close>

definition upstream_accepted :: "(sock_addr \<times> bytes) list \<Rightarrow> (session_id \<times> sock_addr \<times> bytes) list \<Rightarrow> bool" where
  "upstream_accepted upstream accepted \<longleftrightarrow> (\<forall>x \<in> set upstream. \<exists>sid. (sid, fst x, snd x) \<in> set accepted)"

definition v2_inner :: "v2_config \<Rightarrow> nat multiset \<Rightarrow> v2_state \<Rightarrow> bool" where
  "v2_inner c H v \<longleftrightarrow> io_ok v \<and> upstream_accepted (v_upstream v) (w_accepted v) \<and>
     v2_parts_ok (vc_tuning c) H (w_pool v) (w_shards v) (w_flow_counts v) (w_tx_control v) (w_tx_data v)
       (w_accepted v) (w_received v)"

definition v2_ok :: "v2_config \<Rightarrow> v2_state \<Rightarrow> bool" where
  "v2_ok c v \<longleftrightarrow> gate_ok v \<and> v2_inner c {#} v"

section \<open>Buffers in hand\<close>

lemma in_sum_list: "x \<in># sum_list ms \<longleftrightarrow> (\<exists>m \<in> set ms. x \<in># m)"
  by (induction ms) auto

lemma held_member:
  assumes "i < length shards" "ClientPacket sid client game info idx len t \<in> set (sh_inbox (shards ! i))"
  shows "idx \<in># held_slots shards control data"
proof -
  have "idx \<in># msg_slots (ClientPacket sid client game info idx len t)" by simp
  then have "idx \<in># inbox_slots (shards ! i)" using assms(2) unfolding inbox_slots_def in_sum_list set_map by blast
  then show ?thesis using assms(1) by (force simp: held_slots_def in_sum_list)
qed

text \<open>A change of the pool that keeps the buffers of the queued packets keeps the packets as they are.\<close>

lemma parts_pool:
  assumes "v2_parts_ok t H pool shards counts control data accepted received"
    and "pool.sound pool' (H' + held_slots shards control data)" "buffers_sized pool'"
    and "length (pool_buffers pool') = length (pool_buffers pool)"
    and same: "\<And>j. j \<in># held_slots shards control data \<Longrightarrow> pool_buffer pool' j = pool_buffer pool j"
  shows "v2_parts_ok t H' pool' shards counts control data accepted received"
proof -
  have "msg_ok pool' accepted n i msg"
    if "i < length shards" "msg \<in> set (sh_inbox (shards ! i))" "msg_ok pool accepted n i msg" for n i msg
  proof (cases msg)
    case (ClientPacket sid client game info idx len t)
    then show ?thesis using that same [OF held_member [of i shards sid client game info idx len t]] by simp
  qed (use that in simp_all)
  then have "\<forall>i < length shards. shard_ok (shard_queue_cap t) pool' accepted (shard_count t) i (shards ! i)"
    using assms(1) by (simp add: v2_parts_ok_def shard_ok_def)
  moreover have "\<forall>p \<in> set data. data_ok pool' received p"
  proof
    fix p assume p: "p \<in> set data"
    then have "tx_buf_idx p \<in># held_slots shards control data" by (simp add: held_slots_def tx_slots_def)
    then show "data_ok pool' received p" using assms(1) p same by (simp add: v2_parts_ok_def data_ok_def)
  qed
  ultimately show ?thesis using assms(1-4) by (simp add: v2_parts_ok_def)
qed

lemma inner_acquire:
  assumes "v2_inner c H v" "pool_try_acquire (w_pool v) = Some (i, pool)"
  shows "v2_inner c (add_mset i H) (v\<lparr>w_pool := pool\<rparr>)"
proof -
  let ?h = "held_slots (w_shards v) (w_tx_control v) (w_tx_data v)"
  have p: "v2_parts_ok (vc_tuning c) H (w_pool v) (w_shards v) (w_flow_counts v) (w_tx_control v) (w_tx_data v)
      (w_accepted v) (w_received v)" and io: "io_ok v" "upstream_accepted (v_upstream v) (w_accepted v)"
    using assms(1) by (simp_all add: v2_inner_def)
  have "pool.sound pool (add_mset i H + ?h)"
    using pool.sound_acquire(1) [OF _ assms(2)] p by (simp add: v2_parts_ok_def)
  moreover have "buffers_sized pool" using p buffers_sized_ops(1) [OF _ assms(2)] by (simp add: v2_parts_ok_def)
  ultimately have "v2_parts_ok (vc_tuning c) (add_mset i H) pool (w_shards v) (w_flow_counts v) (w_tx_control v) (w_tx_data v)
      (w_accepted v) (w_received v)"
    by (intro parts_pool [OF p]) (use pool.acquire_same [OF assms(2)] in simp_all)
  then show ?thesis using io by (simp add: v2_inner_def io_ok_def)
qed

lemma inner_fill:
  assumes "v2_inner c (add_mset i H) v" "length d \<le> MAX_PACKET_SIZE"
  shows "v2_inner c (add_mset i H) (v\<lparr>w_pool := pool_write i d (w_pool v)\<rparr>)"
proof -
  let ?h = "held_slots (w_shards v) (w_tx_control v) (w_tx_data v)"
  have p: "v2_parts_ok (vc_tuning c) (add_mset i H) (w_pool v) (w_shards v) (w_flow_counts v) (w_tx_control v) (w_tx_data v)
      (w_accepted v) (w_received v)" and io: "io_ok v" "upstream_accepted (v_upstream v) (w_accepted v)"
    using assms(1) by (simp_all add: v2_inner_def)
  then have s: "pool.sound (w_pool v) (add_mset i (H + ?h))" "buffers_sized (w_pool v)" by (simp_all add: v2_parts_ok_def)
  have i: "i < length (pool_buffers (w_pool v))" using pool.sound_once(2) [OF s(1)] by simp
  have "v2_parts_ok (vc_tuning c) (add_mset i H) (pool_write i d (w_pool v)) (w_shards v) (w_flow_counts v) (w_tx_control v)
      (w_tx_data v) (w_accepted v) (w_received v)"
  proof (rule parts_pool [OF p])
    show "pool_buffer (pool_write i d (w_pool v)) j = pool_buffer (w_pool v) j" if "j \<in># ?h" for j
      using pool.fill_buffer [OF i, of d j] pool.sound_hand_other [OF s(1), of j] that by simp
  qed (use s i assms(2) in \<open>simp_all add: pool.sound_fill buffers_sized_ops(3)\<close>)
  then show ?thesis using io by (simp add: v2_inner_def io_ok_def)
qed

lemma inner_slot: "v2_inner c (add_mset i H) v \<Longrightarrow> i < length (pool_buffers (w_pool v))"
  using pool.sound_once(2) [of "w_pool v" _ i] by (fastforce simp: v2_inner_def v2_parts_ok_def)

lemma inner_filled:
  "v2_inner c (add_mset i H) v \<Longrightarrow>
     pool_buffer (pool_write i d (w_pool v)) i = d @ drop (length d) (pool_buffer (w_pool v) i)"
  using pool.fill_buffer [OF inner_slot] by simp

lemma inner_release:
  assumes "v2_inner c (add_mset i H) v"
  shows "v2_inner c H (w_release i v)"
proof -
  have p: "v2_parts_ok (vc_tuning c) (add_mset i H) (w_pool v) (w_shards v) (w_flow_counts v) (w_tx_control v) (w_tx_data v)
      (w_accepted v) (w_received v)" and io: "io_ok v" "upstream_accepted (v_upstream v) (w_accepted v)"
    using assms(1) by (simp_all add: v2_inner_def)
  have "v2_parts_ok (vc_tuning c) H (pool_release i (w_pool v)) (w_shards v) (w_flow_counts v) (w_tx_control v) (w_tx_data v)
      (w_accepted v) (w_received v)"
  proof (rule parts_pool [OF p])
    show "pool.sound (pool_release i (w_pool v)) (H + held_slots (w_shards v) (w_tx_control v) (w_tx_data v))"
      using p by (intro pool.sound_release) (simp add: v2_parts_ok_def)
  qed (use p pool.release_same in \<open>simp_all add: v2_parts_ok_def buffers_sized_ops(2)\<close>)
  then show ?thesis using io by (simp add: w_release_def v2_inner_def io_ok_def)
qed

section \<open>Queues and tables\<close>

lemma inner_shared:
  "v2_inner c H v \<Longrightarrow> io_ok w \<Longrightarrow> relay.more w = relay.more v \<Longrightarrow> v_upstream w = v_upstream v \<Longrightarrow> v2_inner c H w"
  by (cases v; cases w) (simp add: v2_inner_def)

lemma inner_io: "v2_inner c H v \<Longrightarrow> io_ok v"
  by (simp add: v2_inner_def)

text \<open>A change of one shard that accounts for the buffers of its inbox.\<close>

lemma inner_shard:
  assumes "v2_inner c H v" "i < length (w_shards v)"
    and "shard_ok (shard_queue_cap (vc_tuning c)) (w_pool v) (w_accepted v) (shard_count (vc_tuning c)) i (f (w_shards v ! i))"
    and "H' + inbox_slots (f (w_shards v ! i)) = H + inbox_slots (w_shards v ! i)"
  shows "v2_inner c H' (update_shard i f v)"
proof -
  let ?sh = "f (w_shards v ! i)"
  have "H' + held_slots ((w_shards v)[i := ?sh]) k d = H + held_slots (w_shards v) k d" for k d
  proof (rule multiset_eqI)
    fix x
    show "count (H' + held_slots ((w_shards v)[i := ?sh]) k d) x = count (H + held_slots (w_shards v) k d) x"
      using arg_cong [OF held_update [OF assms(2), of ?sh k d], of "\<lambda>m. count m x"]
        arg_cong [OF assms(4), of "\<lambda>m. count m x"] by simp
  qed
  then show ?thesis
    using assms(1-3) by (auto simp: v2_inner_def v2_parts_ok_def update_shard_def io_ok_def nth_list_update)
qed

lemma inner_shard_at:
  "v2_inner c H v \<Longrightarrow> i < length (w_shards v) \<Longrightarrow>
     shard_ok (shard_queue_cap (vc_tuning c)) (w_pool v) (w_accepted v) (shard_count (vc_tuning c)) i (w_shards v ! i)"
  by (simp add: v2_inner_def v2_parts_ok_def)

text \<open>A change of the tables of a shard only.\<close>

lemma inner_tables:
  assumes "v2_inner c H v" "i < length (w_shards v)" "tables_ok (f (w_shards v ! i))"
    and "sh_inbox (f (w_shards v ! i)) = sh_inbox (w_shards v ! i)" "flows_home (shard_count (vc_tuning c)) i (f (w_shards v ! i))"
  shows "v2_inner c H (update_shard i f v)"
  using assms inner_shard_at [OF assms(1,2)]
  by (intro inner_shard) (simp_all add: shard_ok_def inbox_slots_def)

lemma inner_pop_msg:
  assumes "v2_inner c H v" "i < length (w_shards v)" "sh_inbox (w_shards v ! i) = msg # rest"
  shows "v2_inner c (H + msg_slots msg) (update_shard i (\<lambda>sh. sh\<lparr>sh_inbox := rest\<rparr>) v)"
    "msg_ok (w_pool v) (w_accepted v) (shard_count (vc_tuning c)) i msg"
proof -
  have sh: "shard_ok (shard_queue_cap (vc_tuning c)) (w_pool v) (w_accepted v) (shard_count (vc_tuning c)) i (w_shards v ! i)"
    by (rule inner_shard_at [OF assms(1,2)])
  then show "msg_ok (w_pool v) (w_accepted v) (shard_count (vc_tuning c)) i msg" using assms(3) by (simp add: shard_ok_def)
  show "v2_inner c (H + msg_slots msg) (update_shard i (\<lambda>sh. sh\<lparr>sh_inbox := rest\<rparr>) v)"
    using sh assms(3)
    by (intro inner_shard [OF assms(1,2)]) (simp_all add: shard_ok_def tables_ok_def flows_home_def inbox_slots_def)
qed

lemma inner_push_msg:
  assumes "v2_inner c (H + msg_slots msg) v" "i < length (w_shards v)" "shard_has_room c i v"
    and "msg_ok (w_pool v) (w_accepted v) (shard_count (vc_tuning c)) i msg"
  shows "v2_inner c H (push_msg i msg v)"
  unfolding push_msg_def using inner_shard_at [OF assms(1,2)] assms(3,4)
  by (intro inner_shard [OF assms(1,2)])
    (auto simp: shard_ok_def tables_ok_def flows_home_def inbox_slots_def shard_has_room_def ac_simps)

lemma inner_accept:
  assumes "v2_inner c H v"
  shows "v2_inner c H (v\<lparr>w_accepted := w_accepted v @ [x]\<rparr>)"
proof -
  have "msg_ok pool (acc @ [x]) n i msg" if "msg_ok pool acc n i msg" for pool acc n i msg
    using that by (cases msg) auto
  then show ?thesis using assms by (auto simp: v2_inner_def v2_parts_ok_def io_ok_def shard_ok_def upstream_accepted_def)
qed

lemma inner_received:
  assumes "v2_inner c H v"
  shows "v2_inner c H (v\<lparr>w_received := w_received v @ [r]\<rparr>)"
proof -
  have "data_ok pool (rs @ [r]) p" if "data_ok pool rs p" for pool rs p
    using that unfolding data_ok_def by fastforce
  then show ?thesis using assms by (auto simp: v2_inner_def v2_parts_ok_def io_ok_def)
qed

lemma inner_drops [simp]: "v2_inner c H (g_drop_in r v) = v2_inner c H v" "v2_inner c H (g_drop_out r v) = v2_inner c H v"
  "v2_inner c H (pool_dry v) = v2_inner c H v"
  by (simp_all add: v2_inner_def io_ok_def g_drop_in_def g_drop_out_def pool_dry_def)

lemma inner_send_control:
  assumes "v2_inner c (add_mset (tx_buf_idx p) H) v" "tx_kind p = QControl"
  shows "v2_inner c H (send_control c p v)"
proof (cases "length (w_tx_control v) < tx_queue_cap (vc_tuning c)")
  case True
  then show ?thesis
    using assms by (auto simp: send_control_def v2_inner_def v2_parts_ok_def io_ok_def held_slots_def)
next
  case False
  then show ?thesis using assms(1) by (simp add: send_control_def inner_release)
qed

lemma inner_send_data:
  assumes "v2_inner c (add_mset (tx_buf_idx p) H) v" "data_ok (w_pool v) (w_received v) p"
  shows "v2_inner c H (send_data c p v)"
proof (cases "length (w_tx_data v) < tx_queue_cap (vc_tuning c)")
  case True
  then show ?thesis
    using assms by (auto simp: send_data_def v2_inner_def v2_parts_ok_def io_ok_def held_slots_def)
next
  case False
  then show ?thesis using assms(1) by (simp add: send_data_def inner_release)
qed

lemma inner_pop_control:
  assumes "v2_inner c H v" "w_tx_control v = p # rest"
  shows "v2_inner c (add_mset (tx_buf_idx p) H) (v\<lparr>w_tx_control := rest\<rparr>)"
  using assms by (auto simp: v2_inner_def v2_parts_ok_def io_ok_def held_slots_def)

lemma inner_pop_data:
  assumes "v2_inner c H v" "w_tx_data v = p # rest"
  shows "v2_inner c (add_mset (tx_buf_idx p) H) (v\<lparr>w_tx_data := rest\<rparr>)" "data_ok (w_pool v) (w_received v) p"
  using assms by (auto simp: v2_inner_def v2_parts_ok_def io_ok_def held_slots_def)

section \<open>Admission\<close>

lemma v2_verify_eq: "v2_verify c ev v = rx_verify (v2_ack c (ev_later ev)) (vc_rx c) ev v"
  by (simp add: v2_verify_def rx_verify_def v2_ack_def split_beta Let_def split: sum.split)

lemma v2_auth_check_eq: "v2_auth_check c ev t v = rx_auth_check (v2_ack c (ev_later ev)) (vc_rx c) ev t v"
  by (simp add: v2_auth_check_def rx_auth_check_def v2_ack_def split_beta Let_def)

lemma v2_admit_eq: "v2_admit ev v = rx_admit ev v"
  by (simp add: v2_admit_def rx_admit_def v1_session_capacity_available_def g_drop_in_def split_beta Let_def)

lemma v2_touch_session_eq: "v2_touch_session c ev v = rx_touch_session (vc_rx c) ev v"
  by (simp add: v2_touch_session_def rx_touch_session_def Let_def split: option.split)

lemma v2_hello_eq: "v2_hello c ev t v = rx_hello (v2_ack c (ev_later ev)) (vc_rx c) ev t v"
  by (simp add: v2_hello_def rx_hello_def v2_ack_def Let_def split: option.split)

text \<open>The admission of the second datapath is that of the first with its own way to acknowledge.\<close>

lemma v2_gate_eq: "v2_gate c ev v = rx_gate (v2_ack c (ev_later ev)) (vc_rx c) ev v"
  unfolding v2_gate_def rx_gate_def v2_verify_eq v2_auth_check_eq v2_admit_eq v2_touch_session_eq v2_hello_eq ..

lemma gate_ok_queues [simp]:
  "gate_ok (w_release i v) = gate_ok v" "gate_ok (pool_dry v) = gate_ok v" "gate_ok (update_shard i f v) = gate_ok v"
  "gate_ok (v\<lparr>w_pool := pool\<rparr>) = gate_ok v" "gate_ok (v\<lparr>w_accepted := acc\<rparr>) = gate_ok v" "gate_ok (v\<lparr>w_received := rs\<rparr>) = gate_ok v"
  "gate_ok (v\<lparr>w_tx_control := ps\<rparr>) = gate_ok v" "gate_ok (v\<lparr>w_tx_data := ps\<rparr>) = gate_ok v"
  by (simp_all add: gate_ok_def w_release_def pool_dry_def update_shard_def)

lemma gate_ok_sends [simp]: "gate_ok (send_control c p v) = gate_ok v" "gate_ok (send_data c p v) = gate_ok v"
  by (simp_all add: send_control_def send_data_def)

lemma tables_queues [simp]:
  "same_tables (w_release i v) w = same_tables v w" "same_tables (pool_dry v) w = same_tables v w"
  "same_tables (send_control c p v) w = same_tables v w" "same_tables (v\<lparr>w_pool := pool\<rparr>) w = same_tables v w"
  by (simp_all add: same_tables_def w_release_def pool_dry_def send_control_def g_drop_out_def)

interpretation v2: ack_channel "v2_ack c now" for c now
  by unfold_locales
    (simp_all add: v2_ack_def send_small_control_frame_def split: option.split, simp add: same_tables_def)

lemma inner_control_frame:
  assumes "v2_inner c {#} v" "length frame \<le> MAX_PACKET_SIZE" "pool_try_acquire (w_pool v) = Some (i, pool)"
    and "tx_buf_idx p = i" "tx_kind p = QControl"
  shows "v2_inner c {#} (send_control c p (v\<lparr>w_pool := pool_write i frame pool\<rparr>))"
  using inner_fill [OF inner_acquire [OF assms(1,3)] assms(2)] assms(4,5) by (intro inner_send_control) simp_all

lemma inner_ack:
  assumes "v2_inner c {#} v" "length sid \<le> SESSION_ID_LEN"
  shows "v2_inner c {#} (v2_ack c now addr sid status v)"
  using assms
  by (auto simp: v2_ack_def send_small_control_frame_def SESSION_ID_LEN_def MAX_PACKET_SIZE_def intro!: inner_control_frame
      split: option.split)

interpretation v2_inner: gate_frame "v2_ack c now" "\<lambda>v. v2_inner c {#} v \<and> length sid \<le> SESSION_ID_LEN" addr sid for c now addr sid
  by unfold_locales (simp_all add: inner_ack, simp_all add: v2_inner_def io_ok_def)

lemma v2_ok_gate: "v2_ok c v \<Longrightarrow> v2_ok c (snd (v2_gate c ev v))"
  using v2.rx_gate_ok [of v c "ev_later ev" "vc_rx c" ev]
    v2_inner.frame_rx_gate [of ev "ev_addr ev" "ev_sid ev" c v "ev_later ev" "vc_rx c"]
  by (simp add: v2_ok_def v2_gate_eq ev_sid_def)

text \<open>What admission leaves alone: all but the tables, the pool and the control queue, and that only grows by
  acknowledgements to the sender.\<close>

definition v2_rest :: "v2_state \<Rightarrow> v2_state" where
  "v2_rest v = v\<lparr>g_sessions := [], g_source_session_counts := [], g_session_traffic := [], g_stats := stats_new,
     g_source_limiter := source_rate_limiter_new 0, g_pending_auth := [], g_replay_cache := replay_cache_new,
     w_pool := pool_new 0, w_tx_control := []\<rparr>"

definition control_to :: "sock_addr \<Rightarrow> tx_packet list \<Rightarrow> v2_state \<Rightarrow> bool" where
  "control_to addr ps v \<longleftrightarrow> (\<exists>qs. w_tx_control v = ps @ qs \<and> (\<forall>q \<in> set qs. tx_addr q = addr))"

lemma v2_rest_queues [simp]:
  "v2_rest (w_release i v) = v2_rest v" "v2_rest (pool_dry v) = v2_rest v" "v2_rest (send_control c p v) = v2_rest v"
  "v2_rest (v\<lparr>w_pool := pool\<rparr>) = v2_rest v" "v2_rest (g_drop_in r v) = v2_rest v" "v2_rest (g_drop_out r v) = v2_rest v"
  by (simp_all add: v2_rest_def w_release_def pool_dry_def send_control_def g_drop_in_def g_drop_out_def)

lemma control_to_queues [simp]:
  "control_to addr ps (w_release i v) = control_to addr ps v" "control_to addr ps (pool_dry v) = control_to addr ps v"
  "control_to addr ps (v\<lparr>w_pool := pool\<rparr>) = control_to addr ps v" "control_to addr ps (g_drop_out r v) = control_to addr ps v"
  by (simp_all add: control_to_def w_release_def pool_dry_def g_drop_out_def)

lemma control_to_send: "control_to addr ps v \<Longrightarrow> tx_addr p = addr \<Longrightarrow> control_to addr ps (send_control c p v)"
  unfolding send_control_def by (cases "length (w_tx_control v) < tx_queue_cap (vc_tuning c)") (force simp: control_to_def, simp)

lemma ack_rest:
  assumes "v2_rest v = r \<and> control_to addr ps v"
  shows "v2_rest (v2_ack c now addr sid status v) = r \<and> control_to addr ps (v2_ack c now addr sid status v)"
  using assms by (auto simp: v2_ack_def send_small_control_frame_def intro!: control_to_send split: option.split)

interpretation v2_frame: gate_frame "v2_ack cfg now" "\<lambda>v. v2_rest v = r \<and> control_to addr ps v" addr sid for cfg now r addr sid ps
  by unfold_locales (fact ack_rest, simp_all add: v2_rest_def control_to_def)

lemma v2_gate_frame:
  "v2_rest (snd (v2_gate c ev v)) = v2_rest v" "control_to (ev_addr ev) (w_tx_control v) (snd (v2_gate c ev v))"
  using v2_frame.frame_rx_gate [where r = "v2_rest v" and addr = "ev_addr ev" and sid = "ev_sid ev" and ps = "w_tx_control v" and ev = ev
      and g = v and cfg = c and c = "vc_rx c" and now = "ev_later ev"]
  by (simp_all add: v2_gate_eq control_to_def)

section \<open>The receive thread\<close>

lemma v2_ok_shared:
  "v2_ok c v \<Longrightarrow> relay_ok w \<Longrightarrow> relay.more w = relay.more v \<Longrightarrow> v_upstream w = v_upstream v \<Longrightarrow> v2_ok c w"
  using inner_shared [of c "{#}" v w] by (simp add: v2_ok_def relay_ok_def)

lemma v2_ok_relay: "v2_ok c v \<Longrightarrow> relay_ok v"
  by (simp add: v2_ok_def v2_inner_def relay_ok_def)

lemma v2_ok_drops [simp]: "v2_ok c (g_drop_in r v) = v2_ok c v" "v2_ok c (g_drop_out r v) = v2_ok c v"
  "v2_ok c (pool_dry v) = v2_ok c v"
  by (simp_all add: v2_ok_def)

lemma v2_ok_steps:
  assumes "v2_ok c v"
  shows "v2_ok c (count_out sid n v)" "v2_ok c (rtt_report ev v)" "v2_ok c (resolve_request ev v)"
    "v2_ok c (set_user sid ip v)" "packet_ok raw \<Longrightarrow> v2_ok c (tun_send c' tcp ev raw v)"
    "v2_ok c (touch_session sid now now_unix v)" "v2_ok c (tun_response_step c' now_unix ms ok v)"
    "v2_ok c (tun_write_step v)" "v2_ok c (tun_read_step p v)" "v2_ok c (resolve_step lookup v)"
    "v2_ok c (snd (g_allow_source_event a k now v))" "v2_ok c (relay_send a frame v)"
    "budgets_ok b \<Longrightarrow> v2_ok c (v\<lparr>v_budgets := b\<rparr>)" "v2_ok c (v\<lparr>v_policy := pol\<rparr>)"
  using assms v2_ok_relay [OF assms]
  by (auto intro!: v2_ok_shared [OF assms] relay_ok_count_out relay_ok_rtt relay_ok_resolve relay_ok_set_user relay_ok_tun_send
      relay_ok_touch relay_ok_tun_response relay_ok_tun_write relay_ok_tun_read relay_ok_resolve_step
      relay_ok_source_event relay_ok_budgets)

lemma length_pong_reply: "length (ev_frame ev) = PING_FRAME_LEN \<Longrightarrow> length (pong_reply (ev_frame ev) ms) \<le> MAX_PACKET_SIZE"
  using pong_reply_bytes [of "ev_frame ev" ms]
  by (simp add: PING_FRAME_LEN_def SESSION_ID_LEN_def MAX_PACKET_SIZE_def)

lemma v2_ok_ping: "v2_ok c v \<Longrightarrow> ev_len ev = PING_FRAME_LEN \<Longrightarrow> v2_ok c (v2_ping c ev v)"
  using length_pong_reply [of ev "ev_mono_ms ev"]
  by (auto simp: v2_ping_def v2_ok_def ev_len_def intro!: inner_control_frame split: option.split)

lemma v2_ok_keepalive: "v2_ok c v \<Longrightarrow> v2_ok c (v2_keepalive c ev v)"
proof -
  assume v: "v2_ok c v"
  let ?i = "shard_of (ev_sid ev) v"
  have n: "length (w_shards v) = shard_count (vc_tuning c)" using v by (simp add: v2_ok_def v2_inner_def v2_parts_ok_def)
  have "v2_inner c {#} (push_msg ?i (Keepalive (ev_sid ev) (ev_addr ev)) v)" if "?i < length (w_shards v)" "shard_has_room c ?i v"
    using v that n by (intro inner_push_msg) (simp_all add: v2_ok_def in_shard_def shard_of_def)
  then show ?thesis using v by (auto simp: v2_keepalive_def Let_def v2_ok_def push_msg_def)
qed

lemma v2_ok_udp:
  assumes "v2_ok c v" "allowed_endpoint game" "length payload \<le> MAX_PACKET_SIZE" "length (ev_sid ev) = SESSION_ID_LEN"
    and "info_server info = game"
  shows "v2_ok c (v2_udp c ev game payload info v)"
proof -
  let ?u = "set_user (ev_sid ev) (oi_src_ip info) v"
  have u: "v2_ok c ?u" using assms(1) by (rule v2_ok_steps)
  show ?thesis
  proof (cases "pool_try_acquire (w_pool ?u)")
    case None
    then show ?thesis using u by (simp add: v2_udp_def Let_def)
  next
    case (Some a)
    obtain i pool where a: "a = (i, pool)" by (cases a)
    let ?w = "?u\<lparr>w_pool := pool_write i payload pool\<rparr>" and ?k = "shard_of (ev_sid ev) ?u"
    let ?acc = "?w\<lparr>w_accepted := w_accepted ?w @ [(ev_sid ev, game, payload)]\<rparr>"
    let ?msg = "ClientPacket (ev_sid ev) (ev_addr ev) game info i (length payload) (ev_now ev)"
    have p: "v2_inner c {#i#} (?u\<lparr>w_pool := pool\<rparr>)"
      using inner_acquire [of c "{#}" ?u i pool] u Some a by (simp add: v2_ok_def)
    have w: "v2_inner c {#i#} ?w" using inner_fill [OF p assms(3)] by simp
    have buf: "take (length payload) (pool_buffer (pool_write i payload pool) i) = payload" using inner_filled [OF p, of payload] by simp
    have n: "length (w_shards ?u) = shard_count (vc_tuning c)" using u by (simp add: v2_ok_def v2_inner_def v2_parts_ok_def)
    have push: "v2_inner c {#} (push_msg ?k ?msg ?acc)" if "?k < length (w_shards ?u)" "shard_has_room c ?k ?u"
    proof (rule inner_push_msg)
      show "v2_inner c ({#} + msg_slots ?msg) ?acc" using inner_accept [OF w] by simp
      show "shard_has_room c ?k ?acc" using that by (simp add: shard_has_room_def)
      show "msg_ok (w_pool ?acc) (w_accepted ?acc) (shard_count (vc_tuning c)) ?k ?msg"
        using buf assms(2,4,5) n by (simp add: in_shard_def shard_of_def)
    qed (use that in simp)
    have drop: "v2_inner c {#} (w_release i (g_drop_in ShardQueue ?w))" using w by (intro inner_release) simp
    have g: "gate_ok ?u" using u by (simp add: v2_ok_def)
    show ?thesis
      using Some a push drop g
      by (simp add: v2_udp_def Let_def v2_ok_def shard_of_def shard_has_room_def push_msg_def)
  qed
qed

lemma v2_ok_forward:
  assumes "v2_ok c v" "parse_ip_packet_full pol p = (Some r, pol')" "length p \<le> MAX_PACKET_SIZE"
    and "length (ev_sid ev) = SESSION_ID_LEN"
  shows "v2_ok c (v2_forward c ev r v)"
  using parsed_packet_ok [OF assms(2)] parse_result [OF assms(2)] assms(1,3,4)
  by (auto simp: v2_ok_steps hdr_info_def info_server_def intro!: v2_ok_udp)

lemma v2_ok_payload:
  assumes "v2_ok c v" "ev_len ev \<le> MAX_PACKET_SIZE" "SESSION_ID_LEN \<le> ev_len ev"
  shows "v2_ok c (v2_payload c ev v)"
proof -
  let ?p = "drop SESSION_ID_LEN (ev_frame ev)"
  obtain r pol where r: "parse_ip_packet_full (v_policy v) ?p = (r, pol)" by fastforce
  have len: "length ?p \<le> MAX_PACKET_SIZE" "length (ev_sid ev) = SESSION_ID_LEN"
    using assms(2,3) by (simp_all add: ev_len_def ev_sid_def)
  have b: "v2_ok c (v\<lparr>v_policy := pol, v_budgets := b\<rparr>)" if "budgets_ok b" for b
    using v2_ok_steps(13) [OF v2_ok_steps(14) [OF assms(1), of pol], of b] that by simp
  show ?thesis
    using assms(1) r b len relay_ok_balanced(3) [OF v2_ok_relay [OF assms(1)]]
    by (auto simp: v2_payload_def split_beta Let_def account_budget_allow_ok v2_ok_steps
        intro!: v2_ok_forward [of c _ _ _ _ pol] split: option.split)
qed

lemma v2_gate_len: "fst (v2_gate c ev v) = Some a \<Longrightarrow> SESSION_ID_LEN \<le> ev_len ev"
  by (auto simp: v2_gate_def Let_def split: if_splits)

lemma v2_ok_dispatch:
  "v2_ok c v \<Longrightarrow> ev_len ev \<le> MAX_PACKET_SIZE \<Longrightarrow> SESSION_ID_LEN \<le> ev_len ev \<Longrightarrow> v2_ok c (v2_dispatch c ev a v)"
  by (simp add: v2_dispatch_def Let_def v2_ok_ping v2_ok_steps v2_resolve_def v2_ok_keepalive v2_ok_payload)

lemma recv_from_len: "ev_len (recv_from ev) \<le> MAX_PACKET_SIZE"
  by (simp add: recv_from_def ev_len_def)

lemma v2_ok_rx: "v2_ok c v \<Longrightarrow> ev_len ev \<le> MAX_PACKET_SIZE \<Longrightarrow> v2_ok c (v2_rx c ev v)"
  using v2_ok_gate [of c v ev] v2_gate_len [of c ev v]
  by (auto simp: v2_rx_def split_beta v2_ok_dispatch split: option.split)

section \<open>The shards\<close>

lemma shard_at:
  assumes "v2_ok c v" "i < length (w_shards v)"
  shows "tables_ok (w_shards v ! i)" "flows_home (shard_count (vc_tuning c)) i (w_shards v ! i)"
  using inner_shard_at [of c "{#}" v i] assms by (simp_all add: v2_ok_def shard_ok_def)

lemma shard_count_shards [simp]: "length (w_shards (update_shard i f v)) = length (w_shards v)"
  by (simp add: update_shard_def)

lemma update_shard_pool [simp]: "w_pool (update_shard i f v) = w_pool v" "w_accepted (update_shard i f v) = w_accepted v"
  by (simp_all add: update_shard_def)

lemma update_shard_nth [simp]: "i < length (w_shards v) \<Longrightarrow> w_shards (update_shard i f v) ! i = f (w_shards v ! i)"
  by (simp add: update_shard_def)

lemma drops_shards [simp]:
  "w_shards (g_drop_in r v) = w_shards v" "w_pool (g_drop_in r v) = w_pool v" "w_accepted (g_drop_in r v) = w_accepted v"
  "w_tx_data (g_drop_in r v) = w_tx_data v"
  "w_tx_control (g_drop_in r v) = w_tx_control v" "w_shards (w_release k v) = w_shards v"
  by (simp_all add: g_drop_in_def w_release_def)

lemma flows_home_from: "flows_home n i sh \<Longrightarrow> flows_from sh sh' \<Longrightarrow> flows_home n i sh'"
  unfolding flows_home_def flows_from_def by metis

lemma flows_home_get:
  "flows_home n i sh \<Longrightarrow> dm_get (sh_flows sh) key = Some f \<Longrightarrow>
     in_shard n i (fst key) \<and> length (fst key) = SESSION_ID_LEN \<and> allowed_endpoint (snd key) \<and>
     info_server (fs_original_info f) = snd key"
  unfolding flows_home_def by blast

lemma rest_inbox: "shard_rest sh = shard_rest sh' \<Longrightarrow> sh_inbox sh = sh_inbox sh'"
  by (simp add: shard_rest_def)

lemma inner_put_flow:
  assumes "v2_inner c H v" "i < length (w_shards v)" "dm_get (sh_flows (w_shards v ! i)) key = Some f" "fs_token f' = fs_token f"
    and "info_server (fs_original_info f') = snd key"
  shows "v2_inner c H (update_shard i (put_flow key f') v)"
proof -
  have sh: "tables_ok (w_shards v ! i)" "flows_home (shard_count (vc_tuning c)) i (w_shards v ! i)"
    using inner_shard_at [OF assms(1,2)] by (simp_all add: shard_ok_def)
  show ?thesis
  proof (rule inner_tables [OF assms(1,2)])
    show "tables_ok (put_flow key f' (w_shards v ! i))" using sh(1) assms(3,4) by (rule tables_ok_put)
    show "flows_home (shard_count (vc_tuning c)) i (put_flow key f' (w_shards v ! i))"
      by (intro flows_home_from [OF sh(2)] flows_from_put [OF assms(3)]) (use flows_home_get [OF sh(2) assms(3)] assms(5) in simp)
  qed (simp add: put_flow_def)
qed

lemma write_reply:
  assumes "write_response_ip_packet_into_with_tos (drop SESSION_ID_LEN (sid @ rest)) payload info tos = Some (out, n)"
    and "length sid = SESSION_ID_LEN" "length (sid @ rest) = MAX_PACKET_SIZE"
  shows "length (sid @ out) = MAX_PACKET_SIZE"
    "take (SESSION_ID_LEN + n) (sid @ out) = sid @ build_response_ip_packet_with_tos payload info tos"
proof -
  have "drop SESSION_ID_LEN (sid @ rest) = rest" using assms(2) by simp
  then show "length (sid @ out) = MAX_PACKET_SIZE"
    "take (SESSION_ID_LEN + n) (sid @ out) = sid @ build_response_ip_packet_with_tos payload info tos"
    using assms by (auto simp: write_response_layout build_response_layout length_response split: if_splits)
qed

lemma v2_ok_reply:
  fixes c v key flow tos
  assumes "v2_ok c u" "pool_try_acquire (w_pool u) = Some (k, pool)" "length (fst key) = SESSION_ID_LEN"
    and "(fst key, info_server info, payload) \<in> set (w_received u)"
  defines "p \<equiv> pool_write k (fst key) pool"
  shows "v2_ok c (w_release k (u\<lparr>w_pool := p\<rparr>))"
    and "write_response_ip_packet_into_with_tos (drop SESSION_ID_LEN (pool_buffer p k)) payload info tos = Some (out, n) \<Longrightarrow>
      v2_ok c (send_data c \<lparr>tx_addr = addr, tx_session_id = fst key, tx_buf_idx = k, tx_len = SESSION_ID_LEN + n,
        tx_enqueued_at = t, tx_kind = QData\<rparr> (u\<lparr>w_pool := pool_write k (fst key @ out) p\<rparr>))"
proof -
  have a: "v2_inner c {#k#} (u\<lparr>w_pool := pool\<rparr>)" using inner_acquire [of c "{#}" u k pool] assms(1,2) by (simp add: v2_ok_def)
  have w: "v2_inner c {#k#} (u\<lparr>w_pool := p\<rparr>)"
    using inner_fill [OF a, of "fst key"] assms(3) by (simp add: p_def SESSION_ID_LEN_def MAX_PACKET_SIZE_def)
  have "length (pool_buffer pool k) = MAX_PACKET_SIZE"
    using a inner_slot [OF a] buffers_sized_get by (simp add: v2_inner_def v2_parts_ok_def)
  then have size: "length (fst key @ drop SESSION_ID_LEN (pool_buffer pool k)) = MAX_PACKET_SIZE"
    using assms(3) by (simp add: SESSION_ID_LEN_def MAX_PACKET_SIZE_def)
  have buf: "pool_buffer p k = fst key @ drop SESSION_ID_LEN (pool_buffer pool k)"
    using inner_filled [OF a, of "fst key"] assms(3) by (simp add: p_def)
  show "v2_ok c (w_release k (u\<lparr>w_pool := p\<rparr>))" using assms(1) inner_release [OF w] by (simp add: v2_ok_def)
  assume "write_response_ip_packet_into_with_tos (drop SESSION_ID_LEN (pool_buffer p k)) payload info tos = Some (out, n)"
  note r = write_reply [OF this [unfolded buf] assms(3) size]
  have x: "v2_inner c {#k#} (u\<lparr>w_pool := pool_write k (fst key @ out) p\<rparr>)"
    using inner_fill [OF w, of "fst key @ out"] r(1) by simp
  have "take (SESSION_ID_LEN + n) (pool_buffer (pool_write k (fst key @ out) p) k) =
      fst key @ build_response_ip_packet_with_tos payload info tos"
    using inner_filled [OF w, of "fst key @ out"] r size buf by simp
  then have "data_ok (pool_write k (fst key @ out) p) (w_received u) \<lparr>tx_addr = addr, tx_session_id = fst key, tx_buf_idx = k,
      tx_len = SESSION_ID_LEN + n, tx_enqueued_at = t, tx_kind = QData\<rparr>"
    using assms(4) by (simp add: data_ok_def) blast
  then show "v2_ok c (send_data c \<lparr>tx_addr = addr, tx_session_id = fst key, tx_buf_idx = k, tx_len = SESSION_ID_LEN + n,
      tx_enqueued_at = t, tx_kind = QData\<rparr> (u\<lparr>w_pool := pool_write k (fst key @ out) p\<rparr>))"
    using x assms(1) by (simp add: v2_ok_def inner_send_data)
qed

lemma v2_ok_recv:
  assumes "v2_ok c v" "i < length (w_shards v)" "dm_get (sh_flows (w_shards v ! i)) key = Some flow"
  shows "v2_ok c (snd (shard_recv c i key flow outcome v))"
proof (cases outcome)
  case (RecvOk datagram response_tos received_at now_unix later_unix)
  let ?v = "v\<lparr>w_received := w_received v @ [(fst key, snd key, take MAX_PACKET_SIZE datagram)]\<rparr>"
  let ?f = "flow\<lparr>fs_last_activity := received_at, fs_marked_for_removal := None\<rparr>"
  let ?u = "touch_session (fst key) received_at later_unix (update_shard i (put_flow key ?f) ?v)"
  have home: "length (fst key) = SESSION_ID_LEN" "info_server (fs_original_info flow) = snd key"
    using flows_home_get [OF shard_at(2) [OF assms(1,2)] assms(3)] by simp_all
  have v: "v2_ok c ?v" using assms(1) inner_received by (simp add: v2_ok_def)
  have "v2_inner c {#} (update_shard i (put_flow key ?f) ?v)"
    using v assms(2,3) home(2) by (intro inner_put_flow [where f = flow]) (simp_all add: v2_ok_def)
  then have "v2_ok c (update_shard i (put_flow key ?f) ?v)" using v by (simp add: v2_ok_def)
  then have u: "v2_ok c ?u" by (rule v2_ok_steps)
  have received: "(fst key, info_server (fs_original_info flow), take MAX_PACKET_SIZE datagram) \<in> set (w_received ?u)"
    by (simp add: home(2) touch_session_def update_shard_def split: option.split)
  show ?thesis
  proof (cases "pool_try_acquire (w_pool ?u)")
    case None
    then show ?thesis using u v RecvOk by (simp add: shard_recv_def Let_def split: option.split)
  next
    case (Some a)
    obtain k pool where a: "a = (k, pool)" by (cases a)
    note reply = v2_ok_reply [OF u Some [unfolded a] home(1) received]
    show ?thesis using v RecvOk Some a reply by (auto simp: shard_recv_def Let_def split: option.split)
  qed
qed (use assms(1) in \<open>simp add: shard_recv_def\<close>)

lemma recv_shards: "length (w_shards (snd (shard_recv c i key flow outcome v))) = length (w_shards v)"
  by (simp add: shard_recv_def Let_def touch_session_def pool_dry_def w_release_def send_data_def g_drop_out_def split_beta
      split: recv_outcome.split option.split)

lemma v2_ok_burst: "v2_ok c v \<Longrightarrow> i < length (w_shards v) \<Longrightarrow> v2_ok c (recv_burst c i key outcomes v)"
proof (induction outcomes arbitrary: v)
  case (Cons outcome outcomes)
  have "v2_ok c (snd (shard_recv c i key flow outcome v))" "i < length (w_shards (snd (shard_recv c i key flow outcome v)))"
    if "dm_get (sh_flows (w_shards v ! i)) key = Some flow" for flow
    using v2_ok_recv [OF Cons.prems that] Cons.prems recv_shards [of c i key flow outcome v] by simp_all
  then show ?case using Cons by (simp add: split_beta Let_def split: option.split)
qed simp

lemma v2_ok_readable: "v2_ok c v \<Longrightarrow> i < length (w_shards v) \<Longrightarrow> v2_ok c (shard_readable c i token outcomes v)"
  by (simp add: shard_readable_def v2_ok_burst split: option.split)

lemma indexed_count: "(case dm_get m sid of None \<Rightarrow> 0 | Some l \<Rightarrow> length l) = length (indexed m sid)"
  by (simp add: indexed_def split: option.split)

text \<open>A new flow, while the buffer of the packet is in hand.\<close>

lemma new_flow_ok:
  assumes "gate_ok v" "v2_inner c H v" "i < length (w_shards v)" "dm_get (sh_flows (w_shards v ! i)) key = None"
    and "in_shard (shard_count (vc_tuning c)) i (fst key)" "length (fst key) = SESSION_ID_LEN" "allowed_endpoint (snd key)"
    and "info_server info = snd key"
  shows "gate_ok (snd (shard_new_flow c i e key client info v)) \<and> v2_inner c H (snd (shard_new_flow c i e key client info v)) \<and>
    length (w_shards (snd (shard_new_flow c i e key client info v))) = length (w_shards v) \<and>
    w_pool (snd (shard_new_flow c i e key client info v)) = w_pool v \<and>
    w_accepted (snd (shard_new_flow c i e key client info v)) = w_accepted v \<and>
    (\<forall>flow. fst (shard_new_flow c i e key client info v) = Some flow \<longrightarrow>
       dm_get (sh_flows (w_shards (snd (shard_new_flow c i e key client info v)) ! i)) key = Some flow)"
proof -
  let ?sh = "w_shards v ! i" and ?a = "snd (g_allow_source_event client KNewFlow (ie_later e) v)"
  obtain r nt where r: "allocate_flow_token (sh_next_token ?sh) (sh_token_to_flow ?sh) = Some (r, nt)"
    "case r of Some t \<Rightarrow> t \<noteq> 0 \<and> dm_get (sh_token_to_flow ?sh) t = None | None \<Rightarrow> \<forall>t. t \<noteq> 0 \<longrightarrow> dm_get (sh_token_to_flow ?sh) t \<noteq> None"
    using allocate_flow_token_spec [of "sh_next_token ?sh" "sh_token_to_flow ?sh"] by blast
  have rel: "relay_ok v" using assms(1,2) by (simp add: relay_ok_def inner_io)
  have a: "gate_ok ?a" "v2_inner c H ?a" "w_shards ?a = w_shards v" "w_pool ?a = w_pool v" "w_accepted ?a = w_accepted v"
    using relay_ok_source_event [OF rel] inner_shared [OF assms(2), of ?a]
    by (simp_all add: relay_ok_def) (simp_all add: g_allow_source_event_def split_beta Let_def)
  let ?b = "update_shard i (\<lambda>sh. sh\<lparr>sh_next_token := nt\<rparr>) ?a"
  have sh: "tables_ok ?sh" "flows_home (shard_count (vc_tuning c)) i ?sh"
    using inner_shard_at [OF assms(2,3)] by (simp_all add: shard_ok_def)
  have b: "gate_ok ?b" "v2_inner c H ?b" "w_pool ?b = w_pool v" "w_accepted ?b = w_accepted v"
    using a sh assms(3) by (auto simp: tables_ok_def flows_home_def intro!: inner_tables)
  have ins: "v2_inner c H (update_shard i (insert_flow key f) ?b)"
    if "fs_token f = t" "fs_original_info f = info" "r = Some t" "length (indexed (sh_session_flows ?sh) (fst key)) < MAX_FLOWS_PER_SESSION" for f t
  proof (rule inner_tables [OF b(2)])
    have at: "w_shards ?b ! i = ?sh\<lparr>sh_next_token := nt\<rparr>" using a(3) assms(3) by simp
    show "tables_ok (insert_flow key f (w_shards ?b ! i))"
      unfolding at using that r(2) sh(1) assms(4) by (intro tables_ok_insert) (simp_all add: tables_ok_def)
    show "flows_home (shard_count (vc_tuning c)) i (insert_flow key f (w_shards ?b ! i))"
      unfolding at using sh(2) assms(5-8) that(2) by (auto simp: flows_home_def insert_flow_def split: if_splits)
    show "sh_inbox (insert_flow key f (w_shards ?b ! i)) = sh_inbox (w_shards ?b ! i)" by (simp add: insert_flow_def)
  qed (use a(3) assms(3) in simp)
  show ?thesis
    using assms(1-3) a b ins r(1)
    by (auto simp: shard_new_flow_def indexed_count split_beta Let_def insert_flow_def split: option.split)
qed

lemma v2_ok_client_packet:
  assumes "gate_ok v" "v2_inner c {#idx#} v" "i < length (w_shards v)"
    and "msg_ok (w_pool v) (w_accepted v) (shard_count (vc_tuning c)) i (ClientPacket sid client game info idx len t)"
  shows "v2_ok c (shard_client_packet c i e sid client game info idx len t v)"
proof -
  let ?key = "(sid, game)" and ?sh = "w_shards v ! i"
  let ?fv = "case dm_get (sh_flows ?sh) ?key of Some existing \<Rightarrow> (Some existing, v) | None \<Rightarrow> shard_new_flow c i e ?key client info v"
  obtain flow w where fv: "?fv = (flow, w)" by (cases ?fv)
  have w: "gate_ok w \<and> v2_inner c {#idx#} w \<and> length (w_shards w) = length (w_shards v) \<and>
      w_pool w = w_pool v \<and> w_accepted w = w_accepted v \<and>
      (\<forall>f. flow = Some f \<longrightarrow> dm_get (sh_flows (w_shards w ! i)) ?key = Some f)"
  proof (cases "dm_get (sh_flows ?sh) ?key")
    case None
    then have "shard_new_flow c i e ?key client info v = (flow, w)" using fv by simp
    then show ?thesis using new_flow_ok [OF assms(1-3) None, of info e client] assms(4) by simp
  qed (use fv assms(1,2) in auto)
  have rel: "v2_ok c (w_release idx u)" if "gate_ok u" "v2_inner c {#idx#} u" for u
    using that inner_release [of c idx "{#}" u] by (simp add: v2_ok_def)
  show ?thesis
  proof (cases flow)
    case None
    then show ?thesis using assms(1,2) fv w rel by (simp add: shard_client_packet_def Let_def)
  next
    case (Some f)
    let ?f = "f\<lparr>fs_client_addr := client, fs_original_info := info, fs_last_activity := ie_later e, fs_marked_for_removal := None\<rparr>"
    let ?u = "w_release idx (update_shard i (put_flow ?key ?f) w)"
    have u: "v2_ok c ?u"
      using w Some assms(3,4) by (intro rel inner_put_flow [where f = f]) auto
    let ?d = "take len (pool_buffer (w_pool w) idx)"
    have acc: "(sid, game, ?d) \<in> set (w_accepted ?u)" using assms(4) w by (simp add: w_release_def)
    have "relay_ok (?u\<lparr>v_upstream := v_upstream ?u @ [(game, ?d)]\<rparr>)"
      using v2_ok_relay [OF u] assms(4) by (intro relay_ok_upstream) simp_all
    then have "v2_ok c (?u\<lparr>v_upstream := v_upstream ?u @ [(game, ?d)]\<rparr>)"
      using u acc by (auto simp: v2_ok_def v2_inner_def relay_ok_def upstream_accepted_def)
    then show ?thesis using assms(1,2) fv Some u rel by (auto simp: shard_client_packet_def Let_def split: option.split)
  qed
qed

lemma v2_ok_tables:
  assumes "v2_ok c v" "i < length (w_shards v)" "tables_ok (f (w_shards v ! i))"
    and "shard_rest (f (w_shards v ! i)) = shard_rest (w_shards v ! i)"
    and "flows_from (w_shards v ! i) (f (w_shards v ! i))"
  shows "v2_ok c (update_shard i f v)"
  using assms(1) inner_tables [of c "{#}" v i f] assms(2,3) rest_inbox [OF assms(4)]
    flows_home_from [OF shard_at(2) [OF assms(1,2)] assms(5)] by (simp add: v2_ok_def)

lemma v2_ok_message:
  assumes "gate_ok v" "v2_inner c (msg_slots msg) v" "i < length (w_shards v)"
    and "msg_ok (w_pool v) (w_accepted v) (shard_count (vc_tuning c)) i msg"
  shows "v2_ok c (shard_message c i e msg v)"
proof (cases msg)
  case (ClientPacket sid client game info idx len t)
  then show ?thesis using v2_ok_client_packet [of v c idx i sid client game info len t e] assms by simp
next
  case (Keepalive sid client)
  have v: "v2_ok c v" using assms(1,2) Keepalive by (simp add: v2_ok_def)
  show ?thesis
    unfolding Keepalive shard_message.simps
    by (rule v2_ok_tables [OF v assms(3)]) (use shard_keepalive_ok [OF shard_at(1) [OF v assms(3)]] in simp_all)
next
  case (RemoveSession sid)
  have v: "v2_ok c v" using assms(1,2) RemoveSession by (simp add: v2_ok_def)
  show ?thesis
    unfolding RemoveSession shard_message.simps
    by (rule v2_ok_tables [OF v assms(3)])
      (use shard_remove_session_ok [OF shard_at(1) [OF v assms(3)]] in \<open>auto simp: flows_from_def split: if_splits\<close>)
qed

lemma new_flow_shards: "length (w_shards (snd (shard_new_flow c i e key client info v))) = length (w_shards v)"
  by (simp add: shard_new_flow_def g_allow_source_event_def split_beta Let_def split: option.split)

lemma message_shards: "length (w_shards (shard_message c i e msg v)) = length (w_shards v)"
  by (cases msg) (auto simp: shard_client_packet_def split_beta Let_def new_flow_shards split: option.split)

lemma v2_ok_drain: "v2_ok c v \<Longrightarrow> i < length (w_shards v) \<Longrightarrow> v2_ok c (drain_inbox c i es v)"
proof (induction es arbitrary: v)
  case (Cons e es)
  show ?case
  proof (cases "sh_inbox (w_shards v ! i)")
    case (Cons msg rest)
    let ?u = "update_shard i (\<lambda>sh. sh\<lparr>sh_inbox := rest\<rparr>) v"
    have "v2_inner c {#} v" using Cons.prems(1) by (simp add: v2_ok_def)
    note pop = inner_pop_msg [OF this Cons.prems(2) Cons]
    have "v2_ok c (shard_message c i e msg ?u)"
      using pop Cons.prems by (intro v2_ok_message) (simp_all add: v2_ok_def)
    then show ?thesis using Cons.IH Cons.prems(2) Cons message_shards [of c i e msg ?u] by simp
  qed (use Cons.prems in simp)
qed simp

lemma v2_ok_counts: "v2_ok c v \<Longrightarrow> v2_ok c (v\<lparr>w_flow_counts := (w_flow_counts v)[i := n]\<rparr>)"
  by (simp add: v2_ok_def v2_inner_def v2_parts_ok_def io_ok_def gate_ok_def)

lemma v2_ok_shard_cleanup:
  assumes "v2_ok c v" "i < length (w_shards v)"
  shows "v2_ok c (shard_cleanup i now v)"
proof -
  let ?f = "\<lambda>sh. shard_retain now (sh\<lparr>sh_cleanup_at := now + CLEANUP_INTERVAL\<rparr>)"
  let ?sh = "(w_shards v ! i)\<lparr>sh_cleanup_at := now + CLEANUP_INTERVAL\<rparr>"
  have "tables_ok ?sh" using shard_at(1) [OF assms] by (simp add: tables_ok_def)
  note r = shard_retain_ok [OF this]
  have "v2_inner c {#} (update_shard i ?f v)"
  proof (rule inner_tables)
    show "sh_inbox (?f (w_shards v ! i)) = sh_inbox (w_shards v ! i)" using rest_inbox [OF r(2)] by simp
    show "flows_home (shard_count (vc_tuning c)) i (?f (w_shards v ! i))"
      by (rule flows_home_from [OF shard_at(2) [OF assms]]) (use r(3) in \<open>simp add: flows_from_def\<close>)
  qed (use assms r(1) in \<open>simp_all add: v2_ok_def\<close>)
  then have "v2_ok c (update_shard i ?f v)" using assms(1) by (simp add: v2_ok_def)
  then show ?thesis using assms(1) v2_ok_counts by (simp add: shard_cleanup_def Let_def)
qed

section \<open>The transmit thread and cleanup\<close>

lemma v2_ok_send:
  assumes "gate_ok v" "v2_inner c {#tx_buf_idx p#} v"
  shows "v2_ok c (send_tx_packet c e p v)"
proof -
  let ?i = "tx_buf_idx p"
  have rel: "v2_ok c (w_release ?i u)" if "gate_ok u" "v2_inner c {#?i#} u" for u
    using that inner_release [of c ?i "{#}" u] by (simp add: v2_ok_def)
  have v: "relay_ok v" using assms by (simp add: relay_ok_def inner_io)
  have shared: "v2_ok c (w_release ?i u)" if "relay_ok u" "relay.more u = relay.more v" "v_upstream u = v_upstream v" for u
    using that inner_shared [OF assms(2), of u] by (intro rel) (simp_all add: relay_ok_def)
  have b: "relay_ok (v\<lparr>v_budgets := b\<rparr>)" if "budgets_ok b" for b using v that by (rule relay_ok_budgets)
  have "budgets_ok (snd (account_budget_allow (v_budgets v) ss sid out q ms))" for ss sid out q ms
    using relay_ok_balanced(3) [OF v] by (rule account_budget_allow_ok)
  note bs = b [OF this] b [OF relay_ok_balanced(3) [OF v]]
  have count: "relay_ok (count_out sid n u)" "dm_ok (g_session_traffic (count_out sid n u))" if "relay_ok u" for sid n and u :: v2_state
    using relay_ok_count_out [OF that] relay_ok_balanced(2) [OF relay_ok_count_out [OF that]] by simp_all
  show ?thesis
    using assms v bs
    by (auto simp: send_tx_packet_def split_beta Let_def intro!: shared relay_ok_traffic count(1) dm_ok_traffic_ops(2) count(2)
        split: option.split)
qed

lemma v2_ok_tx: "v2_ok c v \<Longrightarrow> v2_ok c (v2_tx c e v)"
proof -
  assume v: "v2_ok c v"
  show ?thesis
  proof (cases "w_tx_control v")
    case (Cons p rest)
    then show ?thesis
      using v inner_pop_control [of c "{#}" v p rest] by (simp add: v2_tx_def v2_ok_send v2_ok_def [of c v])
  next
    case Nil
    show ?thesis
    proof (cases "w_tx_data v")
      case (Cons p rest)
      then show ?thesis
        using Nil v inner_pop_data(1) [of c "{#}" v p rest] by (simp add: v2_tx_def v2_ok_send v2_ok_def [of c v])
    qed (use v Nil in \<open>simp add: v2_tx_def\<close>)
  qed
qed

lemma expire_truncate: "gate.truncate (v2_expire_session c x v) = gate.truncate (expire_session x v)"
  by (simp add: v2_expire_session_def Let_def push_msg_def update_shard_def gate.truncate_def)

lemma v2_expire_inner: "v2_inner c {#} v \<Longrightarrow> v2_inner c {#} (v2_expire_session c x v)"
proof -
  assume v: "v2_inner c {#} v"
  let ?e = "expire_session x v"
  have e: "v2_inner c {#} ?e" using v by (simp add: v2_inner_def io_ok_def expire_session_def split_beta Let_def)
  let ?i = "shard_of (fst x) ?e"
  have n: "length (w_shards ?e) = shard_count (vc_tuning c)" using e by (simp add: v2_inner_def v2_parts_ok_def)
  have "v2_inner c {#} (push_msg ?i (RemoveSession (fst x)) ?e)" if "?i < length (w_shards ?e)" "shard_has_room c ?i ?e"
    using e that n by (intro inner_push_msg) (simp_all add: in_shard_def shard_of_def)
  then show ?thesis using e by (simp add: v2_expire_session_def Let_def)
qed

lemma v2_ok_cleanup: "v2_ok c v \<Longrightarrow> v2_ok c (v2_cleanup c now now_unix v)"
proof -
  assume v: "v2_ok c v"
  let ?xs = "filter (\<lambda>(sid, s). v2_session_gone now now_unix s) (g_sessions v)"
  let ?e = "fold (v2_expire_session c) ?xs v"
  have "gate_ok ?e" using v by (intro expire_sweep(1) [OF expire_truncate]) (simp add: v2_ok_def)
  moreover have "v2_inner c {#} ?e" 
    by (rule fold_invariant [where P = "v2_inner c {#}"]) (use v in \<open>simp_all add: v2_expire_inner v2_ok_def\<close>)
  ultimately have e: "v2_ok c ?e" by (simp add: v2_ok_def)
  have "v2_ok c (?e\<lparr>v_tun := remove_expired live (v_tun ?e)\<rparr>)" for live
    using v2_ok_relay [OF e] by (intro v2_ok_shared [OF e] relay_ok_remove_expired) simp_all
  then show ?thesis using e by (simp add: v2_cleanup_def Let_def)
qed

lemma v2_ok_stats: "v2_ok c v \<Longrightarrow> v2_ok c (v2_stats v)"
  by (simp add: v2_stats_def v2_ok_def gate_ok_def v2_inner_def io_ok_def)

section \<open>Every reachable state\<close>

lemma v2_ok_step: "v2_ok c v \<Longrightarrow> v2_ok c (v2_step c e v)"
  by (cases e)
    (simp_all add: v2_ok_rx recv_from_len v2_ok_readable shard_drain_def v2_ok_drain v2_ok_shard_cleanup v2_ok_tx v2_ok_cleanup
      v2_ok_stats v2_ok_steps budgets_maintain_ok relay_ok_balanced(3) [OF v2_ok_relay])

lemma v2_ok_init: "v2_ok c (v2_init c now policy budget)"
proof -
  have none: "sum_list (replicate n ({#} :: nat multiset)) = {#}" for n by (induction n) simp_all
  have "v2_parts_ok (vc_tuning c) {#} (pool_new (pool_slots (vc_tuning c))) (replicate (shard_count (vc_tuning c)) (shard_new now))
      (replicate (shard_count (vc_tuning c)) 0) [] [] [] []"
    using pool_new_sound [of "pool_slots (vc_tuning c)"] tables_ok_new [of now]
    by (simp add: v2_parts_ok_def held_slots_def buffers_sized_new shard_ok_def flows_home_def dm_contains_get)
      (simp add: inbox_slots_def pool_new_def shard_new_def none)
  moreover have "relay_ok (v2_init c now policy budget)" using relay_ok_new [of now policy budget] by (simp add: v2_init_def)
  ultimately show ?thesis by (simp add: v2_ok_def relay_ok_def v2_inner_def v2_init_def relay.extend_def upstream_accepted_def relay_new_def gate.extend_def)
qed

lemma v2_reach_ok: "v2_reach c v0 v \<Longrightarrow> v2_ok c v0 \<Longrightarrow> v2_ok c v"
  by (induction rule: v2_reach.induct) (auto intro: v2_ok_step)

end
