(* ===== verification/V2_Safety.thy ===== *)
theory V2_Safety
  imports V1_Safety V2_Invariant
begin

text \<open>
  What the second datapath guarantees: buffers that belong to one packet at a time, payloads
  and responses that are not mixed up between sessions, shards whose tables agree, the same
  admission as the first datapath, sessions that keep their owner, responses only to the
  current endpoint of a session and never stale ones, and expired sessions that go away.
\<close>

section \<open>Admission in both datapaths\<close>

text \<open>The tables admission decides on.\<close>

definition admission_view ::
  "'a gate_scheme \<Rightarrow> sessions \<times> source_counts \<times> traffic \<times> source_rate_limiter \<times> pending_auth_limiter \<times> relay_ticket_replay_cache" where
  "admission_view g = (g_sessions g, g_source_session_counts g, g_session_traffic g, g_source_limiter g, g_pending_auth g,
     g_replay_cache g)"

text \<open>Two ways to acknowledge, neither of which touches those tables.\<close>

locale ack_pair =
  fixes ack1 :: "('a gate_scheme) ack_fun"
    and ack2 :: "('b gate_scheme) ack_fun"
  assumes quiet1: "admission_view (ack1 addr sid status g) = admission_view g"
    and quiet2: "admission_view (ack2 addr sid status h) = admission_view h"
begin

lemma ack_fields [simp]:
  "g_sessions (ack1 a s st g) = g_sessions g" "g_source_session_counts (ack1 a s st g) = g_source_session_counts g"
  "g_session_traffic (ack1 a s st g) = g_session_traffic g" "g_source_limiter (ack1 a s st g) = g_source_limiter g"
  "g_pending_auth (ack1 a s st g) = g_pending_auth g" "g_replay_cache (ack1 a s st g) = g_replay_cache g"
  "g_sessions (ack2 a s st h) = g_sessions h" "g_source_session_counts (ack2 a s st h) = g_source_session_counts h"
  "g_session_traffic (ack2 a s st h) = g_session_traffic h" "g_source_limiter (ack2 a s st h) = g_source_limiter h"
  "g_pending_auth (ack2 a s st h) = g_pending_auth h" "g_replay_cache (ack2 a s st h) = g_replay_cache h"
  using quiet1 [of a s st g] quiet2 [of a s st h] by (simp_all add: admission_view_def)

lemma agree_verify:
  assumes "admission_view g = admission_view h"
  shows "fst (rx_verify ack1 c ev g) = fst (rx_verify ack2 c ev h)"
    "admission_view (snd (rx_verify ack1 c ev g)) = admission_view (snd (rx_verify ack2 c ev h))"
  using assms
  by (simp_all add: rx_verify_def g_pending_allow_def g_drop_in_def admission_view_def split_beta Let_def split: sum.split)

lemma agree_auth_check:
  assumes "admission_view g = admission_view h"
  shows "fst (rx_auth_check ack1 c ev t g) = fst (rx_auth_check ack2 c ev t h)"
    "admission_view (snd (rx_auth_check ack1 c ev t g)) = admission_view (snd (rx_auth_check ack2 c ev t h))"
  using assms
  by (simp_all add: rx_auth_check_def g_pending_allow_def g_drop_in_def admission_view_def split_beta Let_def)

lemma agree_hello:
  assumes "admission_view g = admission_view h"
  shows "admission_view (rx_hello ack1 c ev t g) = admission_view (rx_hello ack2 c ev t h)"
  using assms by (simp add: rx_hello_def admission_view_def Let_def split: option.split)

end

lemma agree_admit:
  assumes "admission_view g = admission_view h"
  shows "fst (rx_admit ev g) = fst (rx_admit ev h)" "admission_view (snd (rx_admit ev g)) = admission_view (snd (rx_admit ev h))"
  using assms
  by (simp_all add: rx_admit_def g_allow_source_event_def allow_source_event_def v1_session_capacity_available_def
      admission_view_def split_beta Let_def)

lemma agree_touch:
  assumes "admission_view g = admission_view h"
  shows "fst (rx_touch_session c ev g) = fst (rx_touch_session c ev h)"
    "admission_view (snd (rx_touch_session c ev g)) = admission_view (snd (rx_touch_session c ev h))"
  using assms by (simp_all add: rx_touch_session_def admission_view_def Let_def split: option.split)

lemma view_count_in [simp]: "admission_view (g_count_in n g) = admission_view g" "admission_view (g_drop_in r g) = admission_view g"
  by (simp_all add: admission_view_def g_count_in_def g_drop_in_def)

lemma view_ingress:
  "admission_view g = admission_view h \<Longrightarrow>
     admission_view (g\<lparr>g_session_traffic := record_session_ingress (g_session_traffic g) sid t n\<rparr>) =
     admission_view (h\<lparr>g_session_traffic := record_session_ingress (g_session_traffic h) sid t n\<rparr>)"
  by (simp add: admission_view_def)

context ack_pair
begin

lemma agree_gate:
  assumes "admission_view g = admission_view h"
  shows "fst (rx_gate ack1 c ev g) = fst (rx_gate ack2 c ev h) \<and>
    admission_view (snd (rx_gate ack1 c ev g)) = admission_view (snd (rx_gate ack2 c ev h))"
proof -
  let ?g = "g_count_in (ev_len ev) g" and ?h = "g_count_in (ev_len ev) h"
  have start: "admission_view ?g = admission_view ?h" using assms by simp
  note v = agree_verify [OF start, of c ev]
  show ?thesis
  proof (cases "fst (rx_verify ack1 c ev ?g)")
    case None
    then show ?thesis using start v by (simp add: rx_gate_def split_beta Let_def)
  next
    case (Some tk)
    note a = agree_auth_check [OF v(2), where c = c and ev = ev and t = tk]
    note m = agree_admit [OF a(2), where ev = ev]
    note t = agree_touch [OF m(2), where c = c and ev = ev]
    note i = view_ingress [OF t(2), where sid = "ev_sid ev" and t = "ev_now_unix ev" and n = "ev_len ev"]
    show ?thesis
      using start Some v a m t i agree_hello [OF i, where c = c and ev = ev and t = tk]
      by (simp add: rx_gate_def split_beta Let_def)
  qed
qed

end

interpretation agree: ack_pair v1_ack "v2_ack cfg now" for cfg now
  by unfold_locales
    (simp_all add: admission_view_def v1_ack_def relay_send_def v2_ack_def send_small_control_frame_def send_control_def
      w_release_def pool_dry_def g_drop_out_def split: option.split)

text \<open>
  C12. From equal admission tables the admission halves of the two receive loops, up to
  the dispatch on the kind of frame, come to the same decision on every datagram and
  leave equal sessions, source counts, traffic counters, rate limits, pending-
  authentication limits and replay cache, although they acknowledge through different
  channels. What the loops do after admission, such as charging new flows, is not
  compared.
\<close>

theorem v2_admission_matches_v1:
  assumes "admission_view v = admission_view w" "vc_rx c = vc_rx c'"
  shows "fst (v2_gate c' ev w) = fst (rx_gate v1_ack (vc_rx c) ev v) \<and>
    admission_view (snd (v2_gate c' ev w)) = admission_view (snd (rx_gate v1_ack (vc_rx c) ev v))"
  using agree.agree_gate [OF assms(1), of "vc_rx c" ev c' "ev_later ev"] assms(2) by (simp add: v2_gate_eq)

section \<open>Buffers and shards\<close>

text \<open>
  C5. In every reachable state of the second datapath the free list together with the
  buffers that queued messages and queued packets refer to is exactly one copy of each
  pool slot: no buffer is lost or shared, whatever path a packet took. The shard and
  send queues stay within their configured capacities, and there are at most 65536
  sessions.
\<close>

theorem v2_buffers_are_exclusive:
  assumes "v2_reach c (v2_init c now policy budget) v"
  shows "mset (pool_free (w_pool v)) + held_slots (w_shards v) (w_tx_control v) (w_tx_data v) = mset [0..<pool_slots (vc_tuning c)] \<and>
    length (w_tx_control v) \<le> tx_queue_cap (vc_tuning c) \<and> length (w_tx_data v) \<le> tx_queue_cap (vc_tuning c) \<and>
    length (w_shards v) = shard_count (vc_tuning c) \<and>
    (\<forall>sh \<in> set (w_shards v). length (sh_inbox sh) \<le> shard_queue_cap (vc_tuning c)) \<and>
    dm_len (g_sessions v) \<le> 65536"
proof -
  have ok: "v2_ok c v" by (rule v2_reach_ok [OF assms v2_ok_init])
  have "length (sh_inbox sh) \<le> shard_queue_cap (vc_tuning c)" if "sh \<in> set (w_shards v)" for sh
    using ok that by (auto simp: v2_ok_def v2_inner_def v2_parts_ok_def shard_ok_def in_set_conv_nth)
  then show ?thesis
    using ok by (auto simp: v2_ok_def v2_inner_def v2_parts_ok_def pool.sound_def gate_ok_def MAX_SESSIONS_TOTAL_def)
qed

text \<open>
  C6. Every datagram the second datapath ever sends to a game server is byte for byte a
  payload the receive thread accepted from some session for that very server, although
  it travels through a shared buffer and a queue, and the server's address and port are
  allowed ones.
\<close>

theorem v2_delivers_what_clients_sent:
  assumes "v2_reach c (v2_init c now policy budget) v" "(addr, data) \<in> set (v_upstream v)"
  shows "(\<exists>sid. (sid, addr, data) \<in> set (w_accepted v)) \<and>
    (\<exists>ip port. addr = SockV4 ip port \<and> \<not> is_forbidden_dst ip \<and> \<not> is_forbidden_dst_port port)"
  using v2_reach_ok [OF assms(1) v2_ok_init] assms(2)
  by (fastforce simp: v2_ok_def v2_inner_def io_ok_def upstream_accepted_def allowed_endpoint_def)

text \<open>
  C10. In every reachable state a flow lives in the shard its session hashes to, its
  non-zero token leads back to it, and the session index of the shard lists exactly the
  flows of the session, without duplicates and at most 1024 of them.
\<close>

theorem v2_shard_tables_agree:
  assumes "v2_reach c (v2_init c now policy budget) v" "i < length (w_shards v)" "sh = w_shards v ! i"
    and "dm_get (sh_flows sh) (sid, addr) = Some flow"
  shows "shard_for_session sid (length (w_shards v)) = i \<and>
    dm_get (sh_token_to_flow sh) (fs_token flow) = Some (sid, addr) \<and> fs_token flow \<noteq> 0 \<and>
    (\<exists>addrs. dm_get (sh_session_flows sh) sid = Some addrs \<and> distinct addrs \<and> length addrs \<le> 1024 \<and>
       (\<forall>a. a \<in> set addrs \<longleftrightarrow> dm_get (sh_flows sh) (sid, a) \<noteq> None))"
proof -
  have ok: "v2_ok c v" by (rule v2_reach_ok [OF assms(1) v2_ok_init])
  have n: "length (w_shards v) = shard_count (vc_tuning c)" using ok by (simp add: v2_ok_def v2_inner_def v2_parts_ok_def)
  have t: "tokens_ok (sh_flows sh) (sh_token_to_flow sh)" "index_exact (sh_flows sh) (sh_session_flows sh)"
    using shard_at(1) [OF ok assms(2)] assms(3) by (simp_all add: tables_ok_def)
  have "in_shard (shard_count (vc_tuning c)) i sid"
    using flows_home_get [OF shard_at(2) [OF ok assms(2)], of "(sid, addr)" flow] assms(3,4) by simp
  moreover have "dm_get (sh_token_to_flow sh) (fs_token flow) = Some (sid, addr)" "fs_token flow \<noteq> 0"
    using t(1) assms(4) unfolding tokens_ok_def by blast+
  moreover have idx: "distinct (indexed (sh_session_flows sh) sid)" "length (indexed (sh_session_flows sh) sid) \<le> 1024"
    "a \<in> set (indexed (sh_session_flows sh) sid) \<longleftrightarrow> dm_get (sh_flows sh) (sid, a) \<noteq> None" for a
    using t(2) by (simp_all add: index_exact_def MAX_FLOWS_PER_SESSION_def)
  moreover obtain addrs where "dm_get (sh_session_flows sh) sid = Some addrs"
    using idx(3) [of addr] assms(4) by (cases "dm_get (sh_session_flows sh) sid") (simp_all add: indexed_def)
  ultimately show ?thesis using n by (simp add: in_shard_def indexed_def)
qed

section \<open>Sessions and their owners\<close>

lemma v2_unowned_datagram:
  assumes "vc_auth_required c"
    and "\<not> (\<exists>s. dm_get (g_sessions v) (ev_sid ev) = Some s \<and> session_auth_is_current s (ev_now_unix ev) \<and>
                client_addr s = ev_addr ev)"
  shows "v2_rest (v2_step c (V2Rx ev) v) = v2_rest v \<and>
    (\<exists>acks. w_tx_control (v2_step c (V2Rx ev) v) = w_tx_control v @ acks \<and> (\<forall>p \<in> set acks. tx_addr p = ev_addr ev))"
proof -
  let ?ev = "recv_from ev"
  have ev: "ev_sid ?ev = ev_sid ev" "ev_addr ?ev = ev_addr ev" "ev_now_unix ?ev = ev_now_unix ev"
    by (simp_all add: recv_from_def ev_sid_def SESSION_ID_LEN_def MAX_PACKET_SIZE_def)
  have "fst (v2_gate c ?ev v) = None"
    using v2.rx_gate_payload_owner [where c = "vc_rx c" and ev = ?ev and g = v and now = "ev_later ?ev"] assms ev
    by (cases "fst (v2_gate c ?ev v)") (auto simp: v2_gate_eq)
  then have "v2_step c (V2Rx ev) v = snd (v2_gate c ?ev v)" by (simp add: v2_rx_def split_beta)
  then show ?thesis using v2_gate_frame [where c = c and ev = ?ev and v = v] ev by (auto simp: control_to_def)
qed

text \<open>
  C7. With authentication on, a datagram whose session is not authenticated with a
  running lease at the sender's own address changes nothing in the second datapath but
  the admission tables, the buffer pool and the control queue, and every control packet
  it adds goes to the sender.
\<close>

theorem v2_payload_needs_owner:
  assumes "vc_auth_required c"
    and "\<not> (\<exists>s. dm_get (g_sessions v) (ev_sid ev) = Some s \<and> session_auth_is_current s (ev_now_unix ev) \<and>
                client_addr s = ev_addr ev)"
  shows "v2_rest (v2_step c (V2Rx ev) v) = v2_rest v \<and>
    (\<exists>acks. w_tx_control (v2_step c (V2Rx ev) v) = w_tx_control v @ acks \<and> (\<forall>p \<in> set acks. tx_addr p = ev_addr ev))"
  using assms by (rule v2_unowned_datagram)

lemma v2_dispatch_cases:
  assumes "P v" "P (g_drop_in Auth v)" "P (v2_ping c ev v)" "P (rtt_report ev v)" "P (resolve_request ev v)" "P (v2_keepalive c ev v)"
    and "P (v2_payload c ev v)"
  shows "P (v2_dispatch c ev a v)"
  using assms by (simp add: v2_dispatch_def v2_resolve_def Let_def)

lemma queue_sessions [simp]:
  "g_sessions (w_release i v) = g_sessions v" "g_sessions (pool_dry v) = g_sessions v" "g_sessions (update_shard i f v) = g_sessions v"
  "g_sessions (push_msg i msg v) = g_sessions v" "g_sessions (send_control c p v) = g_sessions v" "g_sessions (send_data c p v) = g_sessions v"
  by (simp_all add: w_release_def pool_dry_def update_shard_def push_msg_def send_control_def send_data_def g_drop_out_def)

lemma v2_session_after_dispatch:
  assumes "dm_get (g_sessions v) sid = Some s" "auth_state s = Authenticated"
  shows "dm_get (g_sessions (v2_dispatch c ev a v)) sid = Some s"
proof -
  note user = set_user_session [OF _ assms(2)]
  have udp: "dm_get (g_sessions (v2_udp c ev game payload info w)) sid = Some s"
    if "dm_get (g_sessions w) sid = Some s" for game payload info w
    using user [OF that] by (simp add: v2_udp_def split_beta Let_def split: option.split)
  have fwd: "dm_get (g_sessions (v2_forward c ev r w)) sid = Some s" if "dm_get (g_sessions w) sid = Some s" for r w
    using that by (cases r) (simp_all add: user udp)
  have payload: "dm_get (g_sessions (v2_payload c ev v)) sid = Some s"
    using assms(1) by (simp add: v2_payload_def split_beta Let_def fwd split: option.split)
  have control: "g_sessions (v2_ping c ev v) = g_sessions v" "g_sessions (v2_keepalive c ev v) = g_sessions v"
    by (simp_all add: v2_ping_def v2_keepalive_def Let_def split: option.split)
  show ?thesis by (rule v2_dispatch_cases) (simp_all add: control payload assms(1))
qed

lemma message_sessions [simp]: "g_sessions (shard_message c i e msg v) = g_sessions v"
  by (cases msg) (auto simp: shard_client_packet_def shard_new_flow_def split_beta Let_def split: option.split)

lemma drain_sessions [simp]: "g_sessions (drain_inbox c i es v) = g_sessions v"
  by (induction es arbitrary: v) (simp_all split: list.split)

definition same_owner :: "session_entry \<Rightarrow> session_entry \<Rightarrow> bool" where
  "same_owner s s' \<longleftrightarrow> auth_state s' = auth_state s \<and> user_id s' = user_id s \<and> client_addr s' = client_addr s \<and>
     lease_expires_at_unix s' = lease_expires_at_unix s"

lemma recv_session:
  assumes "\<exists>s'. dm_get (g_sessions v) sid = Some s' \<and> same_owner s s'"
  shows "\<exists>s'. dm_get (g_sessions (snd (shard_recv c i key flow outcome v))) sid = Some s' \<and> same_owner s s'"
  using assms
  by (auto simp: shard_recv_def touch_session_def Let_def same_owner_def split: recv_outcome.split option.split)

lemma burst_session:
  "\<exists>s'. dm_get (g_sessions v) sid = Some s' \<and> same_owner s s' \<Longrightarrow>
     \<exists>s'. dm_get (g_sessions (recv_burst c i key outcomes v)) sid = Some s' \<and> same_owner s s'"
proof (induction outcomes arbitrary: v)
  case (Cons outcome outcomes)
  show ?case using Cons.IH [OF recv_session [OF Cons.prems]] recv_session [OF Cons.prems] Cons.prems
    by (simp add: split_beta Let_def split: option.split)
qed simp

lemma tx_sessions [simp]: "g_sessions (v2_tx c e v) = g_sessions v"
  by (simp add: v2_tx_def send_tx_packet_def split_beta Let_def split: list.split option.split)

lemma v2_cleanup_sessions:
  assumes "v2_ok c v"
  shows "dm_get (g_sessions (v2_cleanup c now now_unix v)) sid =
    (case dm_get (g_sessions v) sid of None \<Rightarrow> None | Some s \<Rightarrow> if v2_session_gone now now_unix s then None else Some s)"
proof -
  have "gate_ok v" using assms by (simp add: v2_ok_def)
  from expire_sweep(2) [OF expire_truncate this] show ?thesis by (simp add: v2_cleanup_def Let_def)
qed

text \<open>
  C8. With authentication on, whatever any thread of the second datapath does next, an
  authenticated session stays with its user: only cleanup removes it, after its lease
  plus grace or its idle time, and its endpoint and lease change only when a datagram
  for the session arrives from the new endpoint and is a hello whose token verifies for
  that session and the same user; the lease is then the one of that ticket.
\<close>

theorem v2_session_keeps_owner:
  assumes "v2_reach c (v2_init c t0 policy budget) v" "vc_auth_required c"
    and "dm_get (g_sessions v) sid = Some s" "auth_state s = Authenticated"
  shows "(\<exists>now now_unix. e = V2Cleanup now now_unix \<and> v2_session_gone now now_unix s \<and>
      dm_get (g_sessions (v2_step c e v)) sid = None) \<or>
    (\<exists>s'. dm_get (g_sessions (v2_step c e v)) sid = Some s' \<and> auth_state s' = Authenticated \<and> user_id s' = user_id s \<and>
       (client_addr s' = client_addr s \<and> lease_expires_at_unix s' = lease_expires_at_unix s \<or>
        (\<exists>ev token ticket. e = V2Rx ev \<and> sid = ev_sid ev \<and> client_addr s' = ev_addr ev \<and>
           parse_auth_hello_token (ev_frame (recv_from ev)) (ev_len (recv_from ev)) = Inr token \<and>
           verify_relay_ticket (c_ext (vc_rx c)) token sid (c_auth (vc_rx c)) (ev_now_unix ev) = Inr ticket \<and>
           vt_user_id ticket = user_id s \<and>
           lease_expires_at_unix s' = (if vt_lease ticket then Some (vt_exp ticket) else None))))"
proof (cases e)
  case (V2Rx ev)
  let ?ev = "recv_from ev"
  have ev: "ev_sid ?ev = ev_sid ev" "ev_addr ?ev = ev_addr ev" "ev_now_unix ?ev = ev_now_unix ev"
    by (simp_all add: recv_from_def ev_sid_def SESSION_ID_LEN_def MAX_PACKET_SIZE_def)
  obtain s' where s': "dm_get (g_sessions (snd (v2_gate c ?ev v))) sid = Some s'" "keeps_owner (vc_rx c) ?ev sid s s'"
    using v2.rx_gate_keeps_owner [OF assms(2-4)] by (metis v2_gate_eq)
  have "dm_get (g_sessions (v2_rx c ?ev v)) sid = Some s'"
    using s' by (auto simp: v2_rx_def split_beta keeps_owner_def intro: v2_session_after_dispatch split: option.split)
  then show ?thesis using s'(2) V2Rx ev by (auto simp: keeps_owner_def)
next
  case (V2Readable i token outcomes)
  have "\<exists>s'. dm_get (g_sessions v) sid = Some s' \<and> same_owner s s'" using assms(3) by (simp add: same_owner_def)
  note burst = burst_session [OF this]
  have "\<exists>s'. dm_get (g_sessions (v2_step c e v)) sid = Some s' \<and> same_owner s s'"
    using burst assms(3) V2Readable by (simp add: shard_readable_def same_owner_def split: option.split)
  then show ?thesis using assms(4) by (auto simp: same_owner_def)
next
  case (V2Cleanup now now_unix)
  show ?thesis using v2_cleanup_sessions [OF v2_reach_ok [OF assms(1) v2_ok_init], of now now_unix sid] assms(3,4) V2Cleanup by auto
next
  case (V2ShardCleanup i now)
  then show ?thesis using assms(3,4) by (simp add: shard_cleanup_def Let_def)
qed (use assms(3,4) in \<open>simp_all add: shard_drain_def v2_stats_def\<close>)

section \<open>Responses\<close>

lemma tx_data_sent:
  assumes "v2_ok c v" "w_tx_control v = []" "w_tx_data v = p # rest"
  shows "v_sent (v2_tx c e v) = v_sent v \<or>
    (\<exists>addr. forwarding_addr (g_sessions v) (tx_session_id p) (vc_auth_required c) (te_now_unix e) = Some addr \<and>
       \<not> should_drop_stale_queued_packet QData (tx_enqueued_at p) (te_now e) \<and>
       v_sent (v2_tx c e v) = v_sent v @ [(addr, take (tx_len p) (pool_buffer (w_pool v) (tx_buf_idx p)))])"
proof -
  have "tx_kind p = QData" using assms(1,3) by (simp add: v2_ok_def v2_inner_def v2_parts_ok_def data_ok_def)
  then show ?thesis
    using assms(2,3)
    by (auto simp: v2_tx_def send_tx_packet_def w_release_def g_drop_out_def relay_send_def count_out_def split_beta Let_def
        split: option.split)
qed

text \<open>
  C9. In every reachable state, the next response in the data queue, when no control
  packet waits before it, is either not sent or sent once, to the endpoint its session
  has at that moment; what is sent is the session identifier followed by a response
  packet around a datagram that was received for that session from a game server, with
  that server's address and port as the source; it is at most 250 milliseconds old and
  its session has a running lease; with authentication on the session is authenticated
  and leased.
\<close>

theorem v2_responses_go_to_current_endpoint:
  assumes "v2_reach c (v2_init c t0 policy budget) v" "w_tx_control v = []" "w_tx_data v = p # rest"
  shows "v_sent (v2_step c (V2Tx e) v) = v_sent v \<or>
    (\<exists>s payload info tos. dm_get (g_sessions v) (tx_session_id p) = Some s \<and>
       v_sent (v2_step c (V2Tx e) v) =
         v_sent v @ [(client_addr s, tx_session_id p @ build_response_ip_packet_with_tos payload info tos)] \<and>
       (tx_session_id p, SockV4 (oi_dst_ip info) (oi_dst_port info), payload) \<in> set (w_received v) \<and>
       te_now e \<le> tx_enqueued_at p + duration_millis 250 \<and>
       (\<forall>exp. lease_expires_at_unix s = Some exp \<longrightarrow> te_now_unix e < exp) \<and>
       (vc_auth_required c \<longrightarrow> auth_state s = Authenticated \<and> lease_expires_at_unix s \<noteq> None))"
proof -
  have ok: "v2_ok c v" by (rule v2_reach_ok [OF assms(1) v2_ok_init])
  let ?frame = "take (tx_len p) (pool_buffer (w_pool v) (tx_buf_idx p))"
  have "data_ok (w_pool v) (w_received v) p" using ok assms(3) by (simp add: v2_ok_def v2_inner_def v2_parts_ok_def)
  then obtain payload info tos where f: "?frame = tx_session_id p @ build_response_ip_packet_with_tos payload info tos"
    "(tx_session_id p, SockV4 (oi_dst_ip info) (oi_dst_port info), payload) \<in> set (w_received v)"
    by (auto simp: data_ok_def info_server_def)
  have fresh: "te_now e \<le> tx_enqueued_at p + duration_millis 250"
    if "\<not> should_drop_stale_queued_packet QData (tx_enqueued_at p) (te_now e)"
    using that unfolding should_drop_stale_queued_packet_def saturating_duration_since_def MAX_DATA_QUEUE_AGE_def by simp
  show ?thesis
    using tx_data_sent [OF ok assms(2,3), of e] fresh f(2) unfolding f(1) egress_needs_current_session v2_step.simps by blast
qed

section \<open>Expired sessions\<close>

lemma expire_inbox:
  assumes "i < length (w_shards v)" "length (sh_inbox (w_shards v ! i)) + length xs \<le> shard_queue_cap (vc_tuning c)"
  shows "length (w_shards (fold (v2_expire_session c) xs v)) = length (w_shards v) \<and>
    w_shards (fold (v2_expire_session c) xs v) ! i = (w_shards v ! i)\<lparr>sh_inbox := sh_inbox (w_shards v ! i) @
      map RemoveSession (filter (\<lambda>sid. shard_for_session sid (length (w_shards v)) = i) (map fst xs))\<rparr>"
  using assms
proof (induction xs arbitrary: v)
  case (Cons x xs)
  let ?v = "v2_expire_session c x v"
  have sh: "w_shards (expire_session x v) = w_shards v" by (simp add: expire_session_def split_beta Let_def)
  have len: "length (w_shards ?v) = length (w_shards v)"
    by (simp add: v2_expire_session_def Let_def push_msg_def sh)
  have at: "w_shards ?v ! i = (if shard_for_session (fst x) (length (w_shards v)) = i
      then (w_shards v ! i)\<lparr>sh_inbox := sh_inbox (w_shards v ! i) @ [RemoveSession (fst x)]\<rparr> else w_shards v ! i)"
    using Cons.prems
    by (auto simp: v2_expire_session_def Let_def push_msg_def update_shard_def shard_of_def shard_has_room_def sh nth_list_update)
  have room: "length (sh_inbox (w_shards ?v ! i)) + length xs \<le> shard_queue_cap (vc_tuning c)"
    using Cons.prems(2) by (simp add: at)
  show ?case using Cons.IH [of ?v] Cons.prems(1) room by (simp add: len at)
qed simp

lemma fold_inbox: "(\<And>x s. sh_inbox (f x s) = sh_inbox s) \<Longrightarrow> sh_inbox (fold f xs s) = sh_inbox s"
  by (induction xs arbitrary: s) simp_all

lemma flow_ops_inbox [simp]:
  "sh_inbox (put_flow key f sh) = sh_inbox sh" "sh_inbox (insert_flow key f sh) = sh_inbox sh"
  "sh_inbox (remove_flow key sh) = sh_inbox sh" "sh_inbox (keepalive_flow sid a now addr sh) = sh_inbox sh"
  "sh_inbox (retain_flow now key sh) = sh_inbox sh"
  by (rule rest_inbox, simp)+

lemma table_ops_inbox [simp]:
  "sh_inbox (shard_keepalive sid client now sh) = sh_inbox sh" "sh_inbox (shard_remove_session sid sh) = sh_inbox sh"
  "sh_inbox (shard_retain now sh) = sh_inbox sh"
  by (simp_all add: shard_keepalive_def shard_remove_session_def shard_retain_def fold_inbox split: option.split)

lemma drain_count [simp]: "length (w_shards (drain_inbox c i es v)) = length (w_shards v)"
  by (induction es arbitrary: v) (simp_all add: message_shards split: list.split)

lemma new_flow_inbox:
  "i < length (w_shards v) \<Longrightarrow>
     sh_inbox (w_shards (snd (shard_new_flow c i e key client info v)) ! i) = sh_inbox (w_shards v ! i)"
  by (simp add: shard_new_flow_def g_allow_source_event_def split_beta Let_def split: option.split)

lemma message_inbox:
  "i < length (w_shards v) \<Longrightarrow> sh_inbox (w_shards (shard_message c i e msg v) ! i) = sh_inbox (w_shards v ! i)"
  by (cases msg) (auto simp: shard_client_packet_def split_beta Let_def new_flow_inbox new_flow_shards split: option.split)

lemma drain_inbox_rest:
  "i < length (w_shards v) \<Longrightarrow> sh_inbox (w_shards (drain_inbox c i es v) ! i) = drop (length es) (sh_inbox (w_shards v ! i))"
proof (induction es arbitrary: v)
  case (Cons e es)
  show ?case
  proof (cases "sh_inbox (w_shards v ! i)")
    case (Cons msg rest)
    let ?u = "update_shard i (\<lambda>sh. sh\<lparr>sh_inbox := rest\<rparr>) v"
    show ?thesis
      using Cons.IH [of "shard_message c i e msg ?u"] Cons.prems Cons message_inbox [of i ?u c e msg]
      by (simp add: message_shards)
  qed simp
qed simp

text \<open>
  A shard that is about to drop a session: the removal is in the inbox with nothing but
  other removals behind it, or has been done and only removals are left.
\<close>

definition leaving :: "nat \<Rightarrow> session_id \<Rightarrow> v2_state \<Rightarrow> bool" where
  "leaving i sid v \<longleftrightarrow>
     (\<exists>pre post. sh_inbox (w_shards v ! i) = pre @ RemoveSession sid # map RemoveSession post) \<or>
     (\<forall>addr. dm_get (sh_flows (w_shards v ! i)) (sid, addr) = None) \<and> (\<exists>post. sh_inbox (w_shards v ! i) = map RemoveSession post)"

lemma leaving_wait: "sh_inbox (w_shards v ! i) = pre @ RemoveSession sid # map RemoveSession post \<Longrightarrow> leaving i sid v"
  unfolding leaving_def by (intro disjI1 exI)

lemma leaving_gone:
  "(\<And>addr. dm_get (sh_flows (w_shards v ! i)) (sid, addr) = None) \<Longrightarrow> sh_inbox (w_shards v ! i) = map RemoveSession post \<Longrightarrow> leaving i sid v"
  unfolding leaving_def by (intro disjI2 conjI exI allI)

lemma leaving_start: "sh_inbox (w_shards v ! i) = box @ map RemoveSession sids \<Longrightarrow> sid \<in> set sids \<Longrightarrow> leaving i sid v"
proof -
  assume box: "sh_inbox (w_shards v ! i) = box @ map RemoveSession sids" and "sid \<in> set sids"
  then obtain xs ys where "sids = xs @ sid # ys" by (auto dest: split_list)
  then have "sh_inbox (w_shards v ! i) = (box @ map RemoveSession xs) @ RemoveSession sid # map RemoveSession ys" using box by simp
  then show "leaving i sid v" by (rule leaving_wait)
qed

lemma leaving_message:
  assumes "v2_ok c v" "i < length (w_shards v)" "sh_inbox (w_shards v ! i) = msg # rest" "leaving i sid v"
  shows "leaving i sid (shard_message c i e msg (update_shard i (\<lambda>sh. sh\<lparr>sh_inbox := rest\<rparr>) v))" (is "leaving i sid ?w")
proof -
  let ?u = "update_shard i (\<lambda>sh. sh\<lparr>sh_inbox := rest\<rparr>) v"
  have box: "sh_inbox (w_shards ?w ! i) = rest" using message_inbox [of i ?u c e msg] assms(2) by simp
  have "tables_ok (w_shards ?u ! i)" using shard_at(1) [OF assms(1,2)] assms(2) by (simp add: tables_ok_def)
  note r = shard_remove_session_ok(3) [OF this]
  have gone: "dm_get (sh_flows (w_shards ?w ! i)) (sid, addr) = None"
    if "msg = RemoveSession x" "x = sid \<or> (\<forall>addr. dm_get (sh_flows (w_shards v ! i)) (sid, addr) = None)" for addr x
    using that r [of x "(sid, addr)"] assms(2) by auto
  from assms(4) consider
    (wait) pre post where "msg # rest = pre @ RemoveSession sid # map RemoveSession post"
    | (over) post where "msg # rest = map RemoveSession post" "\<forall>addr. dm_get (sh_flows (w_shards v ! i)) (sid, addr) = None"
    unfolding leaving_def assms(3) by (elim disjE conjE exE)
  then show ?thesis
  proof cases
    case wait
    then show ?thesis
    proof (cases pre)
      case Nil
      then have "msg = RemoveSession sid" "rest = map RemoveSession post" using wait by simp_all
      then show ?thesis using gone [of sid] box by (intro leaving_gone) simp_all
    next
      case (Cons m pre')
      then have "rest = pre' @ RemoveSession sid # map RemoveSession post" using wait by simp
      then show ?thesis using box by (intro leaving_wait) simp
    qed
  next
    case over
    then obtain x post' where "msg = RemoveSession x" "rest = map RemoveSession post'" by (cases post) auto
    then show ?thesis using gone [of x] over(2) box by (intro leaving_gone) simp_all
  qed
qed

lemma leaving_drain: "v2_ok c v \<Longrightarrow> i < length (w_shards v) \<Longrightarrow> leaving i sid v \<Longrightarrow> leaving i sid (drain_inbox c i es v)"
proof (induction es arbitrary: v)
  case (Cons e es)
  show ?case
  proof (cases "sh_inbox (w_shards v ! i)")
    case (Cons msg rest)
    let ?w = "shard_message c i e msg (update_shard i (\<lambda>sh. sh\<lparr>sh_inbox := rest\<rparr>) v)"
    have "v2_ok c ?w" using v2_ok_drain [OF Cons.prems(1,2), of "[e]"] Cons by simp
    moreover have "i < length (w_shards ?w)" using Cons.prems(2) by (simp add: message_shards)
    ultimately show ?thesis using Cons.IH leaving_message [OF Cons.prems(1,2) Cons Cons.prems(3)] Cons by simp
  qed (use Cons.prems in simp)
qed simp

text \<open>Bursts that together take the whole inbox.\<close>

lemma leaving_drained:
  assumes "v2_ok c v" "i < length (w_shards v)" "leaving i sid v"
    and "length (sh_inbox (w_shards v ! i)) \<le> (\<Sum>es\<leftarrow>bursts. min 1024 (length es))"
  defines "w \<equiv> fold (\<lambda>es. v2_step c (V2Drain i es)) bursts v"
  shows "v2_ok c w \<and> length (w_shards w) = length (w_shards v) \<and> g_sessions w = g_sessions v \<and>
    (\<forall>addr. dm_get (sh_flows (w_shards w ! i)) (sid, addr) = None)"
  unfolding w_def using assms(1-4)
proof (induction bursts arbitrary: v)
  case Nil
  then show ?case by (simp add: leaving_def)
next
  case (Cons es bursts)
  let ?u = "drain_inbox c i (take 1024 es) v"
  have u: "v2_step c (V2Drain i es) v = ?u" using Cons.prems(2) by (simp add: shard_drain_def MAX_INBOX_DRAIN_BURST_def)
  have "length (sh_inbox (w_shards ?u ! i)) \<le> (\<Sum>es\<leftarrow>bursts. min 1024 (length es))"
    using drain_inbox_rest [OF Cons.prems(2), of c "take 1024 es"] Cons.prems(4) by (simp add: min.commute)
  from Cons.IH [OF v2_ok_drain [OF Cons.prems(1,2)] _ leaving_drain [OF Cons.prems(1-3)] this]
  show ?case using Cons.prems(2) by (simp add: u del: v2_step.simps)
qed

lemma session_gone_when:
  assumes "now_unix < 2 ^ 64" "(\<exists>exp. lease_expires_at_unix s = Some exp \<and> exp + 60 \<le> now_unix) \<or> last_activity s + duration_secs 210 \<le> now"
  shows "v2_session_gone now now_unix s"
  using assms
  by (auto simp: v2_session_gone_def lease_grace_secs_def sat_add64_def FLOW_GRACE_PERIOD_def SESSION_TIMEOUT_def duration_secs_def
      AUTH_CLOCK_SKEW_SECS_def u64_max_def)

text \<open>
  C11. Once the lease of a session has been over for 60 seconds or the session has been
  idle for 210, and the inbox of its shard has room for a message per session that
  cleanup removes, one run of the cleanup task followed by bursts of the shard that
  together take the whole inbox, whatever client packets and other messages wait in it,
  leave no such session and no flow of it in any shard. Nothing else is received in
  between.
\<close>

theorem v2_expired_session_goes_away:
  assumes "v2_reach c (v2_init c t0 policy budget) v" "dm_get (g_sessions v) sid = Some s"
    and "now_unix < 2 ^ 64" "(\<exists>exp. lease_expires_at_unix s = Some exp \<and> exp + 60 \<le> now_unix) \<or> last_activity s + duration_secs 210 \<le> now"
    and "0 < shard_count (vc_tuning c)" "i = shard_for_session sid (shard_count (vc_tuning c))"
    and "length (sh_inbox (w_shards v ! i)) + length (filter (\<lambda>(sid, s). v2_session_gone now now_unix s) (g_sessions v))
      \<le> shard_queue_cap (vc_tuning c)"
    and "u = v2_step c (V2Cleanup now now_unix) v" "w = fold (\<lambda>es. v2_step c (V2Drain i es)) bursts u"
    and "length (sh_inbox (w_shards u ! i)) \<le> (\<Sum>es\<leftarrow>bursts. min 1024 (length es))"
  shows "dm_get (g_sessions w) sid = None \<and> (\<forall>sh addr. sh \<in> set (w_shards w) \<longrightarrow> dm_get (sh_flows sh) (sid, addr) = None)"
proof -
  let ?gone = "v2_session_gone now now_unix"
  let ?xs = "filter (\<lambda>(sid, s). ?gone s) (g_sessions v)"
  have ok: "v2_ok c v" by (rule v2_reach_ok [OF assms(1) v2_ok_init])
  have u: "v2_ok c u" unfolding assms(8) by (rule v2_ok_step [OF ok])
  have n: "length (w_shards v) = shard_count (vc_tuning c)" using ok by (simp add: v2_ok_def v2_inner_def v2_parts_ok_def)
  have i: "i < length (w_shards v)" using assms(5,6) n shard_for_session_less by simp
  have gone: "?gone s" by (rule session_gone_when [OF assms(3,4)])
  have "w_shards u = w_shards (fold (v2_expire_session c) ?xs v)" by (simp add: assms(8) v2_cleanup_def Let_def)
  then have at: "length (w_shards u) = length (w_shards v)" "sh_inbox (w_shards u ! i) = sh_inbox (w_shards v ! i) @
      map RemoveSession (filter (\<lambda>sid. shard_for_session sid (length (w_shards v)) = i) (map fst ?xs))"
    using expire_inbox [OF i assms(7)] by simp_all
  have "dm_ok (g_sessions v)" using ok by (simp add: v2_ok_def gate_ok_def counts_ok_def)
  then have "(sid, s) \<in> set ?xs" using assms(2) gone dm_get_in_set by force
  then have "sid \<in> set (filter (\<lambda>sid. shard_for_session sid (length (w_shards v)) = i) (map fst ?xs))" using assms(6) n by force
  then have "leaving i sid u" using leaving_start [OF at(2)] by blast
  note w = leaving_drained [OF u _ this assms(10), folded assms(9), unfolded at(1), OF i]
  have "dm_get (sh_flows sh) (sid, addr) = None" if sh: "sh \<in> set (w_shards w)" for sh addr
  proof (rule ccontr)
    assume "\<not> ?thesis"
    then obtain f where f: "dm_get (sh_flows sh) (sid, addr) = Some f" by auto
    obtain j where j: "j < length (w_shards w)" "w_shards w ! j = sh" using sh by (auto simp: in_set_conv_nth)
    have "in_shard (shard_count (vc_tuning c)) j sid" using flows_home_get [OF shard_at(2) [OF _ j(1)]] w j(2) f by force
    then show False using assms(6) j(2) f w by (simp add: in_shard_def)
  qed
  moreover have "dm_get (g_sessions w) sid = None"
    using v2_cleanup_sessions [OF ok, of now now_unix sid] assms(2,8) gone w by simp
  ultimately show ?thesis by blast
qed

section \<open>Witnesses\<close>

definition sample_tuning :: v2_tuning where
  "sample_tuning = \<lparr>shard_count = 2, pool_slots = 4, shard_queue_cap = 8, tx_queue_cap = 8, socket_rcvbuf_bytes = 0,
     socket_sndbuf_bytes = 0, flow_rcvbuf_bytes = 0, flow_sndbuf_bytes = 0\<rparr>"

definition sample_open2 :: v2_config where
  "sample_open2 = \<lparr>vc_rx = vc_rx sample_open, vc_tcp_enabled = False, vc_tun_udp_enabled = False, vc_tun_present = False,
     vc_tuning = sample_tuning, vc_resolve_socket = True\<rparr>"

definition sample_config2 :: v2_config where
  "sample_config2 = sample_open2\<lparr>vc_rx := vc_rx sample_config\<rparr>"

definition sample_w0 :: v2_state where
  "sample_w0 = v2_init sample_open2 0 sample_policy sample_budget"

definition sample_w1 :: v2_state where
  "sample_w1 = v2_step sample_open2 (V2Rx sample_udp) sample_w0"

definition sample_home :: nat where
  "sample_home = shard_for_session sample_sid 2"

definition sample_drain :: inbox_event where
  "sample_drain = \<lparr>ie_now = 5, ie_later = 5, ie_socket_ok = True, ie_register_ok = True, ie_send = None\<rparr>"

definition sample_w2 :: v2_state where
  "sample_w2 = v2_step sample_open2 (V2Drain sample_home [sample_drain]) sample_w1"

lemma sample_home:
  "shard_for_session sample_sid (Suc (Suc 0)) = sample_home" "sample_home < Suc (Suc 0)" "[a, a] ! sample_home = a"
  "sh_inbox (shard_new t) = []" "sh_flows (shard_new t) = []" "sh_session_flows (shard_new t) = []" "sh_token_to_flow (shard_new t) = []"
  "sh_next_token (shard_new t) = 1"
proof -
  have "sample_home < 2" by (simp add: sample_home_def shard_for_session_less)
  then show "sample_home < Suc (Suc 0)" "[a, a] ! sample_home = a" by (auto simp: less_2_cases_iff)
qed (simp_all add: sample_home_def numeral_2_eq_2 shard_new_def)

lemma sample_recv_from: "recv_from sample_udp = sample_udp"
  using sample_udp_fields(6) by (simp add: recv_from_def ev_len_def MAX_PACKET_SIZE_def)

lemma v2_more_fields:
  assumes "gate.more v = gate.more w"
  shows "v_policy v = v_policy w" "v_budgets v = v_budgets w" "v_upstream v = v_upstream w" "w_pool v = w_pool w"
    "w_shards v = w_shards w" "w_flow_counts v = w_flow_counts w" "w_tx_control v = w_tx_control w" "w_tx_data v = w_tx_data w"
    "w_accepted v = w_accepted w"
  using assms by (cases v; cases w; simp)+

lemma sample_w0_fields:
  "g_sessions sample_w0 = []" "g_source_session_counts sample_w0 = []" "g_source_limiter sample_w0 = source_rate_limiter_new 0"
  "v_policy sample_w0 = sample_policy" "v_upstream sample_w0 = []" "w_pool sample_w0 = pool_new 4"
  "w_shards sample_w0 = [shard_new 0, shard_new 0]" "w_flow_counts sample_w0 = [0, 0]" "w_tx_control sample_w0 = []"
  "w_tx_data sample_w0 = []" "w_accepted sample_w0 = []"
  by (simp_all add: sample_w0_def v2_init_def relay.extend_def relay_new_def gate.extend_def gate_new_def sample_open2_def
      sample_tuning_def numeral_2_eq_2)

definition sample_msg :: shard_msg where
  "sample_msg = ClientPacket sample_sid sample_addr sample_game (swap_info sample_info 7) 0 3 5"

lemma sample_w1_fields:
  "w_shards sample_w1 = [shard_new 0, shard_new 0][sample_home := (shard_new 0)\<lparr>sh_inbox := [sample_msg]\<rparr>]"
  "w_pool sample_w1 = pool_write 0 [1, 2, 3] ((pool_new 4)\<lparr>pool_free := [1, 2, 3]\<rparr>)"
  "v_upstream sample_w1 = []" "w_flow_counts sample_w1 = [0, 0]" "w_tx_control sample_w1 = []" "w_tx_data sample_w1 = []"
  "fst (source_rate_limiter_allow (g_source_limiter sample_w1) (sock_ip sample_addr) KNewFlow 5)"
  "\<exists>s. dm_get (g_sessions sample_w1) sample_sid = Some s \<and> lease_expires_at_unix s = None"
proof -
  obtain g where g: "rx_gate (v2_ack sample_open2 6) (vc_rx sample_open) sample_udp sample_w0 = (Some False, g)"
    "gate.more g = gate.more sample_w0"
    "fst (source_rate_limiter_allow (g_source_limiter g) (sock_ip sample_addr) KNewFlow 5)"
    "\<exists>s. dm_get (g_sessions g) sample_sid = Some s \<and> auth_state s = Legacy \<and> lease_expires_at_unix s = None"
    using sample_open_gate [OF sample_udp_fields(7) [unfolded sample_udp_def] sample_w0_fields(1-3), folded sample_udp_def, of "v2_ack sample_open2 6"] by blast
  obtain s where s: "dm_get (g_sessions g) sample_sid = Some s" "auth_state s = Legacy" "lease_expires_at_unix s = None"
    using g(4) by blast
  note f = v2_more_fields [OF g(2)] sample_w0_fields
  have off: "\<not> vc_auth_required sample_open2" "\<not> vc_tun_udp_enabled sample_open2" "vc_rx sample_open2 = vc_rx sample_open"
    "vc_tuning sample_open2 = sample_tuning"
    by (simp_all add: sample_open2_def sample_open_def requires_auth_def)
  have gate: "v2_gate sample_open2 sample_udp sample_w0 = (Some False, g)"
    using g(1) off(3) sample_udp_fields(4) by (simp add: v2_gate_eq)
  have same: "g\<lparr>v_policy := sample_policy, v_budgets := v_budgets sample_w0\<rparr> = g" using f(1,2) sample_w0_fields(4) by (cases g) simp
  have "sample_w1 = v2_payload sample_open2 sample_udp g"
    using gate off sample_udp_fields
    by (simp add: sample_w1_def sample_recv_from v2_rx_def v2_dispatch_def Let_def PING_FRAME_LEN_def PONG_FRAME_LEN_def
        RTT_REPORT_FRAME_LEN_def RESOLVE_REQUEST_FRAME_TYPE_def SESSION_ID_LEN_def)
  also have "\<dots> = v2_udp sample_open2 sample_udp sample_game [1, 2, 3] (swap_info sample_info 7) g"
    using s(1,2) off sample_udp_fields
    by (simp add: v2_payload_def f sample_parse account_budget_allow_def same SESSION_ID_LEN_def IP_HEADER_MIN_def)
  finally have u: "sample_w1 = \<dots>" .
  let ?u = "set_user sample_sid (oi_src_ip (swap_info sample_info 7)) g"
  have more: "gate.more ?u = gate.more g" "g_source_limiter ?u = g_source_limiter g" by (simp_all add: set_user_def split: option.split)
  note fu = v2_more_fields [OF more(1)] f
  have us: "\<exists>s. dm_get (g_sessions ?u) sample_sid = Some s \<and> lease_expires_at_unix s = None"
    using s by (auto simp: set_user_def)
  have acq: "pool_try_acquire (pool_new 4) = Some (0, (pool_new 4)\<lparr>pool_free := [1, 2, 3]\<rparr>)"
    by (simp add: pool_try_acquire_def pool_new_def upt_rec numeral_eq_Suc)
  show "w_shards sample_w1 = [shard_new 0, shard_new 0][sample_home := (shard_new 0)\<lparr>sh_inbox := [sample_msg]\<rparr>]"
    "w_pool sample_w1 = pool_write 0 [1, 2, 3] ((pool_new 4)\<lparr>pool_free := [1, 2, 3]\<rparr>)"
    "v_upstream sample_w1 = []" "w_flow_counts sample_w1 = [0, 0]" "w_tx_control sample_w1 = []" "w_tx_data sample_w1 = []"
    "fst (source_rate_limiter_allow (g_source_limiter sample_w1) (sock_ip sample_addr) KNewFlow 5)"
    "\<exists>s. dm_get (g_sessions sample_w1) sample_sid = Some s \<and> lease_expires_at_unix s = None"
    using g(3) us off(4) sample_udp_fields unfolding u
    by (simp_all add: v2_udp_def acq Let_def fu more shard_of_def shard_has_room_def push_msg_def update_shard_def sample_tuning_def
        sample_home sample_msg_def numeral_3_eq_3)
qed

definition sample_shard_flow :: flow_state where
  "sample_shard_flow = \<lparr>fs_client_addr = sample_addr, fs_original_info = swap_info sample_info 7, fs_last_activity = 5,
     fs_marked_for_removal = None, fs_token = 1\<rparr>"

lemma sample_token: "allocate_flow_token 1 [] = Some (Some 1, 2)"
  by code_simp

lemma sample_w2_fields:
  "v_upstream sample_w2 = [(sample_game, [1, 2, 3])]" "length (w_shards sample_w2) = 2"
  "sh_flows (w_shards sample_w2 ! sample_home) = [((sample_sid, sample_game), sample_shard_flow)]"
  "sh_token_to_flow (w_shards sample_w2 ! sample_home) = [(1, (sample_sid, sample_game))]"
  "pool_free (w_pool sample_w2) = [1, 2, 3, 0]" "w_tx_control sample_w2 = []" "w_tx_data sample_w2 = []"
  "\<exists>s. dm_get (g_sessions sample_w2) sample_sid = Some s \<and> lease_expires_at_unix s = None"
proof -
  have at_home: "w_shards sample_w1 ! sample_home = (shard_new 0)\<lparr>sh_inbox := [sample_msg]\<rparr>" "length (w_shards sample_w1) = 2"
    using sample_home(2) unfolding sample_w1_fields by (simp_all del: list_update.simps)
  have data: "take 3 (pool_buffer (w_pool sample_w1) 0) = [1, 2, 3]" "pool_free (w_pool sample_w1) = [1, 2, 3]"
    by (simp_all add: sample_w1_fields pool_buffer_def pool_write_def pool_new_def)
  show "v_upstream sample_w2 = [(sample_game, [1, 2, 3])]" "length (w_shards sample_w2) = 2"
    "sh_flows (w_shards sample_w2 ! sample_home) = [((sample_sid, sample_game), sample_shard_flow)]"
    "sh_token_to_flow (w_shards sample_w2 ! sample_home) = [(1, (sample_sid, sample_game))]"
    "pool_free (w_pool sample_w2) = [1, 2, 3, 0]" "w_tx_control sample_w2 = []" "w_tx_data sample_w2 = []"
    "\<exists>s. dm_get (g_sessions sample_w2) sample_sid = Some s \<and> lease_expires_at_unix s = None"
    using at_home sample_home(2) sample_w1_fields(7,8) data
    by (simp_all add: sample_w2_def sample_w1_fields(3-6) shard_drain_def MAX_INBOX_DRAIN_BURST_def sample_msg_def sample_drain_def
        shard_client_packet_def should_drop_stale_queued_packet_def shard_new_flow_def total_flows_def update_shard_def
        sample_home(4-) sample_token g_allow_source_event_def allow_source_event_def split_beta Let_def MAX_FLOWS_TOTAL_def
        MAX_FLOWS_PER_SESSION_def insert_flow_def put_flow_def w_release_def pool_release_def pool_buffer_def dm_insert_def
        sample_shard_flow_def numeral_2_eq_2 saturating_duration_since_def)
qed

lemma sample_w_reach:
  "v2_reach sample_open2 (v2_init sample_open2 0 sample_policy sample_budget) sample_w1"
  "v2_reach sample_open2 (v2_init sample_open2 0 sample_policy sample_budget) sample_w2"
  unfolding sample_w2_def sample_w1_def sample_w0_def by (intro v2_next v2_start)+

text \<open>The relay of the samples with authentication on, and the session a hello opens there.\<close>

definition sample_h0 :: v2_state where
  "sample_h0 = v2_init sample_config2 0 sample_policy sample_budget"

definition sample_h1 :: v2_state where
  "sample_h1 = v2_step sample_config2 (V2Rx sample_hello) sample_h0"

lemma sample_views:
  "admission_view sample_v0 = admission_view sample_h0" "vc_rx sample_config = vc_rx sample_config2" "vc_auth_required sample_config2"
  "vc_tuning sample_config2 = sample_tuning"
  using sample_hello_parse(5)
  by (simp_all add: sample_v0_def sample_h0_def v1_init_def v2_init_def admission_view_def relay.extend_def relay_new_def
      gate.extend_def gate_new_def sample_config2_def sample_open2_def)

lemma sample_h1_gate: "sample_h1 = snd (v2_gate sample_config2 sample_hello sample_h0)"
  and sample_h1_sessions: "g_sessions sample_h1 = g_sessions sample_v1"
proof -
  have "recv_from sample_hello = sample_hello" by code_simp
  moreover have v1: "rx_gate v1_ack (vc_rx sample_config) sample_hello sample_v0 = (None, sample_v1)"
    using rx_gate_accepts_hello [OF sample_hello_parse(1,5) sample_verified sample_admitted(1) [OF sample_w_fields]] sample_hello_parse(3)
    by (simp add: sample_v1_def v1_rx_def)
  moreover have agree: "fst (v2_gate sample_config2 sample_hello sample_h0) = None"
    "admission_view (snd (v2_gate sample_config2 sample_hello sample_h0)) = admission_view sample_v1"
    using agree.agree_gate [OF sample_views(1), of "vc_rx sample_config2" sample_hello sample_config2 "ev_later sample_hello"] v1
    by (simp_all add: v2_gate_eq sample_views(2))
  ultimately show "sample_h1 = snd (v2_gate sample_config2 sample_hello sample_h0)"
    by (simp add: sample_h1_def v2_rx_def split_beta prod.case_eq_if)
  then show "g_sessions sample_h1 = g_sessions sample_v1" using agree(2) by (simp add: admission_view_def)
qed

lemma sample_h1_reach: "v2_reach sample_config2 (v2_init sample_config2 0 sample_policy sample_budget) sample_h1"
  unfolding sample_h1_def sample_h0_def by (rule v2_next [OF v2_start])

theorem v2_admission_matches_v1_witness:
  "admission_view (snd (v2_gate sample_config2 sample_hello sample_h0)) =
     admission_view (snd (rx_gate v1_ack (vc_rx sample_config) sample_hello sample_v0))"
  using v2_admission_matches_v1 [OF sample_views(1,2), of sample_hello] by simp

theorem v2_buffers_are_exclusive_witness:
  "mset (pool_free (w_pool sample_w1)) + held_slots (w_shards sample_w1) (w_tx_control sample_w1) (w_tx_data sample_w1)
     = mset [0..<4] \<and> pool_free (w_pool sample_w1) = [1, 2, 3]"
  using v2_buffers_are_exclusive [OF sample_w_reach(1)]
  by (simp add: sample_open2_def sample_tuning_def sample_w1_fields(2) pool_write_def)

theorem v2_delivers_what_clients_sent_witness:
  "v_upstream sample_w2 = [(sample_game, [1, 2, 3])] \<and> (\<exists>sid. (sid, sample_game, [1, 2, 3]) \<in> set (w_accepted sample_w2))"
  using v2_delivers_what_clients_sent [OF sample_w_reach(2), of sample_game "[1, 2, 3]"] by (simp add: sample_w2_fields)

theorem v2_shard_tables_agree_witness:
  "dm_get (sh_token_to_flow (w_shards sample_w2 ! sample_home)) 1 = Some (sample_sid, sample_game) \<and>
   shard_for_session sample_sid 2 = sample_home"
  using v2_shard_tables_agree [OF sample_w_reach(2), of sample_home, OF _ refl, of sample_sid sample_game sample_shard_flow]
    sample_home(2)
  by (simp add: sample_w2_fields dm_get_def sample_shard_flow_def)

theorem v2_payload_needs_owner_witness:
  "v2_rest (v2_step sample_config2 (V2Rx (sample_event [1, 2, 3])) sample_h0) = v2_rest sample_h0"
  using v2_payload_needs_owner [OF sample_views(3), of sample_h0 "sample_event [1, 2, 3]"] sample_views(1)
  by (simp add: admission_view_def)

theorem v2_session_keeps_owner_witness:
  "\<exists>s'. dm_get (g_sessions (v2_step sample_config2 (V2Rx (sample_event [1, 2, 3])) sample_h1)) sample_sid = Some s' \<and>
     auth_state s' = Authenticated \<and> user_id s' = ''u1''"
proof -
  obtain s where s: "dm_get (g_sessions sample_h1) sample_sid = Some s" "auth_state s = Authenticated" "user_id s = ''u1''"
    using sample_v1_session sample_h1_sessions by metis
  show ?thesis
    using v2_session_keeps_owner [OF sample_h1_reach sample_views(3) s(1,2), of "V2Rx (sample_event [1, 2, 3])"] s(3) by auto
qed

text \<open>A reply of the game server, and the sender thread that delivers it.\<close>

definition sample_w3 :: v2_state where
  "sample_w3 = v2_step sample_open2 (V2Readable sample_home 1 [RecvOk [9, 9] None 8 1010 1010]) sample_w2"

definition sample_reply :: tx_packet where
  "sample_reply = \<lparr>tx_addr = sample_addr, tx_session_id = sample_sid, tx_buf_idx = 1, tx_len = 38, tx_enqueued_at = 8, tx_kind = QData\<rparr>"

lemma sample_w3_fields: "w_tx_control sample_w3 = []" "w_tx_data sample_w3 = [sample_reply]"
proof -
  let ?q = "(w_pool sample_w2)\<lparr>pool_free := [2, 3, 0]\<rparr>"
  have "v2_ok sample_open2 sample_w2" by (rule v2_reach_ok [OF sample_w_reach(2) v2_ok_init])
  then have "buffers_sized (w_pool sample_w2)" "length (pool_buffers (w_pool sample_w2)) = 4"
    by (simp_all add: v2_ok_def v2_inner_def v2_parts_ok_def sample_open2_def sample_tuning_def)
  then have len: "length (pool_buffer (pool_write 1 sample_sid ?q) 1) = 1600"
    by (simp add: buffers_sized_def pool_buffer_def pool_write_def sample_sid_def MAX_PACKET_SIZE_def)
  have acq: "pool_try_acquire (w_pool sample_w2) = Some (1, ?q)" by (simp add: pool_try_acquire_def sample_w2_fields)
  obtain s where s: "dm_get (g_sessions sample_w2) sample_sid = Some s" "lease_expires_at_unix s = None"
    using sample_w2_fields(8) by blast
  show "w_tx_control sample_w3 = []" "w_tx_data sample_w3 = [sample_reply]"
    using sample_home(2) s len
    by (simp_all add: sample_w3_def sample_w2_fields shard_readable_def MAX_FLOW_RECV_BURST_def dm_get_def shard_recv_def
        session_lease_is_current_def touch_session_def update_shard_def acq write_response_layout Let_def send_data_def
        sample_reply_def sample_open2_def sample_tuning_def sample_shard_flow_def SESSION_ID_LEN_def MAX_PACKET_SIZE_def)
qed

definition sample_tx :: tx_event where
  "sample_tx = \<lparr>te_now = 9, te_now_unix = 1010, te_mono_ms = 9000, te_later_unix = 1010, te_send_ok = True\<rparr>"

theorem v2_responses_go_to_current_endpoint_witness:
  "let v' = v2_step sample_open2 (V2Tx sample_tx) sample_w3
   in v_sent v' = v_sent sample_w3 \<or>
     (\<exists>s payload info tos. dm_get (g_sessions sample_w3) sample_sid = Some s \<and>
        v_sent v' = v_sent sample_w3 @ [(client_addr s, sample_sid @ build_response_ip_packet_with_tos payload info tos)])"
proof -
  have "v2_reach sample_open2 (v2_init sample_open2 0 sample_policy sample_budget) sample_w3"
    unfolding sample_w3_def by (rule v2_next [OF sample_w_reach(2)])
  from v2_responses_go_to_current_endpoint [OF this sample_w3_fields, of sample_tx]
  show ?thesis unfolding Let_def by (auto simp: sample_reply_def)
qed

lemma sample_h1_shards: "w_shards sample_h1 = [shard_new 0, shard_new 0]"
proof -
  have "w_shards (v2_rest sample_h1) = w_shards (v2_rest sample_h0)"
    using v2_gate_frame(1) [of sample_config2 sample_hello sample_h0] by (simp add: sample_h1_gate)
  then show ?thesis
    by (simp add: v2_rest_def sample_h0_def v2_init_def relay.extend_def relay_new_def gate.extend_def sample_views(4) sample_tuning_def numeral_2_eq_2)
qed

lemma sample_v1_size: "dm_len (g_sessions sample_v1) = 1"
proof -
  note gate = rx_gate_accepts_hello [OF sample_hello_parse(1,5) sample_verified sample_admitted(1) [OF sample_w_fields sample_hello_parse(3) sample_fields(4)]]
  have v1: "sample_v1 = snd (rx_gate v1_ack (vc_rx sample_config) sample_hello sample_v0)"
    using gate by (simp add: sample_v1_def v1_rx_def)
  show ?thesis
    unfolding v1 gate using sample_w_fields(1) sample_hello_parse(2)
    by (simp add: rx_hello_def rx_touch_session_def Let_def v1_ack_def relay_send_def dm_insert_def dm_len_def dm_get_def split: option.split)
qed

theorem v2_expired_session_goes_away_witness:
  "let u = v2_step sample_config2 (V2Cleanup 7 1700) sample_h1; w = v2_step sample_config2 (V2Drain sample_home [sample_drain]) u
   in dm_get (g_sessions w) sample_sid = None"
proof -
  let ?u = "v2_step sample_config2 (V2Cleanup 7 1700) sample_h1"
  obtain s where s: "dm_get (g_sessions sample_h1) sample_sid = Some s" "lease_expires_at_unix s = Some 1600"
    using sample_v1_session sample_h1_sessions by metis
  have cap: "0 < shard_count (vc_tuning sample_config2)" "shard_queue_cap (vc_tuning sample_config2) = 8"
    "sample_home = shard_for_session sample_sid (shard_count (vc_tuning sample_config2))"
    by (simp_all add: sample_views(4) sample_tuning_def sample_home_def)
  let ?xs = "filter (\<lambda>(sid, s). v2_session_gone 7 1700 s) (g_sessions sample_h1)"
  have box: "sh_inbox (w_shards sample_h1 ! sample_home) = []" by (simp add: sample_h1_shards sample_home)
  have one: "length ?xs \<le> 1" using sample_v1_size length_filter_le [of _ "g_sessions sample_h1"] by (simp add: sample_h1_sessions dm_len_def)
  have home: "sample_home < length (w_shards sample_h1)" by (simp add: sample_h1_shards sample_home)
  have "w_shards ?u = w_shards (fold (v2_expire_session sample_config2) ?xs sample_h1)" by (simp add: v2_cleanup_def Let_def)
  then have "length (sh_inbox (w_shards ?u ! sample_home)) \<le> 1"
    using expire_inbox [OF home, of ?xs sample_config2] one cap(2) box
      length_filter_le [of "\<lambda>sid. shard_for_session sid (length (w_shards sample_h1)) = sample_home" "map fst ?xs"] by simp
  then show ?thesis
    using v2_expired_session_goes_away [OF sample_h1_reach s(1) _ _ cap(1,3) _ refl refl, of 1700 7 "[[sample_drain]]"] s(2) one cap(2) box
    by (simp add: Let_def del: v2_step.simps)
qed

end
