(* ===== verification/Startup.thy ===== *)
theory Startup
  imports Stats_Api V2_Safety
begin

text \<open>
  Start-up of the process (\<^verbatim>\<open>main\<close> and \<^verbatim>\<open>handle_cli_args\<close> in \<^verbatim>\<open>src/src/main.rs\<close>,
  \<^verbatim>\<open>bind_main_socket\<close> and the head of \<^verbatim>\<open>run_datapath_v2\<close> in \<^verbatim>\<open>src/src/datapath_v2.rs\<close>, the creation
  of the TUN device in \<^verbatim>\<open>src/src/tcp_tun.rs\<close>): from the command line, the environment and the
  answers of the operating system to a datapath with its configuration, the context of the
  statistics server, and the servers that run.
\<close>

section \<open>Definitions\<close>

subsection \<open>Command line\<close>

definition handle_cli_args :: "string list \<Rightarrow> string + string option" where
  "handle_cli_args args =
     (case args of
        [] \<Rightarrow> Inr None
      | arg # _ \<Rightarrow>
          if arg = ''-V'' \<or> arg = ''--version'' then Inr (Some (''swifttunnel-relay '' @ RELAY_VERSION))
          else if arg = ''-h'' \<or> arg = ''--help'' then
            Inr (Some (''swifttunnel-relay '' @ RELAY_VERSION @ [CHR 0x0A, CHR 0x0A] @
              ''Usage: swifttunnel-relay [--version|--help]'' @ [CHR 0x0A, CHR 0x0A] @
              ''Configuration is provided through RELAY_* environment variables.''))
          else Inl (''unknown argument '' @ [CHR 0x27] @ arg @ [CHR 0x27] @ ''; use --help for supported options''))"

subsection \<open>The TUN device\<close>

text \<open>The calls to the operating system, and what it answers.\<close>

datatype sys_action =
    OpenTun nat
  | TunSetIff bytes u16
  | CloseFd nat
  | IpCommand "string list"

record tun_os =
  os_open :: "io_error_kind + nat"
  os_ioctl :: "io_error_kind option"
  os_ip :: "string list \<Rightarrow> io_error_kind option"

definition IFF_TUN :: u16 where "IFF_TUN = 0x0001"
definition IFF_NO_PI :: u16 where "IFF_NO_PI = 0x1000"
definition IFNAMSIZ :: nat where "IFNAMSIZ = 16"
definition TUN_DEVICE_NAME :: string where "TUN_DEVICE_NAME = ''swifttun0''"
definition TUN_INTERFACE_CIDR :: string where "TUN_INTERFACE_CIDR = ''10.200.0.1/16''"
definition TUN_MTU :: string where "TUN_MTU = ''1400''"

definition ifr_name :: "string \<Rightarrow> bytes" where
  "ifr_name name =
     (let name_bytes = bytes_of_str name; copy_len = min (length name_bytes) (IFNAMSIZ - 1)
      in take copy_len name_bytes @ replicate (IFNAMSIZ - copy_len) 0)"

definition create_tun_device :: "tun_os \<Rightarrow> string \<Rightarrow> (io_error_kind + nat) \<times> sys_action list" where
  "create_tun_device os name =
     (case os_open os of
        Inl e \<Rightarrow> (Inl e, [])
      | Inr fd \<Rightarrow>
          let setiff = TunSetIff (ifr_name name) (IFF_TUN OR IFF_NO_PI) in
          (case os_ioctl os of
             Some e \<Rightarrow> (Inl e, [OpenTun fd, setiff, CloseFd fd])
           | None \<Rightarrow> (Inr fd, [OpenTun fd, setiff])))"

fun run_ip_commands :: "tun_os \<Rightarrow> string list list \<Rightarrow> io_error_kind option \<times> sys_action list" where
  "run_ip_commands os [] = (None, [])"
| "run_ip_commands os (args # rest) =
     (case os_ip os args of
        Some e \<Rightarrow> (Some e, [IpCommand args])
      | None \<Rightarrow> let (r, acts) = run_ip_commands os rest in (r, IpCommand args # acts))"

definition configure_tun_interface :: "tun_os \<Rightarrow> string \<Rightarrow> io_error_kind option \<times> sys_action list" where
  "configure_tun_interface os name = run_ip_commands os
     [[''link'', ''set'', ''dev'', name, ''mtu'', TUN_MTU], [''link'', ''set'', ''dev'', name, ''up''],
      [''addr'', ''replace'', TUN_INTERFACE_CIDR, ''dev'', name]]"

definition tun_handler_new :: "tun_os \<Rightarrow> (io_error_kind + nat) \<times> sys_action list" where
  "tun_handler_new os =
     (case create_tun_device os TUN_DEVICE_NAME of
        (Inl e, acts) \<Rightarrow> (Inl e, acts)
      | (Inr fd, acts) \<Rightarrow>
          (case configure_tun_interface os TUN_DEVICE_NAME of
             (Some e, cmds) \<Rightarrow> (Inl e, acts @ cmds)
           | (None, cmds) \<Rightarrow> (Inr fd, acts @ cmds)))"

subsection \<open>The main socket\<close>

datatype bind_call = CreateSocket | SetReuse | SetRcvbuf | SetSndbuf | BindAddr | SetWriteTimeout

record bind_os =
  os_fails :: "bind_call \<Rightarrow> bool"
  os_rcvbuf :: "nat option"
  os_sndbuf :: "nat option"

definition bind_main_socket :: "bind_os \<Rightarrow> v2_tuning \<Rightarrow> bind_call + socket_buffer_sizes" where
  "bind_main_socket os tuning =
     (case find (os_fails os) [CreateSocket, SetReuse, SetRcvbuf, SetSndbuf, BindAddr, SetWriteTimeout] of
        Some call \<Rightarrow> Inl call
      | None \<Rightarrow> Inr
          \<lparr>requested_rcvbuf_bytes = socket_rcvbuf_bytes tuning, requested_sndbuf_bytes = socket_sndbuf_bytes tuning,
           effective_rcvbuf_bytes = (case os_rcvbuf os of None \<Rightarrow> 0 | Some n \<Rightarrow> n),
           effective_sndbuf_bytes = (case os_sndbuf os of None \<Rightarrow> 0 | Some n \<Rightarrow> n)\<rparr>)"

subsection \<open>The process\<close>

text \<open>The calls of the start whose failure is a panic (\<^verbatim>\<open>expect\<close>).\<close>

datatype expect_call = SpawnBudgetMaintenance | SpawnTunHandler | CloneForTunResponses | SpawnTunResponses
  | SpawnSnapshotUpdater | CollectWakers

record process_input =
  pi_args :: "string list"
  pi_env :: environment
  pi_ext :: ticket_ext
  pi_hash :: "ip_addr \<Rightarrow> nat"
  pi_read_to_string :: "string \<Rightarrow> string + string"
  pi_cpus :: nat
  pi_bind :: bind_os
  pi_tun :: tun_os
  pi_expect_fails :: "expect_call \<Rightarrow> bool"
  pi_now :: instant
  pi_now_unix :: nat

definition env_flag :: "environment \<Rightarrow> string \<Rightarrow> bool" where
  "env_flag env name = (case env name of None \<Rightarrow> False | Some v \<Rightarrow> eq_ignore_ascii_case (trim v) ''true'')"

text \<open>The two flags of TUN forwarding and whether there is a device, or the call that panics.\<close>

definition tun_start :: "process_input \<Rightarrow> expect_call + bool \<times> bool \<times> bool" where
  "tun_start p =
     (let tcp_enabled = env_flag (pi_env p) ''RELAY_TCP_ENABLED'';
          tun_udp_enabled = env_flag (pi_env p) ''RELAY_TUN_UDP''
      in if tcp_enabled \<or> tun_udp_enabled then
           (case fst (tun_handler_new (pi_tun p)) of
              Inr fd \<Rightarrow>
                (case find (pi_expect_fails p) [SpawnTunHandler, CloneForTunResponses, SpawnTunResponses] of
                   Some call \<Rightarrow> Inl call
                 | None \<Rightarrow> Inr (tcp_enabled, tun_udp_enabled, True))
            | Inl e \<Rightarrow> Inr (False, False, False))
         else Inr (tcp_enabled, tun_udp_enabled, False))"

record started =
  sd_datapath :: relay_datapath
  sd_config :: relay_config
  sd_flow_channel_capacity :: nat
  sd_tuning :: v2_tuning
  sd_policy :: dest_policy
  sd_budget :: budget_policy
  sd_context :: stats_api_context
  sd_health_port :: "nat option"
  sd_stats_server :: "(nat \<times> string) option"

datatype start_error = UnknownArgument string | BadAuthConfig auth_config_error | BindFailed bind_call

datatype start_result = Printed string | StartFailed start_error | StartPanicked expect_call | Started started

definition get_flow_channel_capacity :: "environment \<Rightarrow> nat" where
  "get_flow_channel_capacity env = parse_flow_channel_capacity (env ''RELAY_FLOW_CHANNEL_CAPACITY'')"

definition start_datapath ::
  "process_input \<Rightarrow> relay_auth_config \<Rightarrow> socket_buffer_sizes \<Rightarrow> bool \<times> bool \<times> bool \<Rightarrow> started" where
  "start_datapath p auth_config buffers tun =
     (let env = pi_env p;
          datapath = get_relay_datapath env;
          (tcp_enabled, tun_udp_enabled, tun_present) = tun;
          runtime_config = build_runtime_config datapath (get_listen_port env) (get_stats_port env) auth_config tcp_enabled
            tun_udp_enabled buffers (get_flow_channel_capacity env) (relay_v2_tuning (pi_cpus p) env);
          health_port = get_health_port env
      in \<lparr>sd_datapath = datapath,
          sd_config = \<lparr>vc_rx = \<lparr>c_ext = pi_ext p, c_auth = auth_config, c_hash = pi_hash p\<rparr>, vc_tcp_enabled = tcp_enabled,
            vc_tun_udp_enabled = tun_udp_enabled, vc_tun_present = tun_present\<rparr>,
          sd_flow_channel_capacity = get_flow_channel_capacity env,
          sd_tuning = relay_v2_tuning (pi_cpus p) env,
          sd_policy = dest_from_env env (pi_read_to_string p),
          sd_budget = budget_policy_from_env env,
          sd_context = stats_api_context_new [] [] stats_new runtime_config (pi_now p) (pi_now_unix p),
          sd_health_port = (if health_port \<noteq> 0 then Some health_port else None),
          sd_stats_server = map_option (\<lambda>token. (get_stats_port env, token)) (get_stats_token env)\<rparr>)"

definition relay_main :: "process_input \<Rightarrow> start_result" where
  "relay_main p =
     (case handle_cli_args (pi_args p) of
        Inl e \<Rightarrow> StartFailed (UnknownArgument e)
      | Inr (Some t) \<Rightarrow> Printed t
      | Inr None \<Rightarrow>
          (case auth_config_from_env (pi_ext p) (pi_env p) of
             Inl e \<Rightarrow> StartFailed (BadAuthConfig e)
           | Inr auth_config \<Rightarrow>
               if pi_expect_fails p SpawnBudgetMaintenance then StartPanicked SpawnBudgetMaintenance
               else (case bind_main_socket (pi_bind p) (relay_v2_tuning (pi_cpus p) (pi_env p)) of
                  Inl call \<Rightarrow> StartFailed (BindFailed call)
                | Inr buffers \<Rightarrow>
                    (case tun_start p of
                       Inl call \<Rightarrow> StartPanicked call
                     | Inr tun \<Rightarrow> Started (start_datapath p auth_config buffers tun)))))"

definition v1_config_of :: "started \<Rightarrow> v1_config" where
  "v1_config_of s = relay_config.extend (sd_config s) \<lparr>vc_flow_channel_capacity = sd_flow_channel_capacity s\<rparr>"

definition v2_config_of :: "bool \<Rightarrow> started \<Rightarrow> v2_config" where
  "v2_config_of resolve_socket s = relay_config.extend (sd_config s) \<lparr>vc_tuning = sd_tuning s, vc_resolve_socket = resolve_socket\<rparr>"

section \<open>What runs is what was asked for\<close>

lemma relay_main_started:
  assumes "relay_main p = Started s"
  obtains auth_config buffers tun where "auth_config_from_env (pi_ext p) (pi_env p) = Inr auth_config"
    "bind_main_socket (pi_bind p) (relay_v2_tuning (pi_cpus p) (pi_env p)) = Inr buffers" "tun_start p = Inr tun"
    "s = start_datapath p auth_config buffers tun" "pi_args p = []"
  using assms by (auto simp: relay_main_def handle_cli_args_def split: sum.splits option.splits list.splits if_splits)

lemma start_datapath_report:
  "sc_runtime_config (sd_context (start_datapath p auth_config buffers tun)) =
     build_runtime_config (get_relay_datapath (pi_env p)) (get_listen_port (pi_env p)) (get_stats_port (pi_env p)) auth_config
       (fst tun) (fst (snd tun)) buffers (get_flow_channel_capacity (pi_env p)) (relay_v2_tuning (pi_cpus p) (pi_env p))"
  "sd_datapath (start_datapath p auth_config buffers tun) = get_relay_datapath (pi_env p)"
  "sd_tuning (start_datapath p auth_config buffers tun) = relay_v2_tuning (pi_cpus p) (pi_env p)"
  "sd_flow_channel_capacity (start_datapath p auth_config buffers tun) = get_flow_channel_capacity (pi_env p)"
  "sd_health_port (start_datapath p auth_config buffers tun) =
     (if get_health_port (pi_env p) \<noteq> 0 then Some (get_health_port (pi_env p)) else None)"
  "sd_stats_server (start_datapath p auth_config buffers tun) =
     map_option (\<lambda>token. (get_stats_port (pi_env p), token)) (get_stats_token (pi_env p))"
  unfolding start_datapath_def Let_def split_beta by (simp_all add: stats_api_context_new_def)

lemma build_runtime_config_fields:
  "rc_datapath (build_runtime_config d lp sp a t u bs fc tu) = (case d of V1 \<Rightarrow> ''v1'' | V2 \<Rightarrow> ''v2'')"
  "rc_listen_port (build_runtime_config d lp sp a t u bs fc tu) = lp" "rc_stats_port (build_runtime_config d lp sp a t u bs fc tu) = sp"
  "rc_auth_mode (build_runtime_config d lp sp a t u bs fc tu) = auth_mode_as_str (ac_mode a)"
  "rc_server_id (build_runtime_config d lp sp a t u bs fc tu) = ac_server_id a"
  "rc_tcp_enabled (build_runtime_config d lp sp a t u bs fc tu) = t" "rc_tun_udp_enabled (build_runtime_config d lp sp a t u bs fc tu) = u"
  "rc_flow_channel_capacity (build_runtime_config d lp sp a t u bs fc tu) = fc"
  "rv_shard_count (rc_v2 (build_runtime_config d lp sp a t u bs fc tu)) = shard_count tu"
  "rv_pool_slots (rc_v2 (build_runtime_config d lp sp a t u bs fc tu)) = pool_slots tu"
  "rv_shard_queue_cap (rc_v2 (build_runtime_config d lp sp a t u bs fc tu)) = shard_queue_cap tu"
  "rv_tx_queue_cap (rc_v2 (build_runtime_config d lp sp a t u bs fc tu)) = tx_queue_cap tu"
  "main_socket_rcvbuf_requested (rc_v2 (build_runtime_config d lp sp a t u bs fc tu)) = requested_rcvbuf_bytes bs"
  "main_socket_sndbuf_requested (rc_v2 (build_runtime_config d lp sp a t u bs fc tu)) = requested_sndbuf_bytes bs"
  by (simp_all add: build_runtime_config_def)

lemma start_datapath_fields:
  "c_auth (vc_rx (sd_config (start_datapath p auth_config buffers tun))) = auth_config"
  "vc_tcp_enabled (sd_config (start_datapath p auth_config buffers tun)) = fst tun"
  "vc_tun_udp_enabled (sd_config (start_datapath p auth_config buffers tun)) = fst (snd tun)"
  "vc_tun_present (sd_config (start_datapath p auth_config buffers tun)) = snd (snd tun)"
  unfolding start_datapath_def Let_def split_beta by simp_all

lemma config_of_fields [simp]:
  "vc_rx (v1_config_of s) = vc_rx (sd_config s)" "vc_rx (v2_config_of b s) = vc_rx (sd_config s)"
  by (simp_all add: v1_config_of_def v2_config_of_def relay_config.extend_def)

text \<open>
  C18. A process that starts without the insecure override has a 32-byte key, and in
  whichever datapath it runs a datagram without an authenticated session with a running
  lease at the sender's address changes nothing but the admission tables, the limits,
  the statistics and the buffer pool, and whatever it makes the relay send or queue for
  sending is addressed to its sender.
\<close>

theorem started_relay_is_closed_by_default:
  assumes "relay_main p = Started s" "pi_env p ''RELAY_ALLOW_INSECURE'' \<noteq> Some ''1''"
    and "\<not> (\<exists>e. dm_get (g_sessions v) (ev_sid ev) = Some e \<and> session_auth_is_current e (ev_now_unix ev) \<and> client_addr e = ev_addr ev)"
    and "\<not> (\<exists>e. dm_get (g_sessions w) (ev_sid ev) = Some e \<and> session_auth_is_current e (ev_now_unix ev) \<and> client_addr e = ev_addr ev)"
    and "v' = v1_step (v1_config_of s) (V1Rx ev) v" "w' = v2_step (v2_config_of b s) (V2Rx ev) w"
  shows "v1_rest v' = v1_rest v \<and>
    (\<exists>acks. v_sent v' = v_sent v @ acks \<and> (\<forall>(addr, frame) \<in> set acks. addr = ev_addr ev)) \<and>
    v2_rest w' = v2_rest w \<and>
    (\<exists>acks. w_tx_control w' = w_tx_control w @ acks \<and> (\<forall>p \<in> set acks. tx_addr p = ev_addr ev)) \<and>
    (\<exists>key. ac_public_key (c_auth (vc_rx (sd_config s))) = Some key \<and> length key = 32)"
proof -
  obtain auth_config buffers tun where a: "auth_config_from_env (pi_ext p) (pi_env p) = Inr auth_config"
    "s = start_datapath p auth_config buffers tun"
    by (rule relay_main_started [OF assms(1)])
  then have auth: "requires_auth (ac_mode (c_auth (vc_rx (sd_config s))))"
    "\<exists>key. ac_public_key (c_auth (vc_rx (sd_config s))) = Some key \<and> length key = 32"
    using assms(2) by (auto simp: start_datapath_fields auth_config_from_env_def Let_def requires_auth_def split: if_splits option.splits)
  have "vc_auth_required (v1_config_of s)" "vc_auth_required (v2_config_of b s)" using auth(1) by simp_all
  then show ?thesis
    using v1_unowned_datagram [OF _ assms(3)] v2_unowned_datagram [OF _ assms(4)] auth(2) unfolding assms(5,6) by blast
qed

lemma parse_digits_bound: "parse_digits m acc s = Some n \<Longrightarrow> acc \<le> m \<Longrightarrow> n \<le> m"
  by (induction m acc s rule: parse_digits.induct) (auto simp: Let_def split: option.splits if_splits)

lemma parse_uint_bound: "parse_uint m s = Some n \<Longrightarrow> n \<le> m"
  using parse_digits_bound [of m 0] unfolding parse_uint_def by (auto split: if_splits list.splits simp del: parse_digits.simps)

lemma bind_parse_bound: "Option.bind r (parse_uint m) = Some n \<Longrightarrow> n \<le> m"
  by (auto simp: bind_eq_Some_conv dest: parse_uint_bound)

lemma ports_bounded: "get_listen_port env \<le> u16_max" "get_stats_port env \<le> u16_max" "get_health_port env \<le> u16_max"
  by (auto simp: get_listen_port_def get_stats_port_def get_health_port_def DEFAULT_PORT_def DEFAULT_STATS_PORT_def
      DEFAULT_HEALTH_PORT_def u16_max_def split: option.splits dest: bind_parse_bound)

text \<open>A configuration report that tells the truth about the process.\<close>

definition reports_truth :: "started \<Rightarrow> bool" where
  "reports_truth s \<longleftrightarrow>
     (let r = sc_runtime_config (sd_context s); c = sd_config s in
      rc_datapath r = (case sd_datapath s of V1 \<Rightarrow> ''v1'' | V2 \<Rightarrow> ''v2'') \<and>
      rc_auth_mode r = auth_mode_as_str (ac_mode (c_auth (vc_rx c))) \<and> rc_server_id r = ac_server_id (c_auth (vc_rx c)) \<and>
      rc_tcp_enabled r = vc_tcp_enabled c \<and> rc_tun_udp_enabled r = vc_tun_udp_enabled c \<and>
      rc_flow_channel_capacity r = vc_flow_channel_capacity (v1_config_of s) \<and>
      rv_shard_count (rc_v2 r) = shard_count (sd_tuning s) \<and> rv_pool_slots (rc_v2 r) = pool_slots (sd_tuning s) \<and>
      rv_shard_queue_cap (rc_v2 r) = shard_queue_cap (sd_tuning s) \<and> rv_tx_queue_cap (rc_v2 r) = tx_queue_cap (sd_tuning s) \<and>
      main_socket_rcvbuf_requested (rc_v2 r) = socket_rcvbuf_bytes (sd_tuning s) \<and>
      main_socket_sndbuf_requested (rc_v2 r) = socket_sndbuf_bytes (sd_tuning s) \<and>
      (\<forall>port token. sd_stats_server s = Some (port, token) \<longrightarrow> port = rc_stats_port r))"

lemma tun_start_consistent: "tun_start p = Inr tun \<Longrightarrow> fst tun \<or> fst (snd tun) \<Longrightarrow> snd (snd tun)"
  by (auto simp: tun_start_def Let_def split: if_splits sum.splits option.splits)

text \<open>
  Whatever the environment and the operating system answer, a process that starts
  reports the configuration it runs with, has a TUN device whenever a TUN flag is on, at
  least one and at most 256 shards, a pool and flow queues within their ranges, ports of
  16 bits, no health server on port zero, and no statistics server with a blank token.
\<close>

theorem started_relay_is_well_configured:
  assumes "relay_main p = Started s"
  shows "reports_truth s \<and> (vc_tcp_enabled (sd_config s) \<or> vc_tun_udp_enabled (sd_config s) \<longrightarrow> vc_tun_present (sd_config s)) \<and>
    1 \<le> shard_count (sd_tuning s) \<and> shard_count (sd_tuning s) \<le> 256 \<and>
    512 \<le> pool_slots (sd_tuning s) \<and> pool_slots (sd_tuning s) \<le> 262144 \<and>
    MIN_FLOW_CHANNEL_CAPACITY \<le> sd_flow_channel_capacity s \<and> sd_flow_channel_capacity s \<le> MAX_FLOW_CHANNEL_CAPACITY \<and>
    rc_listen_port (sc_runtime_config (sd_context s)) < 2 ^ 16 \<and> rc_stats_port (sc_runtime_config (sd_context s)) < 2 ^ 16 \<and>
    (\<forall>port. sd_health_port s = Some port \<longrightarrow> 0 < port \<and> port < 2 ^ 16) \<and>
    (\<forall>port token. sd_stats_server s = Some (port, token) \<longrightarrow> trim token \<noteq> [])"
proof -
  obtain auth_config buffers tun where a: "s = start_datapath p auth_config buffers tun"
    "bind_main_socket (pi_bind p) (relay_v2_tuning (pi_cpus p) (pi_env p)) = Inr buffers" "tun_start p = Inr tun"
    by (rule relay_main_started [OF assms])
  have buf: "requested_rcvbuf_bytes buffers = socket_rcvbuf_bytes (sd_tuning s)" "requested_sndbuf_bytes buffers = socket_sndbuf_bytes (sd_tuning s)"
    using a(2) by (auto simp: a(1) start_datapath_report bind_main_socket_def split: option.splits)
  have "vc_flow_channel_capacity (v1_config_of s) = sd_flow_channel_capacity s" by (simp add: v1_config_of_def relay_config.extend_def)
  then have truth: "reports_truth s"
    using buf by (auto simp: reports_truth_def Let_def a(1) start_datapath_report start_datapath_fields build_runtime_config_fields)
  have tuning: "sd_tuning s = relay_v2_tuning (pi_cpus p) (pi_env p)"
    and cap: "sd_flow_channel_capacity s = get_flow_channel_capacity (pi_env p)"
    and ports: "rc_listen_port (sc_runtime_config (sd_context s)) = get_listen_port (pi_env p)"
      "rc_stats_port (sc_runtime_config (sd_context s)) = get_stats_port (pi_env p)"
    and health: "sd_health_port s = (if get_health_port (pi_env p) \<noteq> 0 then Some (get_health_port (pi_env p)) else None)"
    and token: "sd_stats_server s = map_option (\<lambda>token. (get_stats_port (pi_env p), token)) (get_stats_token (pi_env p))"
    by (simp_all add: a(1) start_datapath_report build_runtime_config_fields)
  have "MIN_FLOW_CHANNEL_CAPACITY \<le> sd_flow_channel_capacity s" "sd_flow_channel_capacity s \<le> MAX_FLOW_CHANNEL_CAPACITY"
    unfolding cap get_flow_channel_capacity_def parse_flow_channel_capacity_def Let_def
    by (simp_all add: MIN_FLOW_CHANNEL_CAPACITY_def MAX_FLOW_CHANNEL_CAPACITY_def)
  moreover have "trim t \<noteq> []" if "sd_stats_server s = Some (port, t)" for port t
    using that unfolding token by (auto simp: get_stats_token_def bind_eq_Some_conv split: if_splits)
  ultimately show ?thesis
    using truth tun_start_consistent [OF a(3)] tuning_bounds [of "pi_cpus p" "pi_env p"] ports_bounded [of "pi_env p"]
    unfolding tuning ports health by (auto simp: a(1) start_datapath_fields u16_max_def)
qed

section \<open>A device that cannot be configured\<close>

text \<open>The descriptors open after a sequence of calls.\<close>

fun open_fds :: "sys_action list \<Rightarrow> nat list" where
  "open_fds [] = []"
| "open_fds (OpenTun fd # acts) = (if CloseFd fd \<in> set acts then open_fds acts else fd # open_fds acts)"
| "open_fds (_ # acts) = open_fds acts"

lemma ip_commands_only: "snd (run_ip_commands os cmds) = map IpCommand (take (length (snd (run_ip_commands os cmds))) cmds)"
  by (induction os cmds rule: run_ip_commands.induct) (auto split: option.splits prod.splits)

lemma open_fds_ip: "open_fds (map IpCommand cmds) = []"
  by (induction cmds) simp_all

text \<open>
  C35. Setting up the TUN device keeps exactly its descriptor open when every call
  succeeds and none when the device cannot be opened or named; when one of the address
  commands fails the error is returned but the descriptor stays open.
\<close>

theorem tun_setup_descriptors:
  shows "(case fst (tun_handler_new os) of
      Inr fd \<Rightarrow> open_fds (snd (tun_handler_new os)) = [fd] \<and> os_open os = Inr fd \<and> os_ioctl os = None \<and>
        fst (configure_tun_interface os ''swifttun0'') = None
    | Inl e \<Rightarrow> open_fds (snd (tun_handler_new os)) =
        (case os_open os of Inr fd \<Rightarrow> if os_ioctl os = None then [fd] else [] | Inl _ \<Rightarrow> []))"
proof -
  obtain cmds where "snd (configure_tun_interface os TUN_DEVICE_NAME) = map IpCommand cmds"
    unfolding configure_tun_interface_def using ip_commands_only by blast
  moreover have "TUN_DEVICE_NAME = ''swifttun0''" by (simp add: TUN_DEVICE_NAME_def)
  ultimately show ?thesis
    by (cases "configure_tun_interface os TUN_DEVICE_NAME"; cases "os_open os"; cases "os_ioctl os"; cases "fst (configure_tun_interface os TUN_DEVICE_NAME)")
      (auto simp: tun_handler_new_def create_tun_device_def open_fds_ip Let_def)
qed

section \<open>Witnesses\<close>

definition sample_env :: environment where
  "sample_env k = (if k = ''RELAY_AUTH_PUBLIC_KEY_B64'' then Some ''AAAAAAAAAAAAAAAAAAAAAAAAAAAAAAAA''
     else if k = ''RELAY_SERVER_ID'' then Some ''fra'' else if k = ''RELAY_TCP_ENABLED'' then Some ''true'' else None)"

definition sample_process :: process_input where
  "sample_process = \<lparr>pi_args = [], pi_env = sample_env, pi_ext = sample_ext, pi_hash = (\<lambda>_. 7), pi_read_to_string = Inl,
     pi_cpus = 4, pi_bind = \<lparr>os_fails = (\<lambda>_. False), os_rcvbuf = Some 1, os_sndbuf = None\<rparr>,
     pi_tun = \<lparr>os_open = Inr 9, os_ioctl = None, os_ip = (\<lambda>args. if hd args = ''addr'' then Some OtherKind else None)\<rparr>,
     pi_expect_fails = (\<lambda>_. False), pi_now = 0, pi_now_unix = 1000\<rparr>"

lemma sample_process_starts: "\<exists>s. relay_main sample_process = Started s"
proof -
  obtain auth where "auth_config_from_env sample_ext sample_env = Inr auth"
  proof -
    have "case auth_config_from_env sample_ext sample_env of Inr _ \<Rightarrow> True | Inl _ \<Rightarrow> False" by code_simp
    then show thesis using that by (auto split: sum.splits)
  qed
  then show ?thesis
    by (auto simp: relay_main_def tun_start_def sample_process_def handle_cli_args_def bind_main_socket_def Let_def split: sum.split)
qed

theorem started_relay_is_closed_by_default_witness:
  "\<exists>s. relay_main sample_process = Started s \<and>
    v1_rest (v1_step (v1_config_of s) (V1Rx (sample_event [1, 2, 3])) sample_v0) = v1_rest sample_v0 \<and>
    v2_rest (v2_step (v2_config_of True s) (V2Rx (sample_event [1, 2, 3])) sample_w0) = v2_rest sample_w0"
proof -
  obtain s where s: "relay_main sample_process = Started s" using sample_process_starts by blast
  have "pi_env sample_process ''RELAY_ALLOW_INSECURE'' \<noteq> Some ''1''" by (simp add: sample_process_def sample_env_def)
  moreover have "g_sessions sample_v0 = []" "g_sessions sample_w0 = []" using sample_w0_fields by simp_all
  ultimately show ?thesis
    using s started_relay_is_closed_by_default [OF s _ _ _ refl refl, of sample_v0 "sample_event [1, 2, 3]" sample_w0 True] by (auto simp: dm_get_def)
qed

theorem started_relay_is_well_configured_witness:
  "\<exists>s. relay_main sample_process = Started s \<and> reports_truth s \<and>
    (vc_tcp_enabled (sd_config s) \<longrightarrow> vc_tun_present (sd_config s)) \<and> 1 \<le> shard_count (sd_tuning s)"
proof -
  obtain s where s: "relay_main sample_process = Started s" using sample_process_starts by blast
  show ?thesis using s started_relay_is_well_configured [OF s] by blast
qed

end
