(* ===== verification/Server.thy ===== *)
theory Server
  imports Stats_Api
begin

text \<open>
  The two HTTP servers of \<^verbatim>\<open>src/src/main.rs\<close> around the handlers of \<^verbatim>\<open>Stats_Api\<close>: what a connection does
  to its stream, and the loops that accept connections and give each a thread.  The answers
  of the operating system are inputs.  A server is a state machine: an accept adds a client
  whose thread has not run yet, and the threads run in any order.
\<close>

section \<open>Definitions\<close>

definition STATS_HTTP_READ_TIMEOUT_SECS :: nat where "STATS_HTTP_READ_TIMEOUT_SECS = 5"
definition STATS_HTTP_WRITE_TIMEOUT_SECS :: nat where "STATS_HTTP_WRITE_TIMEOUT_SECS = 5"

subsection \<open>A connection\<close>

datatype stream_call = SetBlocking | SetReadTimeout nat | SetWriteDeadline nat

record stream_os =
  st_fails :: "stream_call \<Rightarrow> bool"
  st_reads :: "read_result list"
  st_write_ok :: bool

text \<open>What is done to a stream: a write of the whole response, which may fail, and the end.\<close>

datatype stream_action = WriteAll string bool | ShutdownBoth | Dropped

definition write_http_response_blocking :: "stream_os \<Rightarrow> nat \<Rightarrow> string \<Rightarrow> string \<Rightarrow> bool \<times> stream_action list" where
  "write_http_response_blocking os status_code status_text body =
     (st_write_ok os, [WriteAll (http_response status_code status_text body) (st_write_ok os)])"

definition write_http_response :: "stream_os \<Rightarrow> nat \<Rightarrow> string \<Rightarrow> string \<Rightarrow> bool \<times> stream_action list" where
  "write_http_response os status_code status_text body =
     (st_write_ok os,
      [WriteAll
        (''HTTP/1.1 '' @ dec_str status_code @ '' '' @ status_text @ crlf @ ''Content-Type: application/json'' @ crlf @
         ''Content-Length: '' @ dec_str (length body) @ crlf @ ''Connection: close'' @ crlf @ crlf @ body)
        (st_write_ok os)])"

definition stats_stream_setup :: "stream_call list" where
  "stats_stream_setup = [SetBlocking, SetReadTimeout STATS_HTTP_READ_TIMEOUT_SECS, SetWriteDeadline STATS_HTTP_WRITE_TIMEOUT_SECS]"

text \<open>A thread of the statistics server; the first component tells whether it returned without an error.\<close>

definition stats_http_thread ::
  "string \<Rightarrow> api_input \<Rightarrow> stream_os \<Rightarrow> stats_api_context \<Rightarrow> (bool \<times> stream_action list) \<times> stats_api_context" where
  "stats_http_thread token i os ctx =
     (let (result, ctx) =
        (if find (st_fails os) stats_stream_setup \<noteq> None then ((False, []), ctx)
         else (case handle_stats_http_client_blocking token i (st_reads os) ctx of
             (NoReply, ctx) \<Rightarrow> ((True, []), ctx)
           | (HandlerError, ctx) \<Rightarrow> ((False, []), ctx)
           | (Reply status_code status_text body, ctx) \<Rightarrow> (write_http_response_blocking os status_code status_text body, ctx)))
      in ((fst result, snd result @ [ShutdownBoth]), ctx))"

text \<open>A thread of the health server; it ignores every error and drops the stream.\<close>

definition health_http_thread :: "api_input \<Rightarrow> stream_os \<Rightarrow> stats_api_context \<Rightarrow> stream_action list" where
  "health_http_thread i os ctx =
     [WriteAll (health_http_client i (case st_reads os of [] \<Rightarrow> ReadData [] | r # rs \<Rightarrow> r) ctx) (st_write_ok os), Dropped]"

subsection \<open>The accept loops\<close>

datatype server_end = BindError | BlockingError | AcceptError | SpawnError

record http_server =
  hs_ended :: "server_end option"
  hs_clients :: "stream_os list"
  hs_done :: "stream_action list list"

text \<open>An answer of \<^verbatim>\<open>accept\<close>, with whether the thread could be spawned, or the run of a thread.\<close>

datatype server_event = Accept "(stream_os \<times> bool) option" | Thread nat api_input

definition server_new :: "server_end option \<Rightarrow> http_server" where
  "server_new e = \<lparr>hs_ended = e, hs_clients = [], hs_done = []\<rparr>"

definition health_server_start :: "bool \<Rightarrow> http_server" where
  "health_server_start bind_ok = server_new (if bind_ok then None else Some BindError)"

definition stats_server_start :: "bool \<Rightarrow> bool \<Rightarrow> http_server" where
  "stats_server_start bind_ok blocking_ok =
     server_new (if \<not> bind_ok then Some BindError else if \<not> blocking_ok then Some BlockingError else None)"

text \<open>The threads that run the servers; a server whose thread cannot be spawned never listens.\<close>

record server_os =
  sv_spawn_ok :: bool
  sv_bind_ok :: bool
  sv_blocking_ok :: bool

definition spawn_health_http_server :: "server_os \<Rightarrow> http_server" where
  "spawn_health_http_server os = (if sv_spawn_ok os then health_server_start (sv_bind_ok os) else server_new (Some SpawnError))"

definition run_stats_http_server :: "server_os \<Rightarrow> http_server" where
  "run_stats_http_server os =
     (if sv_spawn_ok os then stats_server_start (sv_bind_ok os) (sv_blocking_ok os) else server_new (Some SpawnError))"

definition health_accept :: "(stream_os \<times> bool) option \<Rightarrow> http_server \<Rightarrow> http_server" where
  "health_accept a hs =
     (if hs_ended hs \<noteq> None then hs
      else (case a of
          None \<Rightarrow> hs
        | Some (os, spawned) \<Rightarrow>
            if spawned then hs\<lparr>hs_clients := hs_clients hs @ [os]\<rparr> else hs\<lparr>hs_done := hs_done hs @ [[Dropped]]\<rparr>))"

definition stats_accept :: "(stream_os \<times> bool) option \<Rightarrow> http_server \<Rightarrow> http_server" where
  "stats_accept a hs =
     (if hs_ended hs \<noteq> None then hs
      else (case a of
          None \<Rightarrow> hs\<lparr>hs_ended := Some AcceptError\<rparr>
        | Some (os, spawned) \<Rightarrow>
            if spawned then hs\<lparr>hs_clients := hs_clients hs @ [os]\<rparr>
            else hs\<lparr>hs_ended := Some SpawnError, hs_done := hs_done hs @ [[Dropped]]\<rparr>))"

definition finish_client :: "nat \<Rightarrow> stream_action list \<Rightarrow> http_server \<Rightarrow> http_server" where
  "finish_client k acts hs =
     hs\<lparr>hs_clients := take k (hs_clients hs) @ drop (Suc k) (hs_clients hs), hs_done := hs_done hs @ [acts]\<rparr>"

text \<open>One step of a server with its way to accept and its threads.\<close>

fun server_step ::
  "((stream_os \<times> bool) option \<Rightarrow> http_server \<Rightarrow> http_server)
    \<Rightarrow> (api_input \<Rightarrow> stream_os \<Rightarrow> stats_api_context \<Rightarrow> stream_action list \<times> stats_api_context)
    \<Rightarrow> server_event \<Rightarrow> http_server \<times> stats_api_context \<Rightarrow> http_server \<times> stats_api_context" where
  "server_step accept thread (Accept a) (hs, ctx) = (accept a hs, ctx)"
| "server_step accept thread (Thread k i) (hs, ctx) =
     (if k < length (hs_clients hs) then
        (let (acts, ctx) = thread i (hs_clients hs ! k) ctx in (finish_client k acts hs, ctx))
      else (hs, ctx))"

definition run_health_http_server_blocking :: "server_event \<Rightarrow> http_server \<times> stats_api_context \<Rightarrow> http_server \<times> stats_api_context" where
  "run_health_http_server_blocking = server_step health_accept (\<lambda>i os ctx. (health_http_thread i os ctx, ctx))"

definition run_stats_http_server_blocking ::
  "string \<Rightarrow> server_event \<Rightarrow> http_server \<times> stats_api_context \<Rightarrow> http_server \<times> stats_api_context" where
  "run_stats_http_server_blocking token =
     server_step stats_accept (\<lambda>i os ctx. let ((ok, acts), ctx) = stats_http_thread token i os ctx in (acts, ctx))"

section \<open>The life of a connection\<close>

lemma write_http_response_agree: "write_http_response = write_http_response_blocking"
  by (simp add: fun_eq_iff write_http_response_def write_http_response_blocking_def http_response_def)

lemma handler_error_iff:
  "fst (handle_http timed_out token route rs s) = HandlerError \<longleftrightarrow> read_request timed_out rs [] = ReadFailed"
  by (auto simp: handle_http_def answer_header_def Let_def split: request_read.split option.split prod.split)

text \<open>
  A thread of the statistics server writes at most one response, the one its handler
  chose, and always shuts the stream down last; it reports success exactly when every
  option could be set, no read failed and the response, if any, was written.
\<close>

theorem stats_connection_is_shut_down:
  "\<exists>acts. snd (fst (stats_http_thread token i os ctx)) = acts @ [ShutdownBoth] \<and>
     (acts = [] \<or> (\<exists>status_code status_text body.
        fst (handle_stats_http_client_blocking token i (st_reads os) ctx) = Reply status_code status_text body \<and>
        acts = [WriteAll (http_response status_code status_text body) (st_write_ok os)])) \<and>
     (fst (fst (stats_http_thread token i os ctx)) \<longleftrightarrow>
        (\<forall>call \<in> set stats_stream_setup. \<not> st_fails os call) \<and>
        (case fst (handle_stats_http_client_blocking token i (st_reads os) ctx) of
           NoReply \<Rightarrow> acts = [] | HandlerError \<Rightarrow> False | Reply status_code status_text body \<Rightarrow> acts \<noteq> [] \<and> st_write_ok os))"
proof (cases "find (st_fails os) stats_stream_setup")
  case None
  then have "\<forall>call \<in> set stats_stream_setup. \<not> st_fails os call" by (auto simp: find_None_iff)
  then show ?thesis
    using None unfolding stats_http_thread_def
    by (cases "handle_stats_http_client_blocking token i (st_reads os) ctx")
      (auto simp: write_http_response_blocking_def split: http_outcome.split)
next
  case (Some call)
  then have "\<exists>call \<in> set stats_stream_setup. st_fails os call" by (auto simp: find_Some_iff)
  then show ?thesis using Some by (auto simp: stats_http_thread_def)
qed

section \<open>The servers under errors\<close>

definition failed_accept :: "(stream_os \<times> bool) option \<Rightarrow> bool" where
  "failed_accept a \<longleftrightarrow> (case a of None \<Rightarrow> True | Some (os, spawned) \<Rightarrow> \<not> spawned)"

fun accepts :: "server_event list \<Rightarrow> (stream_os \<times> bool) option list" where
  "accepts [] = []"
| "accepts (Accept a # es) = a # accepts es"
| "accepts (Thread k i # es) = accepts es"

text \<open>How many clients have been given a thread, finished or not.\<close>

definition clients_seen :: "http_server \<Rightarrow> nat" where
  "clients_seen hs = length (hs_clients hs) + length (filter (\<lambda>acts. acts \<noteq> [Dropped]) (hs_done hs))"

lemma clients_seen_finish:
  "k < length (hs_clients hs) \<Longrightarrow> acts \<noteq> [Dropped] \<Longrightarrow> clients_seen (finish_client k acts hs) = clients_seen hs"
  "hs_ended (finish_client k acts hs) = hs_ended hs"
  by (simp_all add: clients_seen_def finish_client_def)

text \<open>An accept loop that goes on after an error, or gives up at the first.\<close>

locale accept_loop =
  fixes accept :: "(stream_os \<times> bool) option \<Rightarrow> http_server \<Rightarrow> http_server"
    and thread :: "api_input \<Rightarrow> stream_os \<Rightarrow> stats_api_context \<Rightarrow> stream_action list \<times> stats_api_context"
    and gives_up :: bool
  assumes closed: "hs_ended hs \<noteq> None \<Longrightarrow> accept a hs = hs"
    and admits: "hs_ended hs = None \<Longrightarrow> \<not> failed_accept a \<Longrightarrow>
      hs_ended (accept a hs) = None \<and> clients_seen (accept a hs) = Suc (clients_seen hs)"
    and error: "hs_ended hs = None \<Longrightarrow> failed_accept a \<Longrightarrow>
      (hs_ended (accept a hs) = None \<longleftrightarrow> \<not> gives_up) \<and> clients_seen (accept a hs) = clients_seen hs"
    and answers: "fst (thread i os ctx) \<noteq> [Dropped]"
begin

lemma thread_step:
  "hs_ended (fst (server_step accept thread (Thread k i) (hs, ctx))) = hs_ended hs"
  "clients_seen (fst (server_step accept thread (Thread k i) (hs, ctx))) = clients_seen hs"
  by (simp_all add: split_beta clients_seen_finish answers)

lemma closed_run:
  "hs_ended hs \<noteq> None \<Longrightarrow>
     hs_ended (fst (fold (server_step accept thread) es (hs, ctx))) = hs_ended hs \<and>
     clients_seen (fst (fold (server_step accept thread) es (hs, ctx))) = clients_seen hs"
proof (induction es arbitrary: hs ctx)
  case (Cons e es)
  obtain hs' ctx' where s: "server_step accept thread e (hs, ctx) = (hs', ctx')" by fastforce
  have "hs_ended hs' = hs_ended hs \<and> clients_seen hs' = clients_seen hs"
  proof (cases e)
    case (Accept a)
    then show ?thesis using s closed [OF Cons.prems, of a] by simp
  next
    case (Thread k i)
    show ?thesis using thread_step [of k i hs ctx] s unfolding Thread by (metis fst_conv)
  qed
  then show ?case using Cons.IH [of hs' ctx'] Cons.prems s by simp
qed simp

lemma open_run:
  "hs_ended hs = None \<Longrightarrow>
     (hs_ended (fst (fold (server_step accept thread) es (hs, ctx))) = None \<longleftrightarrow> \<not> gives_up \<or> (\<forall>a \<in> set (accepts es). \<not> failed_accept a)) \<and>
     clients_seen (fst (fold (server_step accept thread) es (hs, ctx))) = clients_seen hs +
       (if gives_up then length (takeWhile (\<lambda>a. \<not> failed_accept a) (accepts es))
        else length (filter (\<lambda>a. \<not> failed_accept a) (accepts es)))"
proof (induction es arbitrary: hs ctx)
  case (Cons e es)
  show ?case
  proof (cases e)
    case (Accept a)
    then show ?thesis
      using Cons.IH [of "accept a hs" ctx] closed_run [of "accept a hs" es ctx] admits [OF Cons.prems, of a] error [OF Cons.prems, of a]
      by (cases "failed_accept a"; cases gives_up) auto
  next
    case (Thread k i)
    obtain hs' ctx' where s: "server_step accept thread e (hs, ctx) = (hs', ctx')" by fastforce
    then have "hs_ended hs' = None" "clients_seen hs' = clients_seen hs"
      using thread_step [of k i hs ctx] Cons.prems unfolding Thread by (metis fst_conv)+
    then show ?thesis using Cons.IH [of hs' ctx'] s Thread by simp
  qed
qed simp

end

lemma stats_thread_answers: "fst (let ((ok, acts), ctx) = stats_http_thread token i os ctx in (acts, ctx)) \<noteq> [Dropped]"
proof -
  have "\<exists>acts. snd (fst (stats_http_thread token i os ctx)) = acts @ [ShutdownBoth]"
    by (simp add: stats_http_thread_def split_beta)
  then show ?thesis by (auto simp: split_beta Let_def)
qed

interpretation health_loop: accept_loop health_accept "\<lambda>i os ctx. (health_http_thread i os ctx, ctx)" False
  by unfold_locales (auto simp: health_accept_def failed_accept_def clients_seen_def health_http_thread_def split: option.splits)

interpretation stats_loop: accept_loop stats_accept
  "\<lambda>i os ctx. let ((ok, acts), ctx) = stats_http_thread token i os ctx in (acts, ctx)" True for token
  using stats_thread_answers
  by unfold_locales (auto simp: stats_accept_def failed_accept_def clients_seen_def split: option.splits)

lemma seen_new: "clients_seen (server_new e) = 0" "hs_ended (server_new e) = e"
  by (simp_all add: clients_seen_def server_new_def)

lemma health_run_context: "snd (fold run_health_http_server_blocking es (hs, ctx)) = ctx"
proof (induction es arbitrary: hs)
  case (Cons e es)
  then show ?case by (cases e) (auto simp: run_health_http_server_blocking_def)
qed simp

text \<open>
  C25. Under any interleaving of accepts and client threads, the health server keeps
  listening through every accept or spawn error, gives a thread to exactly the
  connections it could accept and spawn for, and changes nothing in the shared context,
  whereas the statistics server stops listening at its first accept or spawn error and
  has served exactly the connections before it.
\<close>

theorem accept_errors:
  "(let (hs, ctx') = fold run_health_http_server_blocking es (health_server_start True, ctx)
    in hs_ended hs = None \<and> clients_seen hs = length (filter (\<lambda>a. \<not> failed_accept a) (accepts es)) \<and> ctx' = ctx) \<and>
   (let (hs, ctx') = fold (run_stats_http_server_blocking token) es (stats_server_start True True, ctx)
    in (hs_ended hs = None \<longleftrightarrow> (\<forall>a \<in> set (accepts es). \<not> failed_accept a)) \<and>
       clients_seen hs = length (takeWhile (\<lambda>a. \<not> failed_accept a) (accepts es)))"
  using health_loop.open_run [of "server_new None" es ctx] stats_loop.open_run [of "server_new None" token es ctx]
    health_run_context [of es "health_server_start True" ctx]
  by (simp add: split_beta run_health_http_server_blocking_def health_server_start_def run_stats_http_server_blocking_def
      stats_server_start_def seen_new)

section \<open>Witnesses\<close>

definition sample_connection :: stream_os where
  "sample_connection = \<lparr>st_fails = (\<lambda>call. False), st_reads = [ReadData [1, 2]], st_write_ok = False\<rparr>"

theorem stats_connection_is_shut_down_witness:
  "\<exists>acts. snd (fst (stats_http_thread ''t'' sample_input sample_connection sample_context)) = acts @ [ShutdownBoth] \<and>
     \<not> fst (fst (stats_http_thread ''t'' sample_input sample_connection sample_context))"
proof -
  have "fst (handle_stats_http_client_blocking ''t'' sample_input (st_reads sample_connection) sample_context) =
      Reply 400 ''Bad Request'' ''{\"error\":\"incomplete_request_headers\"}''"
    by (simp add: handle_stats_http_client_blocking_def handle_http_def sample_connection_def MAX_HTTP_REQUEST_SIZE_def
        find_http_header_end_def Let_def)
  then show ?thesis
    using stats_connection_is_shut_down [of "''t''" sample_input sample_connection sample_context] by (auto simp: sample_connection_def)
qed

theorem accept_errors_witness:
  "let es = [Accept (Some (sample_connection, True)), Accept None, Accept (Some (sample_connection, True)), Thread 0 sample_input];
       hs = fst (fold (run_stats_http_server_blocking ''t'') es (stats_server_start True True, sample_context));
       h = fst (fold run_health_http_server_blocking es (health_server_start True, sample_context))
   in hs_ended hs \<noteq> None \<and> clients_seen hs = 1 \<and> hs_ended h = None \<and> clients_seen h = 2"
  using accept_errors [of "[Accept (Some (sample_connection, True)), Accept None, Accept (Some (sample_connection, True)), Thread 0 sample_input]"
      sample_context "''t''"]
  unfolding Let_def by (simp del: fold_simps add: failed_accept_def split_beta)

end
