(* ===== verification/Shard_Thread.thy ===== *)
theory Shard_Thread
  imports V2_Safety "HOL-Library.Multiset"
begin

text \<open>
  The threads of the second datapath (\<^verbatim>\<open>src/src/datapath_v2.rs\<close>) around the steps of
  \<^verbatim>\<open>Datapath_V2\<close>: the sockets of the flows and what \<^verbatim>\<open>recvmsg\<close> returns on them, the event loop of a
  shard, the supervisor of a thread, and the start of the threads, in which the main task
  waits until every shard has published its waker.  The sockets of the flows of the first
  datapath (\<^verbatim>\<open>src/src/main.rs\<close>) stand beside those of the second.

  The answers of the operating system and of \<^verbatim>\<open>mio\<close> are inputs.  A shard thread that has begun its
  loop runs until polling fails; a list of iterations is as much of it as has happened.
\<close>

section \<open>Definitions\<close>

subsection \<open>Flow sockets\<close>

datatype flow_call = FlowSocket | FlowRcvbuf | FlowSndbuf | FlowRecvTos | FlowBind | FlowNonblocking | FlowConnect | FlowFromStd

record flow_socket =
  fk_rcvbuf :: "nat option"
  fk_sndbuf :: "nat option"
  fk_recv_tos :: bool
  fk_local :: sock_addr
  fk_nonblocking :: bool
  fk_peer :: "sock_addr option"

definition UNSPECIFIED_PORT0 :: sock_addr where
  "UNSPECIFIED_PORT0 = SockV4 (Ipv4 0 0 0 0) 0"

definition create_flow_socket :: "environment \<Rightarrow> (flow_call \<Rightarrow> bool) \<Rightarrow> sock_addr \<Rightarrow> flow_call + flow_socket" where
  "create_flow_socket env fails game =
     (if fails FlowSocket then Inl FlowSocket
      else if fails FlowRcvbuf then Inl FlowRcvbuf
      else if fails FlowSndbuf then Inl FlowSndbuf
      else
        let recv_tos = (\<not> fails FlowRecvTos) in
        if fails FlowBind then Inl FlowBind
        else if fails FlowNonblocking then Inl FlowNonblocking
        else if fails FlowConnect then Inl FlowConnect
        else Inr \<lparr>fk_rcvbuf = Some (get_flow_socket_rcvbuf_bytes env), fk_sndbuf = Some (get_flow_socket_sndbuf_bytes env),
                  fk_recv_tos = recv_tos, fk_local = UNSPECIFIED_PORT0, fk_nonblocking = True, fk_peer = Some game\<rparr>)"

definition bind_v1_flow_socket :: "(flow_call \<Rightarrow> bool) \<Rightarrow> flow_call + flow_socket" where
  "bind_v1_flow_socket fails =
     (if fails FlowSocket then Inl FlowSocket
      else
        let recv_tos = (\<not> fails FlowRecvTos) in
        if fails FlowBind then Inl FlowBind
        else if fails FlowNonblocking then Inl FlowNonblocking
        else if fails FlowFromStd then Inl FlowFromStd
        else Inr \<lparr>fk_rcvbuf = None, fk_sndbuf = None, fk_recv_tos = recv_tos, fk_local = UNSPECIFIED_PORT0,
                  fk_nonblocking = True, fk_peer = None\<rparr>)"

subsection \<open>Receiving with control data\<close>

record cmsg =
  cmsg_level :: nat
  cmsg_type :: nat
  cmsg_data :: bytes

record recv_msg =
  rm_data :: bytes
  rm_control :: "cmsg list"

definition IPPROTO_IP :: nat where "IPPROTO_IP = 0"
definition IP_TOS :: nat where "IP_TOS = 1"

fun extract_ipv4_tos_from_control :: "cmsg list \<Rightarrow> u8 option" where
  "extract_ipv4_tos_from_control [] = None"
| "extract_ipv4_tos_from_control (header # rest) =
     (if cmsg_level header = IPPROTO_IP \<and> cmsg_type header = IP_TOS then Some (cmsg_data header ! 0)
      else extract_ipv4_tos_from_control rest)"

definition recv_flow_response :: "nat \<Rightarrow> io_error_kind + recv_msg \<Rightarrow> io_error_kind + bytes \<times> u8 option" where
  "recv_flow_response buf_len answer =
     (case answer of
        Inl e \<Rightarrow> Inl e
      | Inr msg \<Rightarrow> Inr (take buf_len (rm_data msg), extract_ipv4_tos_from_control (rm_control msg)))"

text \<open>An answer of the kernel together with the clock readings that follow it.\<close>

definition recv_outcome_of :: "(io_error_kind + recv_msg) \<times> instant \<times> nat \<times> nat \<Rightarrow> recv_outcome" where
  "recv_outcome_of r =
     (case r of (answer, received_at, now_unix, later_unix) \<Rightarrow>
        (case recv_flow_response MAX_PACKET_SIZE answer of
           Inl e \<Rightarrow> RecvErr
         | Inr (datagram, tos) \<Rightarrow> RecvOk datagram tos received_at now_unix later_unix))"

subsection \<open>The loop of a shard\<close>

text \<open>
  One iteration: what \<^verbatim>\<open>poll\<close> reported, with the answers of the receive calls on each ready
  flow; the readings for each message of the inbox; the clock at the end.
\<close>

record shard_tick =
  tk_events :: "(u64 \<times> ((io_error_kind + recv_msg) \<times> instant \<times> nat \<times> nat) list) list option"
  tk_inbox :: "inbox_event list"
  tk_now :: instant

definition shard_events ::
  "v2_config \<Rightarrow> nat \<Rightarrow> (u64 \<times> ((io_error_kind + recv_msg) \<times> instant \<times> nat \<times> nat) list) list \<Rightarrow> v2_state \<Rightarrow> v2_state" where
  "shard_events c i events v = fold (\<lambda>(token, answers). shard_readable c i token (map recv_outcome_of answers)) events v"

definition shard_iteration :: "v2_config \<Rightarrow> nat \<Rightarrow> shard_tick \<Rightarrow> v2_state \<Rightarrow> v2_state option" where
  "shard_iteration c i t v =
     (case tk_events t of
        None \<Rightarrow> None
      | Some events \<Rightarrow> Some (shard_cleanup i (tk_now t) (shard_drain c i (tk_inbox t) (shard_events c i events v))))"

datatype join_result = Returned | ReturnedErr string | Panicked

fun shard_loop :: "v2_config \<Rightarrow> nat \<Rightarrow> shard_tick list \<Rightarrow> v2_state \<Rightarrow> join_result option \<times> v2_state" where
  "shard_loop c i [] v = (None, v)"
| "shard_loop c i (t # ts) v =
     (case shard_iteration c i t v of
        None \<Rightarrow> (Some (ReturnedErr ''mio poll failed''), v)
      | Some v \<Rightarrow> shard_loop c i ts v)"

text \<open>What happens before the loop: the waker is published, or the thread ends.\<close>

record 'w shard_os =
  so_poll_ok :: bool
  so_waker :: "'w option"
  so_receiver_alive :: bool

definition shard_prologue :: "'w shard_os \<Rightarrow> join_result + 'w" where
  "shard_prologue os =
     (if \<not> so_poll_ok os then Inl (ReturnedErr ''Failed to create mio Poll'')
      else (case so_waker os of
          None \<Rightarrow> Inl (ReturnedErr ''Failed to create mio Waker'')
        | Some waker \<Rightarrow> if so_receiver_alive os then Inr waker else Inl Panicked))"

definition run_shard :: "v2_config \<Rightarrow> nat \<Rightarrow> 'w shard_os \<Rightarrow> shard_tick list \<Rightarrow> v2_state \<Rightarrow> join_result option \<times> v2_state" where
  "run_shard c i os ticks v =
     (case shard_prologue os of
        Inl ended \<Rightarrow> (Some ended, v)
      | Inr waker \<Rightarrow> shard_loop c i ticks v)"

subsection \<open>Supervision and start\<close>

text \<open>The line the supervisor logs and the exit status of the process.\<close>

definition supervise_critical_thread :: "string \<Rightarrow> join_result \<Rightarrow> string \<times> nat" where
  "supervise_critical_thread name r =
     ((case r of
         Returned \<Rightarrow> name @ '' thread exited unexpectedly''
       | ReturnedErr e \<Rightarrow> name @ '' thread exited with error: '' @ e
       | Panicked \<Rightarrow> name @ '' thread panicked''), 70)"

text \<open>
  What the main task sees: a waker, a supervisor that ends the process, or the error of
  \<^verbatim>\<open>recv\<close> once every shard thread has dropped its end of the channel.
\<close>

datatype 'w boot_event = Publish nat 'w | ThreadEnds nat join_result | RecvError

datatype boot_call = CloneRx | SpawnTx | SpawnShard nat | SpawnSupervisor string | RecvWaker | SpawnRx

datatype 'w boot_result = Waiting | Up "'w list" | BootPanic | BootErr boot_call | ExitProcess nat

fun collect_wakers :: "nat \<Rightarrow> 'w option list \<Rightarrow> 'w boot_event list \<Rightarrow> 'w boot_result" where
  "collect_wakers 0 shard_wakers es = (if None \<in> set shard_wakers then BootPanic else Up (map the shard_wakers))"
| "collect_wakers (Suc n) shard_wakers [] = Waiting"
| "collect_wakers (Suc n) shard_wakers (Publish i waker # es) =
     (if i < length shard_wakers then collect_wakers n (shard_wakers[i := Some waker]) es else BootPanic)"
| "collect_wakers (Suc n) shard_wakers (ThreadEnds i r # es) =
     ExitProcess (snd (supervise_critical_thread (''relay-shard-'' @ dec_str i) r))"
| "collect_wakers (Suc n) shard_wakers (RecvError # es) = BootErr RecvWaker"

definition shard_boot :: "nat \<Rightarrow> 'w shard_os \<Rightarrow> 'w boot_event" where
  "shard_boot i os = (case shard_prologue os of Inl ended \<Rightarrow> ThreadEnds i ended | Inr waker \<Rightarrow> Publish i waker)"

text \<open>The fallible calls before and after the wait for the wakers.\<close>

definition calls_before_wakers :: "nat \<Rightarrow> boot_call list" where
  "calls_before_wakers n =
     [CloneRx, SpawnTx] @ concat (map (\<lambda>i. [SpawnShard i, SpawnSupervisor (''relay-shard-'' @ dec_str i)]) [0..<n])"

definition calls_after_wakers :: "boot_call list" where
  "calls_after_wakers = [SpawnRx, SpawnSupervisor ''relay-tx'', SpawnSupervisor ''relay-rx'']"

text \<open>
  The start of the threads; \<open>es\<close> is what the shard threads do, in the order in which the
  main task sees it.
\<close>

definition start_threads :: "v2_tuning \<Rightarrow> (boot_call \<Rightarrow> bool) \<Rightarrow> 'w boot_event list \<Rightarrow> 'w boot_result" where
  "start_threads tuning fails es =
     (let n = shard_count tuning in
      case find fails (calls_before_wakers n) of
        Some call \<Rightarrow> BootErr call
      | None \<Rightarrow>
          (case collect_wakers n (replicate n None) es of
             Up shard_wakers \<Rightarrow>
               (case find fails calls_after_wakers of
                  Some call \<Rightarrow> BootErr call
                | None \<Rightarrow> Up shard_wakers)
           | r \<Rightarrow> r))"

fun boot_shard :: "'w boot_event \<Rightarrow> nat option" where
  "boot_shard (Publish i waker) = Some i"
| "boot_shard (ThreadEnds i r) = Some i"
| "boot_shard RecvError = None"

definition every_shard_once :: "nat \<Rightarrow> (nat \<Rightarrow> 'w shard_os) \<Rightarrow> 'w boot_event list \<Rightarrow> bool" where
  "every_shard_once n os es \<longleftrightarrow>
     (\<forall>i < n. filter (\<lambda>e. boot_shard e = Some i) es = [shard_boot i (os i)]) \<and>
     (\<forall>e \<in> set es. \<forall>i. boot_shard e = Some i \<longrightarrow> i < n) \<and>
     (RecvError \<in> set es \<longrightarrow> (\<forall>i < n. \<exists>r. shard_prologue (os i) = Inl r))"

section \<open>The loop is a run of the datapath\<close>

lemma v2_reach_trans: "v2_reach c v0 v \<Longrightarrow> v2_reach c v w \<Longrightarrow> v2_reach c v0 w"
  by (rotate_tac, induction rule: v2_reach.induct) (auto intro: v2_next)

lemma readable_shards: "length (w_shards (shard_readable c i token outcomes v)) = length (w_shards v)"
proof -
  have "length (w_shards (recv_burst c i key os v)) = length (w_shards v)" for key os
    by (induction os arbitrary: v) (auto simp: split_beta recv_shards split: option.split)
  then show ?thesis by (simp add: shard_readable_def split: option.split)
qed

lemma shard_events_run:
  assumes "i < length (w_shards v)"
  shows "v2_reach c v (shard_events c i events v)" and "length (w_shards (shard_events c i events v)) = length (w_shards v)"
proof -
  have "v2_reach c v (shard_events c i events v) \<and> length (w_shards (shard_events c i events v)) = length (w_shards v)"
    using assms
  proof (induction events arbitrary: v)
    case Nil
    then show ?case by (simp add: shard_events_def v2_start)
  next
    case (Cons e events)
    obtain token answers where e: "e = (token, answers)" by (cases e)
    let ?w = "v2_step c (V2Readable i token (map recv_outcome_of answers)) v"
    have w: "?w = shard_readable c i token (map recv_outcome_of answers) v" using Cons.prems by simp
    have "v2_reach c v ?w" by (rule v2_next [OF v2_start])
    moreover have "shard_events c i (e # events) v = shard_events c i events ?w"
      unfolding w by (simp add: e shard_events_def)
    ultimately show ?case using Cons.IH [of ?w] Cons.prems v2_reach_trans unfolding w by (metis readable_shards)
  qed
  then show "v2_reach c v (shard_events c i events v)" "length (w_shards (shard_events c i events v)) = length (w_shards v)"
    by blast+
qed

lemma drain_shards: "length (w_shards (shard_drain c i es v)) = length (w_shards v)"
proof -
  have "length (w_shards (drain_inbox c i es v)) = length (w_shards v)" for es
    by (induction es arbitrary: v) (auto simp: message_shards split: list.split)
  then show ?thesis by (simp add: shard_drain_def)
qed

lemma shard_iteration_run:
  assumes "i < length (w_shards v)" "shard_iteration c i t v = Some w"
  shows "v2_reach c v w" and "length (w_shards w) = length (w_shards v)"
proof -
  obtain events where w: "w = shard_cleanup i (tk_now t) (shard_drain c i (tk_inbox t) (shard_events c i events v))"
    using assms(2) by (auto simp: shard_iteration_def split: option.splits)
  let ?u = "shard_events c i events v"
  have u: "v2_reach c v ?u" "length (w_shards ?u) = length (w_shards v)" using shard_events_run [OF assms(1)] by blast+
  have "v2_reach c ?u (v2_step c (V2ShardCleanup i (tk_now t)) (v2_step c (V2Drain i (tk_inbox t)) ?u))"
    by (intro v2_next v2_start)
  then have "v2_reach c ?u w" using u(2) assms(1) by (simp add: w drain_shards)
  then show "v2_reach c v w" using v2_reach_trans u(1) by blast
  show "length (w_shards w) = length (w_shards v)" using u(2) by (simp add: w shard_cleanup_def Let_def drain_shards)
qed

lemma shard_loop_run: "i < length (w_shards v) \<Longrightarrow> v2_reach c v (snd (shard_loop c i ts v))"
proof (induction ts arbitrary: v)
  case Nil
  then show ?case by (simp add: v2_start)
next
  case (Cons t ts)
  show ?case
  proof (cases "shard_iteration c i t v")
    case None
    then show ?thesis by (simp add: v2_start)
  next
    case (Some w)
    then show ?thesis using shard_iteration_run [OF Cons.prems Some] Cons.IH [of w] Cons.prems v2_reach_trans by simp
  qed
qed

lemma run_shard_run:
  assumes "v2_reach c v0 v" "i < length (w_shards v)"
  shows "v2_reach c v0 (snd (run_shard c i os ticks v))"
    and "fst (run_shard c i os ticks v) = None \<longleftrightarrow>
       so_poll_ok os \<and> so_waker os \<noteq> None \<and> so_receiver_alive os \<and> (\<forall>t \<in> set ticks. tk_events t \<noteq> None)"
proof -
  have "fst (shard_loop c i ticks v) = None \<longleftrightarrow> (\<forall>t \<in> set ticks. tk_events t \<noteq> None)"
  proof (induction ticks arbitrary: v)
    case (Cons t ts)
    then show ?case by (simp add: shard_iteration_def split: option.split)
  qed simp
  then show "fst (run_shard c i os ticks v) = None \<longleftrightarrow>
      so_poll_ok os \<and> so_waker os \<noteq> None \<and> so_receiver_alive os \<and> (\<forall>t \<in> set ticks. tk_events t \<noteq> None)"
    by (auto simp: run_shard_def shard_prologue_def split: option.splits)
  have "v2_reach c v0 (snd (shard_loop c i ticks v))"
    using shard_loop_run [OF assms(2)] assms(1) v2_reach_trans by blast
  then show "v2_reach c v0 (snd (run_shard c i os ticks v))"
    using assms(1) by (simp add: run_shard_def split: sum.split)
qed

section \<open>An iteration does a bounded amount of work\<close>

lemma update_shard_traces [simp]: "w_received (update_shard i f v) = w_received v" "w_tx_data (update_shard i f v) = w_tx_data v"
  by (simp_all add: update_shard_def)

lemma drops_traces [simp]:
  "w_received (g_drop_in r v) = w_received v" "w_received (g_drop_out r v) = w_received v" "w_shards (g_drop_out r v) = w_shards v"
  "w_received (w_release k v) = w_received v" "w_received (pool_dry v) = w_received v" "w_shards (pool_dry v) = w_shards v"
  "w_received (touch_session sid t u v) = w_received v" "w_shards (touch_session sid t u v) = w_shards v"
  "w_received (send_data c p v) = w_received v" "w_shards (send_data c p v) = w_shards v"
  by (simp_all add: g_drop_in_def g_drop_out_def w_release_def pool_dry_def touch_session_def send_data_def split: option.split)

lemma quiet_steps [simp]:
  "w_pool (touch_session sid t u v) = w_pool v" "w_pool (pool_dry v) = w_pool v" "w_pool (g_drop_out r v) = w_pool v"
  "w_tx_data (touch_session sid t u v) = w_tx_data v"
  "w_tx_data (w_release k v) = w_tx_data v" "w_tx_data (pool_dry v) = w_tx_data v" "w_tx_data (g_drop_out r v) = w_tx_data v"
  by (simp_all add: touch_session_def update_shard_def w_release_def pool_dry_def g_drop_out_def split: option.split)

text \<open>How many datagrams a step has taken from the kernel and how many responses it has queued.\<close>

definition took_at_most :: "nat \<Rightarrow> v2_state \<Rightarrow> v2_state \<Rightarrow> bool" where
  "took_at_most n v w \<longleftrightarrow>
     length (w_received w) \<le> length (w_received v) + n \<and> length (w_tx_data w) \<le> length (w_tx_data v) + n"

lemma took_trans: "took_at_most m u v \<Longrightarrow> took_at_most n v w \<Longrightarrow> took_at_most (m + n) u w"
  by (simp add: took_at_most_def)

lemma took_mono: "took_at_most m v w \<Longrightarrow> m \<le> n \<Longrightarrow> took_at_most n v w"
  by (simp add: took_at_most_def)

lemma recv_work:
  assumes "i < length (w_shards v)"
  shows "sh_inbox (w_shards (snd (shard_recv c i key flow outcome v)) ! i) = sh_inbox (w_shards v ! i)"
    and "took_at_most 1 v (snd (shard_recv c i key flow outcome v))"
  using assms
  by (simp_all add: took_at_most_def shard_recv_def Let_def split_beta send_data_def split: recv_outcome.split option.split)

lemma burst_work:
  "i < length (w_shards v) \<Longrightarrow>
     sh_inbox (w_shards (recv_burst c i key outcomes v) ! i) = sh_inbox (w_shards v ! i) \<and>
     took_at_most (length outcomes) v (recv_burst c i key outcomes v)"
proof (induction outcomes arbitrary: v)
  case (Cons outcome outcomes)
  show ?case
  proof (cases "dm_get (sh_flows (w_shards v ! i)) key")
    case (Some flow)
    let ?w = "snd (shard_recv c i key flow outcome v)"
    note one = recv_work [OF Cons.prems, of c key flow outcome]
    have "took_at_most (Suc (length outcomes)) v ?w" using one(2) by (rule took_mono) simp
    then show ?thesis
      using Cons.IH [of ?w] one took_trans [OF one(2)] Cons.prems Some by (auto simp: split_beta recv_shards)
  qed (simp add: took_at_most_def)
qed (simp add: took_at_most_def)

lemma readable_work:
  assumes "i < length (w_shards v)"
  shows "sh_inbox (w_shards (shard_readable c i token outcomes v) ! i) = sh_inbox (w_shards v ! i)"
    and "took_at_most MAX_FLOW_RECV_BURST v (shard_readable c i token outcomes v)"
proof -
  have "took_at_most MAX_FLOW_RECV_BURST v (recv_burst c i key (take MAX_FLOW_RECV_BURST outcomes) v)" for key
    by (rule took_mono [OF conjunct2 [OF burst_work [OF assms]]]) simp
  then show "took_at_most MAX_FLOW_RECV_BURST v (shard_readable c i token outcomes v)"
    by (simp add: shard_readable_def took_at_most_def split: option.split)
  show "sh_inbox (w_shards (shard_readable c i token outcomes v) ! i) = sh_inbox (w_shards v ! i)"
    using burst_work [OF assms] by (simp add: shard_readable_def split: option.split)
qed

lemma events_work:
  "i < length (w_shards v) \<Longrightarrow>
     sh_inbox (w_shards (shard_events c i events v) ! i) = sh_inbox (w_shards v ! i) \<and>
     took_at_most (MAX_FLOW_RECV_BURST * length events) v (shard_events c i events v)"
proof (induction events arbitrary: v)
  case (Cons e events)
  obtain token answers where e: "e = (token, answers)" by (cases e)
  let ?w = "shard_readable c i token (map recv_outcome_of answers) v"
  have "shard_events c i (e # events) v = shard_events c i events ?w" by (simp add: e shard_events_def)
  then show ?case
    using Cons.IH [of ?w] readable_work [OF Cons.prems, of c token "map recv_outcome_of answers"] Cons.prems
      took_trans [OF readable_work(2) [OF Cons.prems, of c token "map recv_outcome_of answers"]]
    by (simp add: readable_shards)
qed (simp add: shard_events_def took_at_most_def)

lemma new_flow_quiet:
  "w_received (snd (shard_new_flow c i e key client info v)) = w_received v"
  "w_tx_data (snd (shard_new_flow c i e key client info v)) = w_tx_data v"
  by (simp_all add: shard_new_flow_def g_allow_source_event_def split_beta Let_def split: option.split)

lemma message_quiet: "w_received (shard_message c i e msg v) = w_received v" "w_tx_data (shard_message c i e msg v) = w_tx_data v"
  by (cases msg; auto simp: shard_client_packet_def split_beta Let_def new_flow_quiet split: option.split)+

lemma drain_quiet: "w_received (drain_inbox c i es v) = w_received v" "w_tx_data (drain_inbox c i es v) = w_tx_data v"
  by (induction es arbitrary: v) (simp_all add: message_quiet split: list.split)

lemma shard_iteration_work:
  assumes "i < length (w_shards v)" "tk_events t = Some events" "shard_iteration c i t v = Some w"
  shows "length (w_received w) \<le> length (w_received v) + 64 * length events \<and>
    length (w_tx_data w) \<le> length (w_tx_data v) + 64 * length events \<and>
    sh_inbox (w_shards w ! i) = drop (min 1024 (length (tk_inbox t))) (sh_inbox (w_shards v ! i))"
proof -
  let ?u = "shard_events c i events v"
  let ?d = "shard_drain c i (tk_inbox t) ?u"
  have i: "i < length (w_shards ?u)" "i < length (w_shards ?d)"
    using assms(1) shard_events_run(2) [OF assms(1)] by (simp_all add: drain_shards)
  have "w = shard_cleanup i (tk_now t) ?d" using assms(2,3) by (simp add: shard_iteration_def)
  then have "sh_inbox (w_shards w ! i) = sh_inbox (w_shards ?d ! i)" "w_received w = w_received ?d" "w_tx_data w = w_tx_data ?d"
    using i(2) by (simp_all add: shard_cleanup_def Let_def)
  moreover have "sh_inbox (w_shards ?d ! i) = drop (min MAX_INBOX_DRAIN_BURST (length (tk_inbox t))) (sh_inbox (w_shards ?u ! i))"
    "w_received ?d = w_received ?u" "w_tx_data ?d = w_tx_data ?u"
    using drain_inbox_rest [OF i(1)] by (simp_all add: shard_drain_def drain_quiet min.commute)
  ultimately show ?thesis
    using events_work [OF assms(1), of c events] by (simp add: took_at_most_def MAX_FLOW_RECV_BURST_def MAX_INBOX_DRAIN_BURST_def)
qed

text \<open>
  C16. Whatever poll and the kernel answer, the event loop of a shard is a run of steps
  of the second datapath, so every invariant of the datapath holds after it; the thread
  ends exactly when the poll, the waker or the publication fails at the start or a later
  poll fails. An iteration receives at most 64 datagrams and queues at most 64 responses
  per ready flow and takes at most the first 1024 messages of the inbox, in order,
  leaving the rest for a later wake-up.
\<close>

theorem shard_thread_is_a_bounded_run:
  assumes "v2_reach c v0 v" "i < length (w_shards v)"
  shows "v2_reach c v0 (snd (run_shard c i os ticks v)) \<and>
    (fst (run_shard c i os ticks v) = None \<longleftrightarrow>
       so_poll_ok os \<and> so_waker os \<noteq> None \<and> so_receiver_alive os \<and> (\<forall>t \<in> set ticks. tk_events t \<noteq> None)) \<and>
    (\<forall>t events w. tk_events t = Some events \<longrightarrow> shard_iteration c i t v = Some w \<longrightarrow>
       length (w_received w) \<le> length (w_received v) + 64 * length events \<and>
       length (w_tx_data w) \<le> length (w_tx_data v) + 64 * length events \<and>
       sh_inbox (w_shards w ! i) = drop (min 1024 (length (tk_inbox t))) (sh_inbox (w_shards v ! i)))"
  using run_shard_run [OF assms] shard_iteration_work [OF assms(2)] by blast

section \<open>What a game server sends is what the client is sent\<close>

abbreviation reply_tos :: "flow_state \<Rightarrow> recv_msg \<Rightarrow> u8" where
  "reply_tos flow msg \<equiv>
     (case extract_ipv4_tos_from_control (rm_control msg) of None \<Rightarrow> oi_tos (fs_original_info flow) | Some t \<Rightarrow> t)"

text \<open>The packet as it is written into a free buffer of the pool, when it fits.\<close>

lemma queued_reply:
  fixes pool k key
  assumes "v2_ok c v" "pool_try_acquire (w_pool v) = Some (k, pool)" "length (fst key) = SESSION_ID_LEN"
  defines "p \<equiv> pool_write k (fst key) pool"
  shows "write_response_ip_packet_into_with_tos (drop SESSION_ID_LEN (pool_buffer p k)) (take MAX_PACKET_SIZE data) info tos = None
      \<longleftrightarrow> \<not> length data + 36 \<le> MAX_PACKET_SIZE"
    and "write_response_ip_packet_into_with_tos (drop SESSION_ID_LEN (pool_buffer p k)) (take MAX_PACKET_SIZE data) info tos = Some (out, n) \<Longrightarrow>
      take (SESSION_ID_LEN + n) (pool_buffer (pool_write k (fst key @ out) p) k) =
        fst key @ build_response_ip_packet_with_tos data info tos"
    and "pool_free p = pool_free pool" "pool_free (pool_write k (fst key @ out) p) = pool_free pool"
proof -
  have a: "v2_inner c {#k#} (v\<lparr>w_pool := pool\<rparr>)" using inner_acquire [of c "{#}" v k pool] assms(1,2) by (simp add: v2_ok_def)
  have w: "v2_inner c {#k#} (v\<lparr>w_pool := p\<rparr>)"
    using inner_fill [OF a, of "fst key"] assms(3) by (simp add: p_def SESSION_ID_LEN_def MAX_PACKET_SIZE_def)
  have "length (pool_buffer pool k) = MAX_PACKET_SIZE"
    using a inner_slot [OF a] buffers_sized_get by (simp add: v2_inner_def v2_parts_ok_def)
  then have size: "length (fst key @ drop SESSION_ID_LEN (pool_buffer pool k)) = MAX_PACKET_SIZE"
    using assms(3) by (simp add: SESSION_ID_LEN_def MAX_PACKET_SIZE_def)
  have buf: "pool_buffer p k = fst key @ drop SESSION_ID_LEN (pool_buffer pool k)"
    using inner_filled [OF a, of "fst key"] assms(3) by (simp add: p_def)
  show fits: "write_response_ip_packet_into_with_tos (drop SESSION_ID_LEN (pool_buffer p k)) (take MAX_PACKET_SIZE data) info tos = None
      \<longleftrightarrow> \<not> length data + 36 \<le> MAX_PACKET_SIZE"
    using size assms(3) by (auto simp: buf write_response_layout SESSION_ID_LEN_def MAX_PACKET_SIZE_def)
  show "pool_free p = pool_free pool" "pool_free (pool_write k (fst key @ out) p) = pool_free pool" by (simp_all add: p_def pool_write_def)
  assume wr: "write_response_ip_packet_into_with_tos (drop SESSION_ID_LEN (pool_buffer p k)) (take MAX_PACKET_SIZE data) info tos = Some (out, n)"
  then have all: "take MAX_PACKET_SIZE data = data" using fits by simp
  note r = write_reply [OF wr [unfolded buf] assms(3) size]
  show "take (SESSION_ID_LEN + n) (pool_buffer (pool_write k (fst key @ out) p) k) = fst key @ build_response_ip_packet_with_tos data info tos"
    using inner_filled [OF w, of "fst key @ out"] r size buf all by simp
qed

text \<open>
  C15. In a reachable state of the second datapath, a datagram received from a game
  server on a flow adds a packet to the data queue of the sender exactly when the
  session has a running lease, a buffer is free, the datagram with its headers fits a
  buffer and the queue has room. The one packet added is for that session, names the
  client address of the flow, and the buffer it points to, taken from the free list,
  starts with the session identifier and the response packet around the whole datagram,
  never a truncated one, with the type of service the kernel reported for it or else
  that of the client's last packet. In every other case the queue stays as it is and the
  free list keeps all its buffers.
\<close>

theorem shard_reply_is_the_datagram:
  assumes "v2_reach c (v2_init c t0 policy budget) v" "i < length (w_shards v)" "dm_get (sh_flows (w_shards v ! i)) key = Some flow"
    and v': "v' = snd (shard_recv c i key flow (recv_outcome_of (Inr msg, received_at, now_unix, later_unix)) v)"
  shows "if (\<exists>s. dm_get (g_sessions v) (fst key) = Some s \<and> session_lease_is_current s now_unix) \<and>
        pool_free (w_pool v) \<noteq> [] \<and> length (rm_data msg) + 36 \<le> MAX_PACKET_SIZE \<and> length (w_tx_data v) < tx_queue_cap (vc_tuning c)
      then \<exists>p. w_tx_data v' = w_tx_data v @ [p] \<and> tx_session_id p = fst key \<and> tx_addr p = fs_client_addr flow \<and>
        tx_kind p = QData \<and> tx_enqueued_at p = received_at \<and>
        take (tx_len p) (pool_buffer (w_pool v') (tx_buf_idx p)) =
          fst key @ build_response_ip_packet_with_tos (rm_data msg) (fs_original_info flow) (reply_tos flow msg) \<and>
        mset (pool_free (w_pool v)) = add_mset (tx_buf_idx p) (mset (pool_free (w_pool v')))
      else w_tx_data v' = w_tx_data v \<and> mset (pool_free (w_pool v')) = mset (pool_free (w_pool v))"
proof -
  have ok: "v2_ok c v" by (rule v2_reach_ok [OF assms(1) v2_ok_init])
  have len: "length (fst key) = SESSION_ID_LEN" using flows_home_get [OF shard_at(2) [OF ok assms(2)] assms(3)] by simp
  show ?thesis
  proof (cases "pool_try_acquire (w_pool v)")
    case None
    then have "pool_free (w_pool v) = []" by (rule pool.acquire_none)
    then show ?thesis
      using None unfolding v' recv_outcome_of_def recv_flow_response_def by (simp add: shard_recv_def Let_def split: option.split)
  next
    case (Some a)
    obtain k pool where a: "pool_try_acquire (w_pool v) = Some (k, pool)" using Some by (cases a) simp
    then have free: "mset (pool_free (w_pool v)) = add_mset k (mset (pool_free pool))" "pool_free (w_pool v) \<noteq> []"
      using pool.acquire_free [OF a] by auto
    note reply = queued_reply(1,2) [OF ok a len, of "rm_data msg" "fs_original_info flow" "reply_tos flow msg"]
      queued_reply(3,4) [OF ok a len]
    show ?thesis
      using a free reply unfolding v' recv_outcome_of_def recv_flow_response_def
      by (auto simp: shard_recv_def Let_def send_data_def w_release_def g_drop_out_def pool_release_def split: option.split)
  qed
qed

section \<open>The threads come up together\<close>

lemma collect_all:
  assumes "distinct is" "\<forall>i < length ws. if i \<in> set is then True else ws ! i = Some (w i)" "set is \<subseteq> {..<length ws}"
  shows "collect_wakers (length is) ws (map (\<lambda>i. Publish i (w i)) is) = Up (map w [0..<length ws])"
  using assms
proof (induction "is" arbitrary: ws)
  case Nil
  then have "ws ! i = Some (w i)" if "i < length ws" for i using that by simp
  then have "None \<notin> set ws" "map the ws = map w [0..<length ws]" by (auto simp: in_set_conv_nth intro: nth_equalityI)
  then show ?case by simp
next
  case (Cons k ks)
  then show ?case using Cons.IH [of "ws[k := Some (w k)]"] by (auto simp: nth_list_update)
qed

lemma collect_end:
  "ThreadEnds k r \<in> set es \<Longrightarrow> (\<forall>e \<in> set es. \<exists>i < length ws. boot_shard e = Some i) \<Longrightarrow> n = length es \<Longrightarrow>
     collect_wakers n ws es = ExitProcess 70"
proof (induction n ws es rule: collect_wakers.induct)
  case (3 n ws i waker es)
  then show ?case by auto
qed (auto simp: supervise_critical_thread_def)

lemma find_fails: "find fails xs = Some call \<Longrightarrow> fails call"
  by (auto simp: find_Some_iff)

text \<open>Whatever the order of the threads, every shard is heard once.\<close>

lemma boot_order:
  assumes "\<And>i. i < n \<Longrightarrow> filter (\<lambda>e. boot_shard e = Some i) es = [b i]" "\<forall>e \<in> set es. \<exists>i < n. boot_shard e = Some i"
  shows "mset (map (\<lambda>e. the (boot_shard e)) es) = mset [0..<n]" and "es = map b (map (\<lambda>e. the (boot_shard e)) es)"
proof -
  let ?s = "\<lambda>e. the (boot_shard e)"
  have same: "filter (\<lambda>e. boot_shard e = Some i) es = filter (\<lambda>e. ?s e = i) es" for i
    using assms(2) by (intro filter_cong) auto
  have "count (mset (map ?s es)) i = count (mset [0..<n]) i" for i
  proof (cases "i < n")
    case True
    have "count (mset (map ?s es)) i = length (filter (\<lambda>e. ?s e = i) es)"
      unfolding count_mset by (induction es) auto
    then show ?thesis using True assms(1) same by (simp add: count_mset_0_iff)
  next
    case False
    then have "i \<notin> set (map ?s es)" "i \<notin> set [0..<n]" using assms(2) by auto
    then show ?thesis by (metis count_mset_0_iff)
  qed
  then show "mset (map ?s es) = mset [0..<n]" by (rule multiset_eqI)
  have "e = b (?s e)" if "e \<in> set es" for e
  proof -
    obtain i where "i < n" "boot_shard e = Some i" using assms(2) \<open>e \<in> set es\<close> by blast
    moreover have "e \<in> set (filter (\<lambda>x. boot_shard x = boot_shard e) es)" using that by simp
    ultimately show ?thesis using assms(1) by auto
  qed
  then show "es = map b (map ?s es)" by (simp add: comp_def map_idI)
qed

lemma boot_shard_None: "boot_shard e = None \<longleftrightarrow> e = RecvError"
  by (cases e) simp_all

lemma collect_closed:
  assumes "every_shard_once n os es" "0 < n" "RecvError \<in> set es"
  shows "(\<exists>i < n. \<exists>r. shard_prologue (os i) = Inl r) \<and> collect_wakers n (replicate n None) es \<in> {ExitProcess 70, BootErr RecvWaker}"
proof -
  from assms(3) have all: "\<exists>r. shard_prologue (os i) = Inl r" if "i < n" for i using assms(1) that by (auto simp: every_shard_once_def)
  obtain e rest where es: "es = e # rest" using assms(3) by (cases es) auto
  obtain m where n: "n = Suc m" using assms(2) by (cases n) auto
  have "e \<noteq> Publish i w" for i w
  proof
    assume e: "e = Publish i w"
    then have i: "i < n" "e \<in> set (filter (\<lambda>e. boot_shard e = Some i) es)" using assms(1) es by (auto simp: every_shard_once_def)
    have "filter (\<lambda>e. boot_shard e = Some i) es = [shard_boot i (os i)]" using assms(1) i(1) by (simp add: every_shard_once_def)
    then have "e = shard_boot i (os i)" using i(2) by simp
    then show False using all [OF i(1)] e by (auto simp: shard_boot_def)
  qed
  then have "collect_wakers n (replicate n None) es \<in> {ExitProcess 70, BootErr RecvWaker}"
    unfolding es n by (cases e) (auto simp: supervise_critical_thread_def)
  then show ?thesis using all [OF assms(2)] assms(2) by blast
qed

lemma collect_open:
  assumes "every_shard_once n os es" "RecvError \<notin> set es"
  shows "(\<exists>w. (\<forall>i < n. shard_prologue (os i) = Inr (w i)) \<and> collect_wakers n (replicate n None) es = Up (map w [0..<n])) \<or>
    (\<exists>i < n. \<exists>r. shard_prologue (os i) = Inl r) \<and> collect_wakers n (replicate n None) es = ExitProcess 70"
proof -
  let ?is = "map (\<lambda>e. the (boot_shard e)) es"
  let ?w = "\<lambda>i. projr (shard_prologue (os i))"
  have once: "filter (\<lambda>e. boot_shard e = Some i) es = [shard_boot i (os i)]" if "i < n" for i
    using assms(1) that by (simp add: every_shard_once_def)
  have dom: "\<forall>e \<in> set es. \<exists>i < n. boot_shard e = Some i"
  proof
    fix e
    assume "e \<in> set es"
    moreover from this obtain i where "boot_shard e = Some i" using assms(2) boot_shard_None [of e] by (cases "boot_shard e") auto
    ultimately show "\<exists>i < n. boot_shard e = Some i" using assms(1) by (auto simp: every_shard_once_def)
  qed
  have ms: "mset ?is = mset [0..<n]" and es: "es = map (\<lambda>i. shard_boot i (os i)) ?is" using boot_order [OF once dom] by blast+
  have d: "distinct ?is" "set ?is = {..<n}" "length es = n"
    using mset_eq_imp_distinct_iff [OF ms] mset_eq_setD [OF ms] mset_eq_length [OF ms] by auto
  show ?thesis
  proof (cases "\<exists>i < n. \<exists>r. shard_prologue (os i) = Inl r")
    case True
    then obtain i r where i: "i < n" "shard_prologue (os i) = Inl r" by blast
    then have "shard_boot i (os i) \<in> set (filter (\<lambda>e. boot_shard e = Some i) es)" using once by simp
    then have ends: "ThreadEnds i r \<in> set es" unfolding shard_boot_def i(2) by simp
    have "\<forall>e \<in> set es. \<exists>i < length (replicate n (None :: 'a option)). boot_shard e = Some i" unfolding length_replicate by (rule dom)
    from collect_end [OF ends this d(3) [symmetric]] show ?thesis using True by blast
  next
    case False
    have w: "shard_prologue (os i) = Inr (?w i)" if "i < n" for i using False that by (cases "shard_prologue (os i)") auto
    have "shard_boot i (os i) = Publish i (?w i)" if "i \<in> set ?is" for i
    proof -
      have "shard_prologue (os i) = Inr (?w i)" using w d(2) that by blast
      then show ?thesis unfolding shard_boot_def by (rule ssubst) simp
    qed
    then have "map (\<lambda>i. shard_boot i (os i)) ?is = map (\<lambda>i. Publish i (?w i)) ?is" by (intro map_cong refl)
    with es have "es = map (\<lambda>i. Publish i (?w i)) ?is" by (rule trans)
    moreover have "collect_wakers (length ?is) (replicate n None) (map (\<lambda>i. Publish i (?w i)) ?is) = Up (map ?w [0..<n])"
      using collect_all [OF d(1), of "replicate n None" ?w] d(2) by simp
    moreover have "length ?is = n" using d(3) by simp
    ultimately have "collect_wakers n (replicate n None) es = Up (map ?w [0..<n])" by argo
    then show ?thesis by (intro disjI1 exI [of _ ?w] conjI allI impI w)
  qed
qed

lemma start_threads_outcome:
  assumes "every_shard_once (shard_count tuning) os es" "0 < shard_count tuning"
  shows "case start_threads tuning fails es of
      Up shard_wakers \<Rightarrow> length shard_wakers = shard_count tuning \<and>
        (\<forall>i < shard_count tuning. shard_prologue (os i) = Inr (shard_wakers ! i))
    | ExitProcess code \<Rightarrow> code = 70 \<and> (\<exists>i < shard_count tuning. \<exists>r. shard_prologue (os i) = Inl r)
    | BootErr call \<Rightarrow> fails call \<or> call = RecvWaker \<and> (\<exists>i < shard_count tuning. \<exists>r. shard_prologue (os i) = Inl r)
    | Waiting \<Rightarrow> False
    | BootPanic \<Rightarrow> False"
proof (cases "find fails (calls_before_wakers (shard_count tuning))")
  case None
  from collect_closed [OF assms] collect_open [OF assms(1)] consider
      w where "\<forall>i < shard_count tuning. shard_prologue (os i) = Inr (w i)"
        "collect_wakers (shard_count tuning) (replicate (shard_count tuning) None) es = Up (map w [0..<shard_count tuning])"
    | "\<exists>i < shard_count tuning. \<exists>r. shard_prologue (os i) = Inl r"
        "collect_wakers (shard_count tuning) (replicate (shard_count tuning) None) es \<in> {ExitProcess 70, BootErr RecvWaker}"
    by blast
  then show ?thesis
  proof cases
    case (1 w)
    then show ?thesis using None by (auto simp: start_threads_def Let_def dest: find_fails split: option.split)
  next
    case 2
    from 2(2) show ?thesis using None 2(1) by (elim insertE emptyE) (simp_all add: start_threads_def)
  qed
next
  case (Some call)
  then show ?thesis using find_fails [OF Some] by (simp add: start_threads_def)
qed

section \<open>Flow sockets\<close>

text \<open>Only the type-of-service option may fail.\<close>

lemma create_flow_socket_spec:
  "(\<exists>s. create_flow_socket env fails game = Inr s) \<longleftrightarrow>
     (\<forall>call \<in> {FlowSocket, FlowRcvbuf, FlowSndbuf, FlowBind, FlowNonblocking, FlowConnect}. \<not> fails call)"
  "create_flow_socket env fails game = Inr s \<Longrightarrow>
     fk_peer s = Some game \<and> fk_nonblocking s \<and> (fk_recv_tos s \<longleftrightarrow> \<not> fails FlowRecvTos) \<and>
     fk_rcvbuf s = Some (get_flow_socket_rcvbuf_bytes env) \<and> fk_sndbuf s = Some (get_flow_socket_sndbuf_bytes env)"
  by (auto simp: create_flow_socket_def Let_def split: if_splits)

lemma bind_v1_flow_socket_spec:
  "(\<exists>s. bind_v1_flow_socket fails = Inr s) \<longleftrightarrow> (\<forall>call \<in> {FlowSocket, FlowBind, FlowNonblocking, FlowFromStd}. \<not> fails call)"
  "bind_v1_flow_socket fails = Inr s \<Longrightarrow> fk_peer s = None \<and> fk_nonblocking s \<and> (fk_recv_tos s \<longleftrightarrow> \<not> fails FlowRecvTos)"
  by (auto simp: bind_v1_flow_socket_def Let_def split: if_splits)

section \<open>Witnesses\<close>

definition sample_os :: "nat \<Rightarrow> nat shard_os" where
  "sample_os i = \<lparr>so_poll_ok = True, so_waker = Some (100 + i), so_receiver_alive = True\<rparr>"

definition sample_tick :: shard_tick where
  "sample_tick = \<lparr>tk_events = Some [(0, [])], tk_inbox = [sample_drain], tk_now = 0\<rparr>"

theorem shard_thread_is_a_bounded_run_witness:
  "v2_reach sample_config2 (v2_init sample_config2 0 sample_policy sample_budget)
     (snd (run_shard sample_config2 1 (sample_os 1) [sample_tick, sample_tick] sample_h1)) \<and>
   fst (run_shard sample_config2 1 (sample_os 1) [sample_tick, sample_tick] sample_h1) = None \<and>
   (\<exists>w. shard_iteration sample_config2 1 sample_tick sample_h1 = Some w \<and>
     length (w_received w) \<le> length (w_received sample_h1) + 64 \<and> length (w_tx_data w) \<le> length (w_tx_data sample_h1) + 64 \<and>
     sh_inbox (w_shards w ! 1) = drop 1 (sh_inbox (w_shards sample_h1 ! 1)))"
proof -
  have tick: "tk_events sample_tick = Some [(0, [])]" "length (tk_inbox sample_tick) = 1" by (simp_all add: sample_tick_def)
  then obtain w where w: "shard_iteration sample_config2 1 sample_tick sample_h1 = Some w"
    by (simp add: shard_iteration_def)
  have "1 < length (w_shards sample_h1)" by (simp add: sample_h1_shards)
  note run = shard_thread_is_a_bounded_run [OF sample_h1_reach this, of "sample_os 1" "[sample_tick, sample_tick]"]
  from run tick w have "length (w_received w) \<le> length (w_received sample_h1) + 64 * length [(0 :: nat, [])]"
    "length (w_tx_data w) \<le> length (w_tx_data sample_h1) + 64 * length [(0 :: nat, [])]"
    "sh_inbox (w_shards w ! 1) = drop (min 1024 (length (tk_inbox sample_tick))) (sh_inbox (w_shards sample_h1 ! 1))"
    by fastforce+
  then show ?thesis using run w by (auto simp: tick sample_os_def)
qed

definition sample_datagram :: recv_msg where
  "sample_datagram = \<lparr>rm_data = [9, 9], rm_control =
     [\<lparr>cmsg_level = 1, cmsg_type = 29, cmsg_data = [7]\<rparr>, \<lparr>cmsg_level = 0, cmsg_type = 1, cmsg_data = [0xB8]\<rparr>]\<rparr>"

theorem shard_reply_is_the_datagram_witness:
  "let v' = snd (shard_recv sample_open2 sample_home (sample_sid, sample_game) sample_shard_flow
       (recv_outcome_of (Inr sample_datagram, 8, 1010, 1010)) sample_w2)
   in \<exists>p. w_tx_data v' = [p] \<and> tx_addr p = sample_addr \<and>
      take (tx_len p) (pool_buffer (w_pool v') (tx_buf_idx p)) =
        sample_sid @ build_response_ip_packet_with_tos [9, 9] (swap_info sample_info 7) 0xB8"
proof -
  obtain s where s: "dm_get (g_sessions sample_w2) sample_sid = Some s" "lease_expires_at_unix s = None"
    using sample_w2_fields(8) by blast
  have flow: "dm_get (sh_flows (w_shards sample_w2 ! sample_home)) (sample_sid, sample_game) = Some sample_shard_flow"
    by (simp add: sample_w2_fields(3) dm_get_def)
  have home: "sample_home < length (w_shards sample_w2)" using sample_home(2) sample_w2_fields(2) by simp
  have "\<exists>s. dm_get (g_sessions sample_w2) sample_sid = Some s \<and> session_lease_is_current s 1010"
    using s by (auto simp: session_lease_is_current_def)
  moreover have "pool_free (w_pool sample_w2) \<noteq> []" "w_tx_data sample_w2 = []" "0 < tx_queue_cap (vc_tuning sample_open2)"
    by (simp_all add: sample_w2_fields sample_open2_def sample_tuning_def)
  moreover have "fs_original_info sample_shard_flow = swap_info sample_info 7" "reply_tos sample_shard_flow sample_datagram = 0xB8"
    "rm_data sample_datagram = [9, 9]" "length (rm_data sample_datagram) + 36 \<le> MAX_PACKET_SIZE" "fs_client_addr sample_shard_flow = sample_addr"
    by (simp_all add: sample_shard_flow_def sample_datagram_def IPPROTO_IP_def IP_TOS_def MAX_PACKET_SIZE_def)
  ultimately show ?thesis
    using shard_reply_is_the_datagram [OF sample_w_reach(2) home flow refl, where msg = sample_datagram and received_at = 8 and now_unix = 1010 and later_unix = 1010]
    by (auto simp: Let_def)
qed

end
