(* ===== verification/Lease_Spec.thy ===== *)
theory Lease_Spec
  imports V2_Safety
begin

text \<open>
  What the session table of an authenticating relay is for: an abstract table that maps a
  session to its user, endpoint and expiry.  It changes in two ways, a verified ticket
  grants or renews a session for its user, and sessions expire.  Both datapaths refine it:
  every step of theirs is a step of the abstract table.  What the abstract table
  guarantees over whole runs is proved once, in the locale \<^verbatim>\<open>lease_table\<close>, and holds for both.
\<close>

section \<open>The abstract table\<close>

record lease =
  le_user :: string
  le_endpoint :: sock_addr
  le_expires :: "nat option"

type_synonym leases = "session_id \<Rightarrow> lease option"

datatype lease_action =
    Skip
  | Grant session_id sock_addr string nat
  | Expire "session_id set"

definition ticket_lease :: "verified_relay_ticket \<Rightarrow> sock_addr \<Rightarrow> lease" where
  "ticket_lease ticket addr =
     \<lparr>le_user = vt_user_id ticket, le_endpoint = addr, le_expires = (if vt_lease ticket then Some (vt_exp ticket) else None)\<rparr>"

inductive lease_step :: "rx_config \<Rightarrow> leases \<Rightarrow> lease_action \<Rightarrow> leases \<Rightarrow> bool" for c where
  skip: "lease_step c m Skip m"
| grant: "verify_relay_ticket (c_ext c) token sid (c_auth c) now_unix = Inr ticket \<Longrightarrow>
    \<forall>l. m sid = Some l \<longrightarrow> le_user l = vt_user_id ticket \<Longrightarrow>
    lease_step c m (Grant sid addr token now_unix) (m(sid \<mapsto> ticket_lease ticket addr))"
| expire: "lease_step c m (Expire gone) (m |` (- gone))"

inductive_cases skipE: "lease_step c m Skip m'"
inductive_cases grantE: "lease_step c m (Grant sid addr token now_unix) m'"
inductive_cases expireE: "lease_step c m (Expire gone) m'"

text \<open>A lease that a ticket for its session stands behind.\<close>

definition ticketed :: "rx_config \<Rightarrow> session_id \<Rightarrow> lease \<Rightarrow> bool" where
  "ticketed c sid l \<longleftrightarrow> (\<exists>token now_unix ticket. verify_relay_ticket (c_ext c) token sid (c_auth c) now_unix = Inr ticket \<and>
     l = ticket_lease ticket (le_endpoint l))"

lemma ticket_lease_sel [simp]: "le_user (ticket_lease t a) = vt_user_id t" "le_endpoint (ticket_lease t a) = a"
  by (simp_all add: ticket_lease_def)

lemma ticketed_grant: "verify_relay_ticket (c_ext c) token sid (c_auth c) now_unix = Inr ticket \<Longrightarrow> ticketed c sid (ticket_lease ticket addr)"
  by (auto simp: ticketed_def)

lemma lease_step_ticketed:
  "lease_step c m a m' \<Longrightarrow> \<forall>sid l. m sid = Some l \<longrightarrow> ticketed c sid l \<Longrightarrow> m' sid = Some l \<Longrightarrow> ticketed c sid l"
  by (induction rule: lease_step.induct)
    (auto simp: restrict_map_def ticketed_grant split: if_splits)

lemma lease_step_owner: "lease_step c m a m' \<Longrightarrow> m sid = Some l \<Longrightarrow> m' sid = None \<or> (\<exists>l'. m' sid = Some l' \<and> le_user l' = le_user l)"
  by (induction rule: lease_step.induct) (auto simp: restrict_map_def)

section \<open>Implementations\<close>

text \<open>
  A system whose steps, under an invariant, are steps of the table, and the actions each of
  its events may cause.
\<close>

locale lease_table =
  fixes step :: "'e \<Rightarrow> 's \<Rightarrow> 's"
    and table :: "'s \<Rightarrow> leases"
    and inv :: "'s \<Rightarrow> bool"
    and cfg :: rx_config
    and causes :: "'e \<Rightarrow> lease_action \<Rightarrow> bool"
  assumes inv_step: "inv s \<Longrightarrow> inv (step e s)"
    and refines: "inv s \<Longrightarrow> \<exists>a. causes e a \<and> lease_step cfg (table s) a (table (step e s))"
begin

lemma inv_run: "inv s \<Longrightarrow> inv (fold step es s)"
  by (induction es arbitrary: s) (simp_all add: inv_step)

lemma ticketed_run:
  "inv s \<Longrightarrow> \<forall>sid l. table s sid = Some l \<longrightarrow> ticketed cfg sid l \<Longrightarrow> table (fold step es s) sid = Some l \<Longrightarrow> ticketed cfg sid l"
proof (induction es arbitrary: s)
  case (Cons e es)
  obtain a where "lease_step cfg (table s) a (table (step e s))" using refines [OF Cons.prems(1)] by blast
  from lease_step_ticketed [OF this Cons.prems(2)] have "\<forall>sid l. table (step e s) sid = Some l \<longrightarrow> ticketed cfg sid l" by blast
  from Cons.IH [OF inv_step [OF Cons.prems(1)] this] show ?case using Cons.prems(3) by simp
qed simp

text \<open>As long as the session is there, it belongs to the same user.\<close>

lemma owner_run:
  "inv s \<Longrightarrow> table s sid = Some l \<Longrightarrow> \<forall>k \<le> length es. table (fold step (take k es) s) sid \<noteq> None \<Longrightarrow>
     \<exists>l'. table (fold step es s) sid = Some l' \<and> le_user l' = le_user l"
proof (induction es arbitrary: s l)
  case (Cons e es)
  have later: "\<forall>k \<le> length es. table (fold step (take k es) (step e s)) sid \<noteq> None" using Cons.prems(3) by auto
  obtain a where "lease_step cfg (table s) a (table (step e s))" using refines [OF Cons.prems(1)] by blast
  with lease_step_owner [OF this Cons.prems(2)] later obtain l' where l': "table (step e s) sid = Some l'" "le_user l' = le_user l"
    by fastforce
  from Cons.IH [OF inv_step [OF Cons.prems(1)] l'(1) later] show ?case using l'(2) by simp
qed simp

end

section \<open>The session tables\<close>

definition lease_of :: "session_entry \<Rightarrow> lease" where
  "lease_of s = \<lparr>le_user = user_id s, le_endpoint = client_addr s, le_expires = lease_expires_at_unix s\<rparr>"

definition leases_of :: "sessions \<Rightarrow> leases" where
  "leases_of ss sid = map_option lease_of (dm_get ss sid)"

definition all_authenticated :: "sessions \<Rightarrow> bool" where
  "all_authenticated ss \<longleftrightarrow> (\<forall>sid s. dm_get ss sid = Some s \<longrightarrow> auth_state s = Authenticated)"

text \<open>Equal leases, and authentication kept.\<close>

definition same_leases :: "sessions \<Rightarrow> sessions \<Rightarrow> bool" where
  "same_leases ss ss' \<longleftrightarrow> leases_of ss' = leases_of ss \<and> (all_authenticated ss \<longrightarrow> all_authenticated ss')"

lemma same_leases_refl [simp]: "same_leases ss ss"
  by (simp add: same_leases_def)

lemma same_leases_trans [trans]: "same_leases a b \<Longrightarrow> same_leases b c \<Longrightarrow> same_leases a c"
  by (simp add: same_leases_def)

text \<open>A sweep that removes the sessions with a property.\<close>

lemma sweep_leases:
  assumes "\<And>sid. dm_get ss' sid = (case dm_get ss sid of None \<Rightarrow> None | Some s \<Rightarrow> if P s then None else Some s)"
  shows "(all_authenticated ss \<longrightarrow> all_authenticated ss') \<and> (\<exists>gone. lease_step c (leases_of ss) (Expire gone) (leases_of ss'))"
proof -
  let ?gone = "{sid. \<exists>s. dm_get ss sid = Some s \<and> P s}"
  have "leases_of ss' = leases_of ss |` (- ?gone)"
    by (auto simp: leases_of_def assms restrict_map_def fun_eq_iff split: option.splits)
  then show ?thesis
    using expire [of c "leases_of ss" ?gone] by (auto simp: all_authenticated_def assms split: option.splits if_splits)
qed

lemma touch_same_leases: "same_leases (g_sessions v) (g_sessions (touch_session sid now now_unix v))"
  by (auto simp: same_leases_def leases_of_def all_authenticated_def touch_session_def lease_of_def fun_eq_iff split: option.split)

context ack_channel
begin

lemma rx_gate_leases:
  assumes auth: "requires_auth (ac_mode (c_auth c))" and all: "all_authenticated (g_sessions g)"
  shows "same_leases (g_sessions g) (g_sessions (snd (rx_gate ack c ev g))) \<or>
    (\<exists>token. parse_auth_hello_token (ev_frame ev) (ev_len ev) = Inr token \<and>
       all_authenticated (g_sessions (snd (rx_gate ack c ev g))) \<and>
       lease_step c (leases_of (g_sessions g)) (Grant (ev_sid ev) (ev_addr ev) token (ev_now_unix ev))
         (leases_of (g_sessions (snd (rx_gate ack c ev g)))))"
proof (cases rule: rx_gate_stages [of c ev g])
  case stop
  then show ?thesis by simp
next
  case (payload v g' g'')
  have "v = None" using payload(1,3) rx_verify_ticket [of c ev "g_count_in (ev_len ev) g"] by (cases v) auto
  then obtain s where s: "dm_get (g_sessions g) (ev_sid ev) = Some s" "client_addr s = ev_addr ev" "auth_state s = Authenticated"
    using rx_auth_check_owner [of c ev g''] payload(5,6) auth all by (auto simp: all_authenticated_def)
  then have "same_leases (g_sessions g) (g_sessions (snd (rx_touch_session c ev g')))"
    using payload(4) all
    by (auto simp: same_leases_def leases_of_def all_authenticated_def touch_session_get touched_def lease_of_def fun_eq_iff)
  then show ?thesis by (simp add: payload(7))
next
  case (hello v g')
  let ?old = "dm_get (g_sessions g) (ev_sid ev)" and ?new = "g_sessions (snd (rx_gate ack c ev g))"
  obtain ticket where v: "v = Some ticket" using rx_verify_none hello(1,3) auth by (cases v) auto
  then obtain token where token: "parse_auth_hello_token (ev_frame ev) (ev_len ev) = Inr token"
    "verify_relay_ticket (c_ext c) token (ev_sid ev) (c_auth c) (ev_now_unix ev) = Inr ticket"
    using rx_verify_ticket hello(3) by blast
  have on: "ac_mode (c_auth c) \<noteq> AuthOff" using auth by (simp add: requires_auth_def)
  have new: "dm_get ?new sid = (if sid = ev_sid ev then
        (case ?old of Some s \<Rightarrow> if user_id s \<noteq> vt_user_id ticket then Some s else Some (hello_entry ticket ev s)
         | None \<Rightarrow> Some (hello_entry ticket ev (touched c ev None))) else dm_get (g_sessions g) sid)" for sid
    using all auth hello(1) on
    by (auto simp: hello(4,5) rx_hello_get touch_session_get v touched_def all_authenticated_def split: option.splits)
  show ?thesis
  proof (cases "\<exists>s. ?old = Some s \<and> user_id s \<noteq> vt_user_id ticket")
    case True
    then have "same_leases (g_sessions g) ?new"
      by (auto simp: same_leases_def leases_of_def all_authenticated_def new fun_eq_iff split: if_splits)
    then show ?thesis by blast
  next
    case False
    then have owner: "\<forall>l. leases_of (g_sessions g) (ev_sid ev) = Some l \<longrightarrow> le_user l = vt_user_id ticket"
      by (auto simp: leases_of_def lease_of_def)
    have "auth_state s = Authenticated" if "dm_get ?new sid = Some s" for sid s
      using that all unfolding new [of sid] by (auto simp: all_authenticated_def hello_entry_def split: option.splits if_splits)
    then have "all_authenticated ?new" by (simp add: all_authenticated_def)
    moreover have "leases_of ?new = (leases_of (g_sessions g))(ev_sid ev \<mapsto> ticket_lease ticket (ev_addr ev))"
      using False by (auto simp: leases_of_def new lease_of_def hello_entry_def ticket_lease_def fun_eq_iff split: option.splits)
    ultimately show ?thesis using grant [where m = "leases_of (g_sessions g)", OF token(2) owner] token(1) by auto
  qed
qed

end

section \<open>The first datapath\<close>

lemma set_user_sessions: "all_authenticated (g_sessions v) \<Longrightarrow> g_sessions (set_user sid ip v) = g_sessions v"
  by (auto simp: set_user_def all_authenticated_def split: option.split)

lemma v1_dispatch_sessions:
  assumes "all_authenticated (g_sessions v)"
  shows "g_sessions (v1_dispatch c ev a v) = g_sessions v"
proof -
  have flow: "g_sessions (v1_flow_entry c ev n key game payload info w) = g_sessions w" for n key game payload info w
    by (simp add: v1_flow_entry_def v1_existing_flow_def v1_new_flow_def Let_def split: option.split)
  have admit: "g_sessions (snd (v1_flow_admit ev w)) = g_sessions w" for w
    by (simp add: v1_flow_admit_def split_beta Let_def)
  have fwd: "g_sessions (v1_forward c ev r w) = g_sessions w" if "all_authenticated (g_sessions w)" for r w
    using that by (cases r) (simp_all add: v1_udp_def split_beta Let_def flow admit set_user_sessions)
  have "g_sessions (v1_payload c ev v) = g_sessions v"
    using assms by (simp add: v1_payload_def split_beta Let_def fwd split: option.split)
  moreover have "g_sessions (v1_ping ev v) = g_sessions v" "g_sessions (v1_keepalive ev v) = g_sessions v"
    by (simp_all add: v1_ping_def v1_keepalive_def Let_def split: option.split)
  ultimately show ?thesis by (intro v1_dispatch_cases [where P = "\<lambda>w. g_sessions w = g_sessions v"]) simp_all
qed

lemma v1_flow_leases: "same_leases (g_sessions v) (g_sessions (v1_flow_step g e v))"
proof -
  have reply: "same_leases (g_sessions v) (g_sessions (flow_reply p n u g t f v))" for p n u t f
  proof -
    have "g_sessions w = g_sessions v \<Longrightarrow> same_leases (g_sessions v) (g_sessions (touch_session sid n u w))" for w :: v1_state and sid
      using touch_same_leases [of w sid n u] by simp
    then show ?thesis by (simp add: flow_reply_def Let_def flow_put_def)
  qed
  have other: "g_sessions (flow_start b k g t v) = g_sessions v" "g_sessions (flow_deliver err g t v) = g_sessions v"
    "g_sessions (flow_idle g t v) = g_sessions v" for b k t err
    by (simp_all add: flow_start_def flow_deliver_def flow_idle_def flow_put_def Let_def split: list.split option.split)
  have "same_leases (g_sessions v) (g_sessions (flow_receive r n u g t v))" for r n u t
    using reply by (simp add: flow_receive_def Let_def flow_put_def split: sum.split option.split)
  then show ?thesis by (cases e) (simp_all add: v1_flow_step_def other split: option.split)
qed

fun v1_causes :: "v1_event \<Rightarrow> lease_action \<Rightarrow> bool" where
  "v1_causes (V1Rx ev) a \<longleftrightarrow> a = Skip \<or> (\<exists>token. parse_auth_hello_token (ev_frame ev) (ev_len ev) = Inr token \<and>
     a = Grant (ev_sid ev) (ev_addr ev) token (ev_now_unix ev))"
| "v1_causes (V1Cleanup now) a \<longleftrightarrow> (\<exists>gone. a = Expire gone)"
| "v1_causes _ a \<longleftrightarrow> a = Skip"

definition v1_leased :: "v1_config \<Rightarrow> v1_state \<Rightarrow> bool" where
  "v1_leased c v \<longleftrightarrow> v1_ok c v \<and> all_authenticated (g_sessions v)"

lemma v1_lease_step:
  assumes "vc_auth_required c" "v1_leased c v"
  shows "all_authenticated (g_sessions (v1_step c e v)) \<and>
    (\<exists>a. v1_causes e a \<and> lease_step (vc_rx c) (leases_of (g_sessions v)) a (leases_of (g_sessions (v1_step c e v))))"
proof -
  have all: "all_authenticated (g_sessions v)" using assms(2) by (simp add: v1_leased_def)
  have stutter: ?thesis if "same_leases (g_sessions v) (g_sessions (v1_step c e v))" "v1_causes e Skip"
    using that all lease_step.skip [of "vc_rx c" "leases_of (g_sessions v)"] by (auto simp: same_leases_def)
  show ?thesis
  proof (cases e)
    case (V1Rx ev)
    let ?g = "snd (rx_gate v1_ack (vc_rx c) ev v)"
    have step: "g_sessions (v1_step c e v) = g_sessions ?g" if "all_authenticated (g_sessions ?g)"
      using that V1Rx by (simp add: v1_rx_def split_beta v1_dispatch_sessions split: option.split)
    show ?thesis
      using v1.rx_gate_leases [OF assms(1) all, of ev] all step V1Rx lease_step.skip [of "vc_rx c" "leases_of (g_sessions v)"]
      by (auto simp: same_leases_def)
  next
    case (V1Cleanup now)
    have "v1_ok c v" using assms(2) by (simp add: v1_leased_def)
    from sweep_leases [where c = "vc_rx c", OF cleanup_sessions [where c' = c and now = now, OF this]] show ?thesis using all V1Cleanup by auto
  qed (use stutter v1_flow_leases in auto)
qed

interpretation v1_leases: lease_table "v1_step c" "\<lambda>v. leases_of (g_sessions v)" "\<lambda>v. vc_auth_required c \<and> v1_leased c v" "vc_rx c" v1_causes
  for c
  using v1_lease_step v1_ok_step by unfold_locales (auto simp: v1_leased_def)

section \<open>The second datapath\<close>

lemma v2_dispatch_sessions:
  assumes "all_authenticated (g_sessions v)"
  shows "g_sessions (v2_dispatch c ev a v) = g_sessions v"
proof -
  have fwd: "g_sessions (v2_forward c ev r w) = g_sessions w" if "all_authenticated (g_sessions w)" for r w
    using that by (cases r) (simp_all add: v2_udp_def split_beta Let_def set_user_sessions split: option.split)
  have "g_sessions (v2_payload c ev v) = g_sessions v"
    using assms by (simp add: v2_payload_def split_beta Let_def fwd split: option.split)
  moreover have "g_sessions (v2_ping c ev v) = g_sessions v" "g_sessions (v2_keepalive c ev v) = g_sessions v"
    by (simp_all add: v2_ping_def v2_keepalive_def Let_def split: option.split)
  ultimately show ?thesis by (intro v2_dispatch_cases [where P = "\<lambda>w. g_sessions w = g_sessions v"]) simp_all
qed

lemma recv_leases: "same_leases (g_sessions v) (g_sessions (snd (shard_recv c i key flow outcome v)))"
proof -
  have "g_sessions w = g_sessions v \<Longrightarrow> same_leases (g_sessions v) (g_sessions (touch_session sid n u w))" for w :: v2_state and sid n u
    using touch_same_leases [of w sid n u] by simp
  then show ?thesis by (simp add: shard_recv_def Let_def split: recv_outcome.split option.split)
qed

lemma burst_leases: "same_leases (g_sessions v) (g_sessions (recv_burst c i key outcomes v))"
proof (induction outcomes arbitrary: v)
  case (Cons outcome outcomes)
  show ?case
    using recv_leases [of v c i key _ outcome] same_leases_trans [OF recv_leases Cons.IH]
    by (simp add: split_beta Let_def split: option.split)
qed simp

fun v2_causes :: "v2_event \<Rightarrow> lease_action \<Rightarrow> bool" where
  "v2_causes (V2Rx ev) a \<longleftrightarrow> a = Skip \<or>
     (\<exists>token. parse_auth_hello_token (ev_frame (recv_from ev)) (ev_len (recv_from ev)) = Inr token \<and>
        a = Grant (ev_sid (recv_from ev)) (ev_addr ev) token (ev_now_unix ev))"
| "v2_causes (V2Cleanup now now_unix) a \<longleftrightarrow> (\<exists>gone. a = Expire gone)"
| "v2_causes _ a \<longleftrightarrow> a = Skip"

definition v2_leased :: "v2_config \<Rightarrow> v2_state \<Rightarrow> bool" where
  "v2_leased c v \<longleftrightarrow> v2_ok c v \<and> all_authenticated (g_sessions v)"

lemma v2_lease_step:
  assumes "vc_auth_required c" "v2_leased c v"
  shows "all_authenticated (g_sessions (v2_step c e v)) \<and>
    (\<exists>a. v2_causes e a \<and> lease_step (vc_rx c) (leases_of (g_sessions v)) a (leases_of (g_sessions (v2_step c e v))))"
proof -
  have all: "all_authenticated (g_sessions v)" using assms(2) by (simp add: v2_leased_def)
  have stutter: ?thesis if "same_leases (g_sessions v) (g_sessions (v2_step c e v))" "v2_causes e Skip"
    using that all lease_step.skip [of "vc_rx c" "leases_of (g_sessions v)"] by (auto simp: same_leases_def)
  show ?thesis
  proof (cases e)
    case (V2Rx ev)
    let ?ev = "recv_from ev" and ?g = "snd (v2_gate c (recv_from ev) v)"
    have ev: "ev_addr ?ev = ev_addr ev" "ev_now_unix ?ev = ev_now_unix ev" by (simp_all add: recv_from_def)
    have step: "g_sessions (v2_step c e v) = g_sessions ?g" if "all_authenticated (g_sessions ?g)"
      using that V2Rx by (simp add: v2_rx_def split_beta v2_dispatch_sessions split: option.split)
    show ?thesis
      using v2.rx_gate_leases [OF assms(1) all, of c "ev_later ?ev" ?ev] all step V2Rx ev lease_step.skip [of "vc_rx c" "leases_of (g_sessions v)"]
      by (auto simp: same_leases_def v2_gate_eq)
  next
    case (V2Readable i token outcomes)
    then show ?thesis using burst_leases by (intro stutter) (auto simp: shard_readable_def split: option.split)
  next
    case (V2Cleanup now now_unix)
    have "v2_ok c v" using assms(2) by (simp add: v2_leased_def)
    from sweep_leases [where c = "vc_rx c", OF v2_cleanup_sessions [where now = now and now_unix = now_unix, OF this]] show ?thesis using all V2Cleanup by auto
  next
    case (V2ShardCleanup i now)
    then show ?thesis by (intro stutter) (simp_all add: shard_cleanup_def Let_def)
  qed (use stutter in \<open>auto simp: shard_drain_def v2_stats_def\<close>)
qed

interpretation v2_leases: lease_table "v2_step c" "\<lambda>v. leases_of (g_sessions v)" "\<lambda>v. vc_auth_required c \<and> v2_leased c v" "vc_rx c" v2_causes
  for c
  using v2_lease_step v2_ok_step by unfold_locales (auto simp: v2_leased_def)

section \<open>Whole runs\<close>

lemma v1_leased_reach:
  assumes "vc_auth_required c" "v1_reach c (v1_init now policy budget) v"
  shows "v1_leased c v"
  using assms(2)
proof (induction rule: v1_reach.induct)
  case v1_start
  then show ?case
    using v1_ok_init by (simp add: v1_leased_def) (simp add: all_authenticated_def v1_init_def relay.extend_def relay_new_def gate.extend_def gate_new_def)
next
  case (v1_next v e)
  then show ?case using v1_leases.inv_step [of c v e] assms(1) by simp
qed

lemma v2_leased_reach:
  assumes "vc_auth_required c" "v2_reach c (v2_init c now policy budget) v"
  shows "v2_leased c v"
  using assms(2)
proof (induction rule: v2_reach.induct)
  case v2_start
  then show ?case
    using v2_ok_init by (simp add: v2_leased_def) (simp add: all_authenticated_def v2_init_def relay.extend_def relay_new_def gate.extend_def gate_new_def)
next
  case (v2_next v e)
  then show ?case using v2_leases.inv_step [of c v e] assms(1) by simp
qed

lemma v1_reach_fold: "v1_reach c v0 v \<Longrightarrow> \<exists>es. v = fold (v1_step c) es v0"
proof (induction rule: v1_reach.induct)
  case v1_start
  then show ?case by (intro exI [of _ "[]"]) simp
next
  case (v1_next v e)
  then obtain es where "v = fold (v1_step c) es v0" by blast
  then show ?case by (intro exI [of _ "es @ [e]"]) simp
qed

lemma v2_reach_fold: "v2_reach c v0 v \<Longrightarrow> \<exists>es. v = fold (v2_step c) es v0"
proof (induction rule: v2_reach.induct)
  case v2_start
  then show ?case by (intro exI [of _ "[]"]) simp
next
  case (v2_next v e)
  then obtain es where "v = fold (v2_step c) es v0" by blast
  then show ?case by (intro exI [of _ "es @ [e]"]) simp
qed

lemma init_leases: "leases_of (g_sessions (v1_init now policy budget)) = Map.empty" "leases_of (g_sessions (v2_init c now policy budget)) = Map.empty"
  by (simp_all add: leases_of_def fun_eq_iff v1_init_def v2_init_def relay.extend_def relay_new_def gate.extend_def gate_new_def)

text \<open>
  C13. With authentication on, both datapaths implement an abstract table of leases that
  starts empty: seen through their session tables, every step of a reachable state
  either changes no lease, or is a received hello that grants the lease its ticket names
  to the sender, with a ticket that verifies for that session and only over a lease of
  the same user, or is a cleanup that ends leases. No other event of either datapath can
  create, move, extend or end a lease.
\<close>

theorem datapaths_refine_lease_table:
  assumes "vc_auth_required c" "vc_auth_required d"
    and "v1_reach c (v1_init now policy budget) v" "v2_reach d (v2_init d now policy budget) w"
  shows "leases_of (g_sessions (v1_init now policy budget)) = Map.empty \<and>
    leases_of (g_sessions (v2_init d now policy budget)) = Map.empty \<and>
    (\<exists>a. v1_causes e a \<and> lease_step (vc_rx c) (leases_of (g_sessions v)) a (leases_of (g_sessions (v1_step c e v)))) \<and>
    (\<exists>a. v2_causes f a \<and> lease_step (vc_rx d) (leases_of (g_sessions w)) a (leases_of (g_sessions (v2_step d f w))))"
  using v1_leases.refines [of c v e] v1_leased_reach [OF assms(1,3)] v2_leases.refines [of d w f] v2_leased_reach [OF assms(2,4)]
    assms(1,2) init_leases by blast

text \<open>
  C14. With authentication on, every session of every reachable state of either datapath
  carries the user and the expiry of a ticket that verified for that very session, and
  over any further run in which the session is never removed its user stays the same.
\<close>

theorem sessions_belong_to_ticket_holders:
  assumes "vc_auth_required c" "vc_auth_required d"
    and "v1_reach c (v1_init now policy budget) v" "v2_reach d (v2_init d now policy budget) w"
  shows "(\<forall>s. dm_get (g_sessions v) sid = Some s \<longrightarrow> ticketed (vc_rx c) sid (lease_of s)) \<and>
    (\<forall>s. dm_get (g_sessions w) sid = Some s \<longrightarrow> ticketed (vc_rx d) sid (lease_of s)) \<and>
    (\<forall>es s. dm_get (g_sessions v) sid = Some s \<longrightarrow>
       (\<forall>k \<le> length es. dm_contains (g_sessions (fold (v1_step c) (take k es) v)) sid) \<longrightarrow>
       (\<exists>s'. dm_get (g_sessions (fold (v1_step c) es v)) sid = Some s' \<and> user_id s' = user_id s)) \<and>
    (\<forall>es s. dm_get (g_sessions w) sid = Some s \<longrightarrow>
       (\<forall>k \<le> length es. dm_contains (g_sessions (fold (v2_step d) (take k es) w)) sid) \<longrightarrow>
       (\<exists>s'. dm_get (g_sessions (fold (v2_step d) es w)) sid = Some s' \<and> user_id s' = user_id s))"
proof -
  have iv: "v1_leased c (v1_init now policy budget)" "v1_leased c v" using v1_leased_reach [OF assms(1)] v1_start assms(3) by blast+
  have iw: "v2_leased d (v2_init d now policy budget)" "v2_leased d w" using v2_leased_reach [OF assms(2)] v2_start assms(4) by blast+
  obtain es fs where run: "v = fold (v1_step c) es (v1_init now policy budget)" "w = fold (v2_step d) fs (v2_init d now policy budget)"
    using v1_reach_fold [OF assms(3)] v2_reach_fold [OF assms(4)] by blast
  have "ticketed (vc_rx c) sid (lease_of s)" if "dm_get (g_sessions v) sid = Some s" for s
    using v1_leases.ticketed_run [of c "v1_init now policy budget" es sid "lease_of s"] iv(1) assms(1) that run(1)
    by (simp add: init_leases) (simp add: leases_of_def)
  moreover have "ticketed (vc_rx d) sid (lease_of s)" if "dm_get (g_sessions w) sid = Some s" for s
    using v2_leases.ticketed_run [of d "v2_init d now policy budget" fs sid "lease_of s"] iw(1) assms(2) that run(2)
    by (simp add: init_leases) (simp add: leases_of_def)
  moreover have "\<exists>s'. dm_get (g_sessions (fold (v1_step c) es v)) sid = Some s' \<and> user_id s' = user_id s"
    if "dm_get (g_sessions v) sid = Some s" "\<forall>k \<le> length es. dm_contains (g_sessions (fold (v1_step c) (take k es) v)) sid" for es s
    using v1_leases.owner_run [of c v sid "lease_of s" es] iv(2) assms(1) that by (auto simp: leases_of_def lease_of_def dm_contains_get)
  moreover have "\<exists>s'. dm_get (g_sessions (fold (v2_step d) es w)) sid = Some s' \<and> user_id s' = user_id s"
    if "dm_get (g_sessions w) sid = Some s" "\<forall>k \<le> length es. dm_contains (g_sessions (fold (v2_step d) (take k es) w)) sid" for es s
    using v2_leases.owner_run [of d w sid "lease_of s" es] iw(2) assms(2) that by (auto simp: leases_of_def lease_of_def dm_contains_get)
  ultimately show ?thesis by blast
qed

section \<open>Witnesses\<close>

definition sample_lease :: lease where
  "sample_lease = \<lparr>le_user = ''u1'', le_endpoint = sample_addr, le_expires = Some 1600\<rparr>"

lemma sample_leases: "leases_of (g_sessions sample_v1) sample_sid = Some sample_lease"
proof -
  obtain s where "dm_get (g_sessions sample_v1) sample_sid = Some s" "user_id s = ''u1''" "client_addr s = sample_addr"
    "lease_expires_at_unix s = Some 1600"
    by (rule sample_v1_session)
  then show ?thesis by (simp add: leases_of_def lease_of_def sample_lease_def)
qed

theorem datapaths_refine_lease_table_witness:
  "(\<exists>a. v1_causes (V1Rx sample_hello) a \<and> a \<noteq> Skip \<and>
     lease_step (vc_rx sample_config) Map.empty a (leases_of (g_sessions sample_v1))) \<and>
   (\<exists>a. v2_causes (V2Rx sample_hello) a \<and> a \<noteq> Skip \<and>
     lease_step (vc_rx sample_config2) Map.empty a (leases_of (g_sessions sample_h1))) \<and>
   leases_of (g_sessions sample_v1) sample_sid = Some sample_lease"
proof -
  have init: "leases_of (g_sessions sample_v0) = Map.empty" "leases_of (g_sessions sample_h0) = Map.empty"
    unfolding sample_v0_def sample_h0_def by (rule init_leases)+
  obtain a b where a: "v1_causes (V1Rx sample_hello) a" "lease_step (vc_rx sample_config) Map.empty a (leases_of (g_sessions sample_v1))"
    and b: "v2_causes (V2Rx sample_hello) b" "lease_step (vc_rx sample_config2) Map.empty b (leases_of (g_sessions sample_h1))"
    using datapaths_refine_lease_table [OF sample_hello_parse(5) sample_views(3) v1_start v2_start,
        of 0 sample_policy sample_budget "V1Rx sample_hello" "V2Rx sample_hello"] init
    unfolding sample_v1_def sample_v0_def sample_h1_def sample_h0_def by metis
  moreover have "a \<noteq> Skip" "b \<noteq> Skip" using a(2) b(2) sample_leases by (auto simp: sample_h1_sessions elim: skipE)
  ultimately show ?thesis using sample_leases by blast
qed

theorem sessions_belong_to_ticket_holders_witness:
  "ticketed (vc_rx sample_config) sample_sid sample_lease \<and> ticketed (vc_rx sample_config2) sample_sid sample_lease"
proof -
  obtain s where s: "dm_get (g_sessions sample_v1) sample_sid = Some s" "lease_of s = sample_lease"
    using sample_leases by (auto simp: leases_of_def)
  show ?thesis
    using sessions_belong_to_ticket_holders [OF sample_hello_parse(5) sample_views(3) sample_v1_reach sample_h1_reach, of sample_sid] s
    by (auto simp: sample_h1_sessions)
qed

end
