(* ===== verification/Process.thy ===== *)
theory Process
  imports Startup Server Shard_Thread Lease_Spec
begin

text \<open>
  The whole process: the services each datapath starts (the tail of \<^verbatim>\<open>main\<close> in \<^verbatim>\<open>src/src/main.rs\<close>
  and the head of \<^verbatim>\<open>run_datapath_v2\<close> in \<^verbatim>\<open>src/src/datapath_v2.rs\<close>), the launch with its failures,
  the threads of the TUN handler (\<^verbatim>\<open>src/src/tcp_tun.rs\<close>), and a running relay in which the steps of a
  datapath interleave with the two HTTP servers and the thread that refreshes the snapshot
  of the connections.
\<close>

section \<open>Definitions\<close>

subsection \<open>Services\<close>

record services =
  sr_context :: stats_api_context
  sr_health_port :: "nat option"
  sr_stats_server :: "(nat \<times> string) option"

text \<open>The two copies of the block that starts them.\<close>

definition v1_services :: "environment \<Rightarrow> nat \<Rightarrow> string option \<Rightarrow> relay_runtime_config \<Rightarrow> instant \<Rightarrow> nat \<Rightarrow> services" where
  "v1_services env stats_port stats_token runtime_config started_at now_unix =
     (let health_port = get_health_port env in
      \<lparr>sr_context = stats_api_context_new [] [] stats_new runtime_config started_at now_unix,
       sr_health_port = (if health_port \<noteq> 0 then Some health_port else None),
       sr_stats_server = (case stats_token of None \<Rightarrow> None | Some token \<Rightarrow> Some (stats_port, token))\<rparr>)"

definition v2_services :: "environment \<Rightarrow> nat \<Rightarrow> string option \<Rightarrow> relay_runtime_config \<Rightarrow> instant \<Rightarrow> nat \<Rightarrow> services" where
  "v2_services env stats_port stats_token runtime_config started_at now_unix =
     (let stats_ctx =
            \<lparr>sc_sessions = [], sc_session_traffic = [], sc_stats = stats_new, sc_runtime_config = runtime_config,
             sc_started_at = started_at, sc_rate_window = stats_rate_window_new,
             sc_connections_snapshot = empty_connections_payload now_unix\<rparr>;
          health_port = (case env ''RELAY_HEALTH_PORT'' of
              None \<Rightarrow> DEFAULT_HEALTH_PORT
            | Some v \<Rightarrow> (case parse_uint u16_max (trim v) of None \<Rightarrow> DEFAULT_HEALTH_PORT | Some p \<Rightarrow> p))
      in \<lparr>sr_context = stats_ctx,
          sr_health_port = (if health_port = 0 then None else Some health_port),
          sr_stats_server = map_option (\<lambda>token. (stats_port, token)) stats_token\<rparr>)"


subsection \<open>Clocks and the log of rejected tickets\<close>

text \<open>
  The system clock as nanoseconds since 1970, which may be negative; and the milliseconds
  since the first call, whose start the first call stores.
\<close>

definition unix_timestamp_secs :: "int \<Rightarrow> nat" where
  "unix_timestamp_secs system_time = (if system_time < 0 then 0 else nat (system_time div 1000000000))"

definition mono_timestamp_ms :: "instant \<Rightarrow> instant \<Rightarrow> instant option \<Rightarrow> u64 \<times> instant option" where
  "mono_timestamp_ms now later start =
     (let s = (case start of None \<Rightarrow> now | Some t \<Rightarrow> t)
      in (of_nat (saturating_duration_since later s div 1000000), Some s))"

definition log_auth_verify_error :: "relay_auth_verify_error \<Rightarrow> sock_addr \<Rightarrow> session_id \<Rightarrow> string option" where
  "log_auth_verify_error err addr sid =
     (if err = Replay then
        Some (''Rejected replayed relay ticket from '' @ sock_to_string addr @ '' for session '' @ hex16 sid)
      else None)"

subsection \<open>Launch\<close>

datatype launch_error = StartError start_error | NonblockingFailed | FromStdFailed | ThreadCall boot_call

datatype 'w launch_result = PrintedAndDone string | LaunchFailed launch_error | LaunchPanic expect_call | Exited nat | StillStarting
  | Running started "'w list"

record launch_os =
  lo_nonblocking_ok :: bool
  lo_from_std_ok :: bool
  lo_fails :: "boot_call \<Rightarrow> bool"

text \<open>
  The thread that refreshes the snapshot is spawned with the statistics server; a failure
  is a panic.
\<close>

definition snapshot_updater_fails :: "process_input \<Rightarrow> started \<Rightarrow> bool" where
  "snapshot_updater_fails p s \<longleftrightarrow> sd_stats_server s \<noteq> None \<and> pi_expect_fails p SpawnSnapshotUpdater"

text \<open>The process up to the point where it only waits; \<open>es\<close> is what the shard threads do meanwhile.\<close>

definition launch :: "process_input \<Rightarrow> launch_os \<Rightarrow> 'w boot_event list \<Rightarrow> 'w launch_result" where
  "launch p os es =
     (case relay_main p of
        Printed t \<Rightarrow> PrintedAndDone t
      | StartFailed e \<Rightarrow> LaunchFailed (StartError e)
      | StartPanicked call \<Rightarrow> LaunchPanic call
      | Started s \<Rightarrow>
          (case sd_datapath s of
             V2 \<Rightarrow>
               if snapshot_updater_fails p s then LaunchPanic SpawnSnapshotUpdater
               else (case start_threads (sd_tuning s) (lo_fails os) es of
                  Up shard_wakers \<Rightarrow> Running s shard_wakers
                | BootErr call \<Rightarrow> LaunchFailed (ThreadCall call)
                | BootPanic \<Rightarrow> LaunchPanic CollectWakers
                | ExitProcess code \<Rightarrow> Exited code
                | Waiting \<Rightarrow> StillStarting)
           | V1 \<Rightarrow>
               if \<not> lo_nonblocking_ok os then LaunchFailed NonblockingFailed
               else if \<not> lo_from_std_ok os then LaunchFailed FromStdFailed
               else if snapshot_updater_fails p s then LaunchPanic SpawnSnapshotUpdater
               else Running s []))"

subsection \<open>The threads of the TUN handler\<close>

datatype tun_action = SpawnWriter nat | SpawnReader nat | JoinWriter | JoinReader | TunPanic | CloseTun nat

text \<open>\<^verbatim>\<open>run\<close> consumes the handler, so its end, by return or by panic, drops it.\<close>

definition tun_drop :: "nat \<Rightarrow> tun_action list" where
  "tun_drop fd = [CloseTun fd]"

definition tun_run :: "bool \<Rightarrow> bool \<Rightarrow> nat \<Rightarrow> tun_action list" where
  "tun_run writer_ok reader_ok fd =
     (if \<not> writer_ok then TunPanic # tun_drop fd
      else if \<not> reader_ok then [SpawnWriter fd, TunPanic] @ tun_drop fd
      else [SpawnWriter fd, SpawnReader fd, JoinWriter, JoinReader] @ tun_drop fd)"

subsection \<open>A running relay\<close>

text \<open>The tables belong to the datapath; the servers share them through the context.\<close>

record 'v process =
  pr_datapath :: 'v
  pr_rate_window :: stats_rate_window
  pr_snapshot :: string
  pr_stats :: http_server
  pr_health :: http_server

definition context_at :: "started \<Rightarrow> 'a gate_scheme \<Rightarrow> stats_api_context" where
  "context_at s g = (sd_context s)\<lparr>sc_sessions := g_sessions g, sc_session_traffic := g_session_traffic g, sc_stats := g_stats g\<rparr>"

definition process_context :: "started \<Rightarrow> 'a relay_scheme process \<Rightarrow> stats_api_context" where
  "process_context s p =
     (context_at s (pr_datapath p))\<lparr>sc_rate_window := pr_rate_window p, sc_connections_snapshot := pr_snapshot p\<rparr>"

definition shared_input :: "'a relay_scheme process \<Rightarrow> api_input \<Rightarrow> api_input" where
  "shared_input p i = i\<lparr>ai_policy := v_policy (pr_datapath p), ai_budgets := v_budgets (pr_datapath p)\<rparr>"

fun shared_event :: "'a relay_scheme process \<Rightarrow> server_event \<Rightarrow> server_event" where
  "shared_event p (Accept a) = Accept a"
| "shared_event p (Thread k i) = Thread k (shared_input p i)"

datatype 'e process_event = PData 'e | PStats server_event | PHealth server_event | PSnapshot api_input

text \<open>The handlers hold references to the live tables: whatever they leave in the context is what the datapath finds.\<close>

definition put_context :: "stats_api_context \<Rightarrow> 'a relay_scheme process \<Rightarrow> 'a relay_scheme process" where
  "put_context ctx p =
     p\<lparr>pr_datapath := (pr_datapath p)\<lparr>g_sessions := sc_sessions ctx, g_session_traffic := sc_session_traffic ctx, g_stats := sc_stats ctx\<rparr>,
       pr_rate_window := sc_rate_window ctx, pr_snapshot := sc_connections_snapshot ctx\<rparr>"

fun process_step :: "started \<Rightarrow> ('e \<Rightarrow> 'a relay_scheme \<Rightarrow> 'a relay_scheme) \<Rightarrow> 'e process_event
    \<Rightarrow> 'a relay_scheme process \<Rightarrow> 'a relay_scheme process" where
  "process_step s step (PData e) p = p\<lparr>pr_datapath := step e (pr_datapath p)\<rparr>"
| "process_step s step (PStats e) p =
     (case sd_stats_server s of
        None \<Rightarrow> p
      | Some (port, token) \<Rightarrow>
          let (hs, ctx) = run_stats_http_server_blocking token (shared_event p e) (pr_stats p, process_context s p)
          in put_context ctx (p\<lparr>pr_stats := hs\<rparr>))"
| "process_step s step (PHealth e) p =
     (case sd_health_port s of
        None \<Rightarrow> p
      | Some port \<Rightarrow>
          let (hs, ctx) = run_health_http_server_blocking (shared_event p e) (pr_health p, process_context s p)
          in put_context ctx (p\<lparr>pr_health := hs\<rparr>))"
| "process_step s step (PSnapshot i) p =
     (case sd_stats_server s of
        None \<Rightarrow> p
      | Some _ \<Rightarrow> put_context (connections_snapshot_updater i (process_context s p)) p)"

definition process_start :: "started \<Rightarrow> server_os \<Rightarrow> server_os \<Rightarrow> 'v \<Rightarrow> 'v process" where
  "process_start s health_os stats_os v =
     \<lparr>pr_datapath = v, pr_rate_window = sc_rate_window (sd_context s), pr_snapshot = sc_connections_snapshot (sd_context s),
      pr_stats = run_stats_http_server stats_os, pr_health = spawn_health_http_server health_os\<rparr>"

fun datapath_events :: "'e process_event list \<Rightarrow> 'e list" where
  "datapath_events [] = []"
| "datapath_events (PData e # es) = e # datapath_events es"
| "datapath_events (PStats e # es) = datapath_events es"
| "datapath_events (PHealth e # es) = datapath_events es"
| "datapath_events (PSnapshot i # es) = datapath_events es"

section \<open>The two copies of the services agree\<close>

lemma services_agree: "v1_services = v2_services"
  by (auto simp: fun_eq_iff v1_services_def v2_services_def get_health_port_def stats_api_context_new_def Let_def split: option.split)

lemma started_services:
  assumes "relay_main p = Started s"
  shows "v2_services (pi_env p) (get_stats_port (pi_env p)) (get_stats_token (pi_env p)) (sc_runtime_config (sd_context s)) (pi_now p) (pi_now_unix p) =
    \<lparr>sr_context = sd_context s, sr_health_port = sd_health_port s, sr_stats_server = sd_stats_server s\<rparr>"
proof -
  obtain auth_config buffers tun where s: "s = start_datapath p auth_config buffers tun" by (rule relay_main_started [OF assms]) blast
  have "sd_context s = stats_api_context_new [] [] stats_new (sc_runtime_config (sd_context s)) (pi_now p) (pi_now_unix p)"
    unfolding s start_datapath_def Let_def split_beta by (simp add: stats_api_context_new_def)
  then show ?thesis
    unfolding services_agree [symmetric] v1_services_def Let_def s start_datapath_report
    by (simp split: option.split)
qed

section \<open>Watching the relay does not disturb it\<close>

text \<open>What the handlers could change, and that they leave alone.\<close>

definition live_tables :: "stats_api_context \<Rightarrow> sessions \<times> traffic \<times> stats" where
  "live_tables ctx = (sc_sessions ctx, sc_session_traffic ctx, sc_stats ctx)"

lemma handle_http_state:
  "snd (handle_http timed_out token route rs s) = s \<or> (\<exists>path. snd (handle_http timed_out token route rs s) = snd (route path s))"
proof -
  have "snd (answer_header token route header s) = s \<or> (\<exists>path. snd (answer_header token route header s) = snd (route path s))" for header
    by (cases "route (http_path header) s") (auto simp: answer_header_def split: option.split intro!: exI [of _ "http_path header"])
  then show ?thesis by (auto simp: handle_http_def Let_def split: request_read.split)
qed

lemma stats_thread_context:
  "sc_connections_snapshot (snd (stats_http_thread token i os ctx)) = sc_connections_snapshot ctx \<and>
   live_tables (snd (stats_http_thread token i os ctx)) = live_tables ctx"
proof -
  have route: "sc_connections_snapshot (snd (stats_route connections i path ctx)) = sc_connections_snapshot ctx \<and>
      live_tables (snd (stats_route connections i path ctx)) = live_tables ctx" for connections path
    by (simp add: stats_route_def render_stats_payload_def live_tables_def Let_def split_beta)
  have "snd (stats_http_thread token i os ctx) = ctx \<or>
      snd (stats_http_thread token i os ctx) = snd (handle_stats_http_client_blocking token i (st_reads os) ctx)"
    by (auto simp: stats_http_thread_def split_beta split: http_outcome.split prod.split)
  then show ?thesis
    using handle_http_state [of "\<lambda>e. e = Io TimedOut \<or> e = Io WouldBlock" token
        "stats_route render_connections_snapshot_payload i" "st_reads os" ctx] route [of render_connections_snapshot_payload]
    unfolding handle_stats_http_client_blocking_def by auto
qed

lemma stats_server_context:
  "sc_connections_snapshot (snd (run_stats_http_server_blocking token e (hs, ctx))) = sc_connections_snapshot ctx \<and>
   live_tables (snd (run_stats_http_server_blocking token e (hs, ctx))) = live_tables ctx"
  by (cases e) (simp_all add: run_stats_http_server_blocking_def split_beta Let_def stats_thread_context)

lemma health_server_context: "snd (run_health_http_server_blocking e (hs, ctx)) = ctx"
  by (cases e) (simp_all add: run_health_http_server_blocking_def split_beta Let_def)

lemma updater_context: "live_tables (connections_snapshot_updater i ctx) = live_tables ctx"
  by (simp add: connections_snapshot_updater_def store_connections_snapshot_def live_tables_def)

lemmas server_context = stats_server_context health_server_context updater_context

lemma put_context_datapath:
  assumes "live_tables ctx = live_tables (process_context s p)"
  shows "pr_datapath (put_context ctx p) = pr_datapath p"
  using assms by (simp add: put_context_def live_tables_def process_context_def context_at_def)

lemma process_context_servers [simp]:
  "process_context s (p\<lparr>pr_stats := hs\<rparr>) = process_context s p" "process_context s (p\<lparr>pr_health := hs\<rparr>) = process_context s p"
  by (simp_all add: process_context_def)

lemma put_context_servers [simp]:
  "pr_stats (put_context ctx p) = pr_stats p" "pr_health (put_context ctx p) = pr_health p"
  "pr_snapshot (put_context ctx p) = sc_connections_snapshot ctx"
  by (simp_all add: put_context_def)

lemma servers_datapath:
  "pr_datapath (process_step s step (PStats e) p) = pr_datapath p"
  "pr_datapath (process_step s step (PHealth e) p) = pr_datapath p"
  "pr_datapath (process_step s step (PSnapshot i) p) = pr_datapath p"
  by (simp_all add: split_beta Let_def put_context_datapath [where s = s] server_context split: option.split)

lemma process_datapath: "pr_datapath (fold (process_step s step) es p) = fold step (datapath_events es) (pr_datapath p)"
proof (induction es arbitrary: p)
  case (Cons e es)
  then show ?case by (cases e) (simp_all add: servers_datapath del: process_step.simps(2-4))
qed simp

text \<open>Where a snapshot comes from: the start, or the tables after some of the steps.\<close>

definition past_snapshot :: "started \<Rightarrow> ('e \<Rightarrow> 'a relay_scheme \<Rightarrow> 'a relay_scheme) \<Rightarrow> 'a relay_scheme \<Rightarrow> 'e list \<Rightarrow> string \<Rightarrow> bool" where
  "past_snapshot s step v0 ds t \<longleftrightarrow> t = sc_connections_snapshot (sd_context s) \<or>
     (\<exists>k \<le> length ds. \<exists>now_unix. let v = fold step (take k ds) v0
        in t = render_connections_payload (g_sessions v) (g_session_traffic v) now_unix)"

lemma past_snapshot_more: "past_snapshot s step v0 ds t \<Longrightarrow> past_snapshot s step v0 (ds @ es) t"
proof -
  have "take k (ds @ es) = take k ds" if "k \<le> length ds" for k using that by simp
  moreover assume "past_snapshot s step v0 ds t"
  ultimately show ?thesis unfolding past_snapshot_def Let_def by (metis le_trans length_append le_add1)
qed

lemma datapath_events_append: "datapath_events (es @ fs) = datapath_events es @ datapath_events fs"
  by (induction es rule: datapath_events.induct) simp_all

lemma process_snapshot:
  "past_snapshot s step v0 (datapath_events es) (pr_snapshot (fold (process_step s step) es (process_start s a b v0)))"
proof (induction es rule: rev_induct)
  case Nil
  then show ?case by (simp add: past_snapshot_def process_start_def)
next
  case (snoc e es)
  let ?p = "fold (process_step s step) es (process_start s a b v0)"
  have now: "past_snapshot s step v0 (datapath_events es)
      (render_connections_payload (g_sessions (pr_datapath ?p)) (g_session_traffic (pr_datapath ?p)) t)" for t
    unfolding past_snapshot_def Let_def process_datapath
    by (intro disjI2 exI [of _ "length (datapath_events es)"]) (auto simp: process_start_def)
  have "past_snapshot s step v0 (datapath_events es) (pr_snapshot (process_step s step e ?p))"
    using snoc now
    by (cases e) (auto simp: split_beta Let_def server_context process_context_def context_at_def connections_snapshot_updater_def
        store_connections_snapshot_def render_live_connections_def split: option.split)
  from past_snapshot_more [OF this, of "datapath_events [e]"] show ?case by (simp add: datapath_events_append)
qed

text \<open>
  C23. The two HTTP servers and the snapshot thread share the session table, the traffic
  counters and the statistics with the datapath and could change them, but however their
  steps are interleaved with those of a datapath the state of the datapath is the one
  its own steps alone give. The stored connections page is always the initial empty one
  or the rendering of the tables as they were after some of those steps.
\<close>

theorem watching_is_passive:
  "let p = fold (process_step s step) es (process_start s health_os stats_os v0)
   in pr_datapath p = fold step (datapath_events es) v0 \<and> past_snapshot s step v0 (datapath_events es) (pr_snapshot p)"
  unfolding Let_def process_datapath using process_snapshot by (simp add: process_start_def)

section \<open>Without the token a client learns nothing about the relay\<close>

definition presents_token :: "string \<Rightarrow> stream_os \<Rightarrow> bool" where
  "presents_token token os \<longleftrightarrow>
     (\<exists>n \<le> 8192. find_http_header_end (stream_bytes (st_reads os)) = Some n \<and>
        http_method (take n (stream_bytes (st_reads os))) = ''GET'' \<and>
        http_auth (take n (stream_bytes (st_reads os))) = Some (''Bearer '' @ token))"

lemma stats_thread_blind:
  assumes "\<not> presents_token token os"
  shows "fst (stats_http_thread token i os ctx) = fst (stats_http_thread token j os ctx')"
proof -
  have "handle_stats_http_client_blocking token i (st_reads os) ctx =
      (fst (handle_http (\<lambda>e. e = Io TimedOut \<or> e = Io WouldBlock) token no_pages (st_reads os) ()), ctx)" for i ctx
    unfolding handle_stats_http_client_blocking_def
    using assms by (intro stats_api.handle_unauthorized) (auto simp: presents_token_def stats_api.authorized_def MAX_HTTP_REQUEST_SIZE_def)
  then show ?thesis by (simp add: stats_http_thread_def split: http_outcome.split)
qed

text \<open>The streams the statistics server was given.\<close>

definition stats_streams :: "'e process_event list \<Rightarrow> stream_os set" where
  "stats_streams es = {os. \<exists>spawned. PStats (Accept (Some (os, spawned))) \<in> set es}"

definition blind_answer :: "string \<Rightarrow> stream_os set \<Rightarrow> stream_action list \<Rightarrow> bool" where
  "blind_answer token streams acts \<longleftrightarrow> acts = [Dropped] \<or>
     (\<exists>os \<in> streams. (\<exists>i ctx. snd (fst (stats_http_thread token i os ctx)) = acts) \<and>
        (presents_token token os \<or> (\<forall>i ctx. snd (fst (stats_http_thread token i os ctx)) = acts)))"

lemma thread_blind_answer: "os \<in> streams \<Longrightarrow> blind_answer token streams (snd (fst (stats_http_thread token i os ctx)))"
  unfolding blind_answer_def using stats_thread_blind by metis

lemma stats_step_blind:
  assumes "set (hs_clients hs) \<subseteq> streams" "\<forall>acts \<in> set (hs_done hs). blind_answer token streams acts"
    and "\<And>os spawned. e = Accept (Some (os, spawned)) \<Longrightarrow> os \<in> streams"
    and "run_stats_http_server_blocking token e (hs, ctx) = (hs', ctx')"
  shows "set (hs_clients hs') \<subseteq> streams \<and> (\<forall>acts \<in> set (hs_done hs'). blind_answer token streams acts)"
proof (cases e)
  case (Accept a)
  then have "hs' = stats_accept a hs" using assms(4) by (simp add: run_stats_http_server_blocking_def)
  then show ?thesis
    using assms(1-3) Accept by (auto simp: stats_accept_def blind_answer_def split: option.splits if_splits)
next
  case (Thread k i)
  have k: "hs_clients hs ! k \<in> streams" if "k < length (hs_clients hs)" using assms(1) nth_mem [OF that] by blast
  have "hs' = (if k < length (hs_clients hs) then finish_client k (snd (fst (stats_http_thread token i (hs_clients hs ! k) ctx))) hs else hs)"
    using assms(4) Thread by (auto simp: run_stats_http_server_blocking_def split_beta Let_def split: if_splits)
  then show ?thesis
    using assms(1,2) thread_blind_answer [OF k] by (auto simp: finish_client_def dest: in_set_takeD in_set_dropD)
qed

lemma blind_answer_mono: "blind_answer token streams acts \<Longrightarrow> streams \<subseteq> streams' \<Longrightarrow> blind_answer token streams' acts"
  unfolding blind_answer_def by blast

lemma process_blind:
  assumes "sd_stats_server s = Some (port, token)" and p_def: "\<And>es. p es = fold (process_step s step) es (process_start s a b v0)"
  shows "set (hs_clients (pr_stats (p es))) \<subseteq> stats_streams es \<and> (\<forall>acts \<in> set (hs_done (pr_stats (p es))). blind_answer token (stats_streams es) acts)"
proof (induction es rule: rev_induct)
  case Nil
  then show ?case by (simp add: p_def process_start_def run_stats_http_server_def stats_server_start_def server_new_def)
next
  case (snoc e es)
  have sub: "stats_streams es \<subseteq> stats_streams (es @ [e])" by (auto simp: stats_streams_def)
  have ih: "set (hs_clients (pr_stats (p es))) \<subseteq> stats_streams (es @ [e])"
    "\<forall>acts \<in> set (hs_done (pr_stats (p es))). blind_answer token (stats_streams (es @ [e])) acts"
    using snoc sub blind_answer_mono by blast+
  have "p (es @ [e]) = process_step s step e (p es)" by (simp add: p_def)
  then show ?case
  proof (cases e)
    case (PStats se)
    obtain hs' ctx' where r: "run_stats_http_server_blocking token (shared_event (p es) se) (pr_stats (p es), process_context s (p es)) = (hs', ctx')"
      by fastforce
    have "os \<in> stats_streams (es @ [e])" if "shared_event (p es) se = Accept (Some (os, spawned))" for os spawned
      using that PStats by (cases se) (auto simp: stats_streams_def)
    note stats_step_blind [OF ih this r]
    moreover have "pr_stats (p (es @ [e])) = hs'" using PStats assms(1) r by (simp add: p_def)
    ultimately show ?thesis by simp
  qed (use ih in \<open>auto simp: split_beta Let_def split: option.split\<close>)
qed

text \<open>
  C19. In a running relay, whatever the datapath, the servers and the snapshot thread do
  in whatever order, each finished connection of the statistics server was either
  dropped unanswered, or belongs to an accepted stream whose first 8192 bytes hold a
  complete header of a GET with the token, or received bytes that are the same for every
  state of the relay: without the token the answer depends only on what the client
  itself sent.
\<close>

theorem strangers_learn_nothing:
  assumes "sd_stats_server s = Some (port, token)"
    and "acts \<in> set (hs_done (pr_stats (fold (process_step s step) es (process_start s health_os stats_os v0))))"
  shows "acts = [Dropped] \<or>
    (\<exists>os \<in> stats_streams es. (\<exists>i ctx. snd (fst (stats_http_thread token i os ctx)) = acts) \<and>
       (presents_token token os \<or> (\<forall>i ctx. snd (fst (stats_http_thread token i os ctx)) = acts)))"
  using process_blind [OF assms(1) refl] assms(2) unfolding blind_answer_def by blast

section \<open>The process comes up or ends\<close>

lemma tun_start_expects:
  "tun_start p = Inr tun \<Longrightarrow> snd (snd tun) \<Longrightarrow> call \<in> {SpawnTunHandler, CloneForTunResponses, SpawnTunResponses} \<Longrightarrow> \<not> pi_expect_fails p call"
  "tun_start p = Inl call \<Longrightarrow> pi_expect_fails p call \<and> call \<noteq> CollectWakers"
  by (auto simp: tun_start_def Let_def split: if_splits sum.splits)

lemma started_expects:
  assumes "relay_main p = Started s"
  shows "\<not> pi_expect_fails p SpawnBudgetMaintenance"
    and "vc_tun_present (sd_config s) \<Longrightarrow> call \<in> {SpawnTunHandler, CloneForTunResponses, SpawnTunResponses} \<Longrightarrow> \<not> pi_expect_fails p call"
proof -
  show "\<not> pi_expect_fails p SpawnBudgetMaintenance" using assms by (auto simp: relay_main_def split: sum.splits option.splits if_splits)
  obtain auth_config buffers tun where "tun_start p = Inr tun" "s = start_datapath p auth_config buffers tun"
    by (rule relay_main_started [OF assms]) blast
  then show "vc_tun_present (sd_config s) \<Longrightarrow> call \<in> {SpawnTunHandler, CloneForTunResponses, SpawnTunResponses} \<Longrightarrow> \<not> pi_expect_fails p call"
    using tun_start_expects(1) by (simp add: start_datapath_fields)
qed

lemma panic_is_expected: "relay_main p = StartPanicked call \<Longrightarrow> pi_expect_fails p call \<and> call \<noteq> CollectWakers"
  using tun_start_expects(2) by (auto simp: relay_main_def split: sum.splits option.splits if_splits)

text \<open>
  C24. However the shard threads interleave, provided each is heard once and the channel
  of the wakers fails only after all of them have ended, the launch of the process does
  not hang waiting for wakers: it prints and ends, fails with the call that failed,
  exits with status 70 because the start of some shard failed, panics because the
  operating system refused one of five calls the source expects to succeed (spawning the
  budget maintenance, the TUN handler, the TUN response thread or the snapshot thread,
  or cloning the socket), or runs. A missing waker is never the reason of a panic. When
  it runs, none of the expected calls it made failed, and with the second datapath every
  shard has its own waker in its slot. Receiving a waker fails only if a shard failed to
  start.
\<close>

theorem launch_never_hangs:
  assumes "\<forall>s. relay_main p = Started s \<longrightarrow> every_shard_once (shard_count (sd_tuning s)) os es"
  shows "case launch p lo es of
      Running s wakers \<Rightarrow> relay_main p = Started s \<and>
        (sd_datapath s = V2 \<longrightarrow> length wakers = shard_count (sd_tuning s) \<and>
           (\<forall>i < shard_count (sd_tuning s). shard_prologue (os i) = Inr (wakers ! i))) \<and>
        \<not> pi_expect_fails p SpawnBudgetMaintenance \<and>
        (vc_tun_present (sd_config s) \<longrightarrow> \<not> pi_expect_fails p SpawnTunHandler \<and> \<not> pi_expect_fails p CloneForTunResponses \<and>
           \<not> pi_expect_fails p SpawnTunResponses) \<and>
        (sd_stats_server s \<noteq> None \<longrightarrow> \<not> pi_expect_fails p SpawnSnapshotUpdater)
    | Exited code \<Rightarrow> code = 70 \<and>
        (\<exists>s i r. relay_main p = Started s \<and> i < shard_count (sd_tuning s) \<and> shard_prologue (os i) = Inl r)
    | LaunchFailed e \<Rightarrow>
        (case e of StartError x \<Rightarrow> relay_main p = StartFailed x | NonblockingFailed \<Rightarrow> \<not> lo_nonblocking_ok lo
         | FromStdFailed \<Rightarrow> \<not> lo_from_std_ok lo
         | ThreadCall call \<Rightarrow> lo_fails lo call \<or> call = RecvWaker \<and>
             (\<exists>s i r. relay_main p = Started s \<and> i < shard_count (sd_tuning s) \<and> shard_prologue (os i) = Inl r))
    | PrintedAndDone t \<Rightarrow> relay_main p = Printed t
    | LaunchPanic call \<Rightarrow> pi_expect_fails p call \<and> call \<noteq> CollectWakers
    | StillStarting \<Rightarrow> False"
proof (cases "relay_main p")
  case (Started s)
  have "0 < shard_count (sd_tuning s)"
    by (rule relay_main_started [OF Started]) (use tuning_bounds [of "pi_cpus p" "pi_env p"] in \<open>auto simp: start_datapath_report(3)\<close>)
  note outcome = start_threads_outcome [OF assms [rule_format, OF Started] this, of "lo_fails lo"]
  note expects = started_expects [OF Started]
  show ?thesis
  proof (cases "sd_datapath s")
    case V2
    then show ?thesis
      using outcome Started expects
      by (cases "start_threads (sd_tuning s) (lo_fails lo) es") (auto simp: launch_def snapshot_updater_fails_def)
  qed (use expects in \<open>simp add: launch_def Started snapshot_updater_fails_def\<close>)
qed (use panic_is_expected in \<open>simp_all add: launch_def\<close>)

section \<open>The descriptor of the TUN device\<close>

text \<open>
  The handler closes its descriptor once, as its last action.  Both threads are joined
  before unless the reader could not be spawned: then the writer still holds it.
\<close>

lemma tun_run_closes: "butlast (tun_run writer_ok reader_ok fd) @ [CloseTun fd] = tun_run writer_ok reader_ok fd \<and> count_list (tun_run writer_ok reader_ok fd) (CloseTun fd) = 1"
  by (simp add: tun_run_def tun_drop_def)

lemma tun_run_joins:
  "SpawnWriter fd \<in> set (tun_run writer_ok reader_ok fd) \<and> JoinWriter \<notin> set (tun_run writer_ok reader_ok fd) \<longleftrightarrow> writer_ok \<and> \<not> reader_ok"
  by (auto simp: tun_run_def tun_drop_def)

section \<open>Witnesses\<close>

definition sample_started :: started where
  "sample_started = (case relay_main sample_process of Started s \<Rightarrow> s\<lparr>sd_stats_server := Some (8080, ''t'')\<rparr>)"

lemma sample_started_server: "sd_stats_server sample_started = Some (8080, ''t'')"
  using sample_process_starts by (auto simp: sample_started_def)

definition sample_server_os :: server_os where
  "sample_server_os = \<lparr>sv_spawn_ok = True, sv_bind_ok = True, sv_blocking_ok = True\<rparr>"

theorem strangers_learn_nothing_witness:
  "\<exists>acts. acts \<in> set (hs_done (pr_stats (fold (process_step sample_started (v1_step sample_config))
       [PStats (Accept (Some (sample_connection, True))), PStats (Thread 0 sample_input)] (process_start sample_started sample_server_os sample_server_os sample_v0)))) \<and>
     acts \<noteq> [Dropped] \<and>
     (\<exists>os \<in> {sample_connection}. (\<exists>i ctx. snd (fst (stats_http_thread ''t'' i os ctx)) = acts) \<and>
       (presents_token ''t'' os \<or> (\<forall>i ctx. snd (fst (stats_http_thread ''t'' i os ctx)) = acts)))"
proof -
  let ?es = "[PStats (Accept (Some (sample_connection, True))), PStats (Thread 0 sample_input)] :: v1_event process_event list"
  let ?p = "fold (process_step sample_started (v1_step sample_config)) ?es (process_start sample_started sample_server_os sample_server_os sample_v0)"
  have "\<exists>acts. hs_done (pr_stats ?p) = [acts] \<and> last acts = ShutdownBoth"
    by (simp add: sample_started_server sample_server_os_def process_start_def run_stats_http_server_def stats_server_start_def server_new_def run_stats_http_server_blocking_def
        stats_accept_def finish_client_def stats_http_thread_def split_beta Let_def)
  then obtain acts where acts: "acts \<in> set (hs_done (pr_stats ?p))" "acts \<noteq> [Dropped]" by fastforce
  have "stats_streams ?es = {sample_connection}" by (auto simp: stats_streams_def)
  then show ?thesis using strangers_learn_nothing [OF sample_started_server acts(1)] acts by metis
qed

definition sample_launch :: launch_os where
  "sample_launch = \<lparr>lo_nonblocking_ok = True, lo_from_std_ok = True, lo_fails = (\<lambda>call. False)\<rparr>"

theorem launch_never_hangs_witness:
  "\<exists>s wakers. launch sample_process sample_launch (map (\<lambda>i. shard_boot i (sample_os i)) [0..<4]) = Running s wakers"
proof -
  obtain s where s: "relay_main sample_process = Started s" using sample_process_starts by blast
  let ?es = "map (\<lambda>i. shard_boot i (sample_os i)) [0..<4]"
  have "sd_tuning s = relay_v2_tuning (pi_cpus sample_process) (pi_env sample_process)"
    by (rule relay_main_started [OF s]) (simp add: start_datapath_report(3))
  then have n: "shard_count (sd_tuning s) = 4"
    by (auto simp: relay_v2_tuning_def get_shard_count_def env_or_def parse_usize_env_def clamp_usize_def sample_process_def sample_env_def)
  have boot: "shard_boot i (sample_os i) = Publish i (100 + i)" "shard_prologue (sample_os i) = Inr (100 + i)" for i
    by (simp_all add: shard_boot_def shard_prologue_def sample_os_def)
  have "filter (\<lambda>e. boot_shard e = Some i) ?es = [shard_boot i (sample_os i)]" if "i < 4" for i
    using that by (auto simp: boot upt_rec less_Suc_eq numeral_eq_Suc)
  moreover have "i < 4" if "e \<in> set ?es" "boot_shard e = Some i" for e i using that by (auto simp: boot)
  moreover have "RecvError \<notin> set ?es" by (auto simp: boot)
  ultimately have "every_shard_once 4 sample_os ?es" unfolding every_shard_once_def by blast
  then have "\<forall>s. relay_main sample_process = Started s \<longrightarrow> every_shard_once (shard_count (sd_tuning s)) sample_os ?es"
    using s n by simp
  from launch_never_hangs [OF this, of sample_launch] show ?thesis
    using s
    by (cases "launch sample_process sample_launch ?es") (auto simp: boot(2) sample_launch_def sample_process_def split: launch_error.splits)
qed

section \<open>Clocks\<close>

text \<open>
  The clock of leases never runs backwards when the system clock does not, and the clock
  of the budgets does not within 2^64 milliseconds of its start.
\<close>

lemma unix_timestamp_secs_mono: "a \<le> b \<Longrightarrow> unix_timestamp_secs a \<le> unix_timestamp_secs b"
  by (simp add: unix_timestamp_secs_def zdiv_mono1 nat_mono)

lemma mono_timestamp_ms_mono:
  assumes "s \<le> a" "a \<le> b" "(b - s) div 1000000 < 2 ^ 64"
  shows "unat (fst (mono_timestamp_ms n a (Some s))) \<le> unat (fst (mono_timestamp_ms m b (Some s)))"
proof -
  have "(a - s) div 1000000 \<le> (b - s) div 1000000" using assms by (simp add: div_le_mono)
  then show ?thesis using assms by (simp add: mono_timestamp_ms_def saturating_duration_since_def unat_of_nat)
qed

end
