(* ===== verification/Spec2Isabelle.thy ===== *)
theory Spec2Isabelle
  imports Process
begin

text \<open>
  A verification library for the SwiftTunnel relay (\<^verbatim>\<open>src/src\<close>).

  The program.  The relay receives UDP datagrams from clients.  A datagram names a session
  and carries a control frame or an IPv4 packet.  Admission checks tickets, leases, source
  addresses and rate limits; packets that pass the destination filter and the account
  budget go to game servers through one socket per flow, or to a TUN device; responses
  return to the endpoint the session has at that moment.  There are two implementations of
  the data path: tokio tasks in \<^verbatim>\<open>main.rs\<close> (first datapath) and threads with sharded
  tables and a buffer pool in \<^verbatim>\<open>datapath_v2.rs\<close> (second datapath).  An HTTP server reports
  statistics to holders of a token, and a second one answers health probes.

  Conventions.  A struct is a record, an enum a datatype, bytes are \<^typ>\<open>8 word list\<close>, counters
  are words of their width, a Rust string is the list of its UTF-8 bytes, a monotonic time is
  a number of nanoseconds, a \<^verbatim>\<open>DashMap\<close> an association list with distinct keys.  Errors are
  values.  An operation takes the state and returns the new one.  What the program does to
  the outside (datagrams to clients, datagrams to servers, packets to the device) is recorded
  in lists of the state that no operation reads.  Cryptography, base64, the JSON library, the
  hash of the limiter buckets, the resolver, the clocks and the answers of the operating
  system are arguments.  A handler, an iteration of a loop and one burst of a shard are single
  steps; the datapaths are the sequences of such steps in any order (\<^term>\<open>v1_reach\<close>,
  \<^term>\<open>v2_reach\<close>).

  Theories, in the order of imports.

  \<^item> \<^verbatim>\<open>Relay_Prelude\<close>: machine types, saturating arithmetic, maps and their laws (locale
    \<^verbatim>\<open>map_store\<close>), shared lemmas.  \<^verbatim>\<open>Rust_Str\<close>: the string functions of the standard library
    that the program uses.
  \<^item> \<^verbatim>\<open>Net_Addr\<close>: addresses, forbidden destinations and ports (\<^verbatim>\<open>is_forbidden_dst\<close>).
    \<^verbatim>\<open>Checksum\<close>: \<^verbatim>\<open>calculate_ip_checksum\<close> and its incremental update.  \<^verbatim>\<open>Relay_Stats\<close>: \<^verbatim>\<open>Stats\<close>
    and the drop reasons, which add up to the drop counters.
  \<^item> \<^verbatim>\<open>Dest_Policy\<close> (\<^verbatim>\<open>dest_policy.rs\<close>): the allowlist file, the decision and its equivalence
    with membership in a prefix, the counters and the sample.
  \<^item> \<^verbatim>\<open>Packet\<close>: \<^verbatim>\<open>parse_ip_packet_full\<close> and the builders of response packets of both datapaths,
    which agree and parse back.
  \<^item> \<^verbatim>\<open>Rate_Limit\<close>: the windows per source and the buckets of unauthenticated senders (locale
    \<^verbatim>\<open>window_limiter\<close>).  \<^verbatim>\<open>Ticket\<close>: configuration of authentication, verification of tickets,
    the replay cache.  \<^verbatim>\<open>Session\<close>: entries, traffic counters, counts per source, leases.
    \<^verbatim>\<open>Gate\<close>: the admission half of the receive loop, written over a channel for
    acknowledgements (locales \<^verbatim>\<open>ack_channel\<close> and \<^verbatim>\<open>gate_frame\<close>, interpreted by both datapaths).
  \<^item> \<^verbatim>\<open>Json_Value\<close>, \<^verbatim>\<open>Account_Budget\<close> (\<^verbatim>\<open>account_budget.rs\<close>): budgets per account, events,
    maintenance.  \<^verbatim>\<open>Resolve\<close>: host name requests.  \<^verbatim>\<open>Tcp_Tun\<close> (\<^verbatim>\<open>tcp_tun.rs\<close>): addresses of
    sessions on the device, rewriting, checksums.  \<^verbatim>\<open>Wire\<close>: control frames, flow keys, error
    classes.
  \<^item> \<^verbatim>\<open>Relay_Core\<close>: what both datapaths share besides admission.  \<^verbatim>\<open>Datapath_V1\<close>: the receive
    loop, flow tasks, response task, TUN threads and cleanup of \<^verbatim>\<open>main.rs\<close>.  \<^verbatim>\<open>V1_Invariant\<close>
    proves its invariant, \<^verbatim>\<open>V1_Safety\<close> what follows for clients and operators.
  \<^item> \<^verbatim>\<open>Buffer_Pool\<close> (locale \<^verbatim>\<open>slot_pool\<close>), \<^verbatim>\<open>Tuning\<close>, \<^verbatim>\<open>Shard\<close>, \<^verbatim>\<open>Datapath_V2\<close>: pool, sizes, tables
    of a shard, and the receive, shard, transmit, cleanup and statistics threads of
    \<^verbatim>\<open>datapath_v2.rs\<close>.  \<^verbatim>\<open>V2_Invariant\<close> and \<^verbatim>\<open>V2_Safety\<close> are as for the first datapath; the
    locale \<^verbatim>\<open>ack_pair\<close> relates the admission of the two.
  \<^item> \<^verbatim>\<open>Http\<close>: reading and answering a request (locale \<^verbatim>\<open>http_service\<close>).  \<^verbatim>\<open>Float64\<close>: rounding to
    double precision.  \<^verbatim>\<open>Json_Text\<close>: a reader of JSON text.  \<^verbatim>\<open>Stats_Report\<close>: the contents of
    the pages.  \<^verbatim>\<open>Stats_Api\<close>: the handlers and the health probe.  \<^verbatim>\<open>Server\<close>: what a connection
    does to its stream and the accept loops of the two servers (locale \<^verbatim>\<open>accept_loop\<close>).
    \<^verbatim>\<open>Startup\<close>: \<^verbatim>\<open>main\<close> up to the start of a datapath, \<^verbatim>\<open>bind_main_socket\<close> and the creation of
    the TUN device.
  \<^item> \<^verbatim>\<open>Lease_Spec\<close>: an abstract table of leases that both datapaths refine (locale
    \<^verbatim>\<open>lease_table\<close>).  \<^verbatim>\<open>Shard_Thread\<close>: \<^verbatim>\<open>run_shard\<close> around the steps of a shard, flow sockets,
    \<^verbatim>\<open>recv_flow_response\<close>, \<^verbatim>\<open>supervise_critical_thread\<close> and the start of the threads in
    \<^verbatim>\<open>run_datapath_v2\<close>.
  \<^item> \<^verbatim>\<open>Process\<close>: the services each datapath starts, the launch with its failures, the threads
    of the TUN handler, and a running relay as an interleaving of a datapath, the two servers
    and the snapshot thread.
  \<^item> This theory: what the pages say about a running relay.

  What the lemmas show.  Admission: payload only from the owner of a session with a running
  lease, sessions keep their owner, tickets are authentic and accepted once, rates and tables
  are bounded.  Forwarding: nothing goes to a forbidden destination, payloads and responses
  are not mixed up or sent to stale endpoints, buffers belong to one packet at a time, packets
  and checksums stay valid through rewriting.  Time: idle flows and expired sessions go away,
  searches end.  Equivalences: both datapaths admit alike and build the same responses.
  Statistics: no page without the token, complete requests are served however they are cut
  into reads, pages read back, and the statistics page balances and counts the sessions.
  Start-up: authentication is on unless switched off twice, the reported configuration is the
  one that runs, and the launch does not hang once every shard thread has been heard and
  panics only when the operating system refuses a call that the source expects to succeed.
  Refinement: the session tables implement the table of leases, and the loop of a shard is a run of the datapath with a bounded amount of work per iteration.  The whole
  process: watching the relay does not change what it forwards, and without the token what a
  client reads does not depend on the state of the relay.

  Bounds and fuel.  A burst of a shard is a list of events cut at the bound of the source
  (64 receives, 1024 messages), so shorter bursts give every interleaving.  The search for a
  poll token is a partial function and is proved to return.  The reader of JSON text takes
  the length of the text as fuel, which is proved to be enough for the texts the relay writes.
  A connection of the HTTP server is the list of the results of its reads; a list that ends
  stands for a closed stream.  The shard threads, the servers and the process take lists of
  the answers of the operating system; a list that ends stands for as much as has happened.

  Not modelled.  The bodies of third-party code and of the operating system: polling, channels,
  the byte layout of control messages (\<^verbatim>\<open>extract_ipv4_tos_from_control\<close> walks the list of their
  headers), socket options beyond their success; the log, except for the line about replayed
  tickets; the formatting of the periodic statistics line; weak memory orderings of the
  counters, since a step is atomic; poisoned locks, from which the source recovers the value;
  the stub of \<^verbatim>\<open>tcp_tun.rs\<close> and the variant of \<^verbatim>\<open>recv_flow_response\<close> for other systems than
  Linux and Unix; tests.
\<close>

section \<open>Pages about a running relay\<close>

text \<open>A page whose drop reasons add up to its drop counters, modulo the width of a counter.\<close>

fun json_num :: "json \<Rightarrow> nat" where
  "json_num (JNum n) = n"
| "json_num _ = 0"

definition balanced_page :: "json \<Rightarrow> nat \<Rightarrow> bool" where
  "balanced_page page n \<longleftrightarrow>
     (\<exists>fields drops a b. page = JObj fields \<and> (''drops'', JObj drops) \<in> set fields \<and> (''dropped_in'', JNum a) \<in> set fields \<and>
        (''dropped_out'', JNum b) \<in> set fields \<and> (''active_sessions'', JNum n) \<in> set fields \<and>
        (\<Sum>(k, v) \<leftarrow> drops. json_num v) mod 2 ^ 64 = (a + b) mod 2 ^ 64)"

lemma drops_sum: "(of_nat (\<Sum>(k, v) \<leftarrow> ds. json_num v) :: u64) = drop_total c" if "drops_to_json c = JObj ds"
  using that by (auto simp: drops_to_json_def junat_def drop_total_def)

lemma stats_page_balanced:
  assumes "gate_ok g"
  shows "balanced_page (stats_json (g_stats g) config rates secs now_unix) (dm_len (g_sessions g))"
proof -
  let ?s = "g_stats g"
  obtain ds where ds: "drops_to_json (drop_reasons ?s) = JObj ds" by (simp add: drops_to_json_def)
  have "(of_nat (\<Sum>(k, v) \<leftarrow> ds. json_num v) :: u64) = of_nat (unat (dropped_in ?s) + unat (dropped_out ?s))"
    using assms drops_sum [OF ds] by (simp add: gate_ok_def drops_balanced_def)
  from arg_cong [OF this, of unat] have sum: "(\<Sum>(k, v) \<leftarrow> ds. json_num v) mod 2 ^ 64 = (unat (dropped_in ?s) + unat (dropped_out ?s)) mod 2 ^ 64"
    by (simp add: unat_of_nat unat_word_ariths(1))
  have "unat (active_sessions ?s) = dm_len (g_sessions g)"
    using assms by (simp add: gate_ok_def MAX_SESSIONS_TOTAL_def unat_of_nat)
  then show ?thesis using sum ds by (simp add: balanced_page_def stats_json_def junat_def Let_def)
qed

lemma stats_page_of:
  fixes g :: "'a gate_scheme"
  assumes "gate_ok g"
  shows "\<exists>page. fst (stats_route connections i ''/v1/stats'' ((context_at s g)\<lparr>sc_rate_window := window, sc_connections_snapshot := snapshot\<rparr>)) =
      Some (ai_to_string i page) \<and> balanced_page page (dm_len (g_sessions g))"
proof -
  let ?ctx = "(context_at s g)\<lparr>sc_rate_window := window, sc_connections_snapshot := snapshot\<rparr>"
  let ?page = "stats_json (g_stats g) (sc_runtime_config ?ctx)
    (fst (sample_stats_rates window (bytes_in (g_stats g)) (bytes_out (g_stats g)) (ai_now i))) (elapsed_secs i ?ctx) (ai_now_unix i)"
  have "fst (stats_route connections i ''/v1/stats'' ?ctx) = Some (ai_to_string i ?page)"
    by (simp add: stats_route_def render_stats_payload_def context_at_def Let_def split_beta)
  then show ?thesis using stats_page_balanced [OF assms] by fastforce
qed

text \<open>
  C20. In every reachable state of a started relay, with either datapath and whatever
  the rate window and the stored connections page are, the drop reasons on the
  statistics page add up to its two drop counters modulo 2^64, and the number of active
  sessions on it is the number of entries of the session table at that moment.
\<close>

theorem stats_pages_balance:
  assumes "relay_main p = Started s"
    and "v1_reach (v1_config_of s) (v1_init now (sd_policy s) (sd_budget s)) v"
    and "v2_reach (v2_config_of b s) (v2_init (v2_config_of b s) now (sd_policy s) (sd_budget s)) w"
  shows "(\<exists>page. fst (stats_route connections i ''/v1/stats''
        ((context_at s v)\<lparr>sc_rate_window := window, sc_connections_snapshot := snapshot\<rparr>)) = Some (ai_to_string i page) \<and>
      balanced_page page (dm_len (g_sessions v))) \<and>
    (\<exists>page. fst (stats_route connections i ''/v1/stats''
        ((context_at s w)\<lparr>sc_rate_window := window, sc_connections_snapshot := snapshot\<rparr>)) = Some (ai_to_string i page) \<and>
      balanced_page page (dm_len (g_sessions w)))"
proof -
  have v: "gate_ok v" using v1_reach_ok [OF assms(2) v1_ok_init] by (simp add: v1_ok_def relay_ok_def)
  have w: "gate_ok w" using v2_reach_ok [OF assms(3) v2_ok_init] by (simp add: v2_ok_def)
  show ?thesis using stats_page_of [OF v] stats_page_of [OF w] by blast
qed

definition sample_running :: "started \<Rightarrow> v1_state" where
  "sample_running s = v1_step (v1_config_of s) (V1Rx (sample_event [1, 2, 3])) (v1_init 0 (sd_policy s) (sd_budget s))"

theorem stats_pages_balance_witness:
  "\<exists>s page. relay_main sample_process = Started s \<and>
    fst (stats_route render_live_connections sample_input ''/v1/stats''
      ((context_at s (sample_running s))\<lparr>sc_rate_window := stats_rate_window_new, sc_connections_snapshot := []\<rparr>)) =
      Some (ai_to_string sample_input page) \<and>
    balanced_page page (dm_len (g_sessions (sample_running s)))"
proof -
  obtain s where s: "relay_main sample_process = Started s" using sample_process_starts by blast
  have "v1_reach (v1_config_of s) (v1_init 0 (sd_policy s) (sd_budget s)) (sample_running s)"
    unfolding sample_running_def by (rule v1_next [OF v1_start])
  from stats_pages_balance [OF s this v2_start, where b = True and connections = render_live_connections and i = sample_input
      and window = stats_rate_window_new and snapshot = "[]"]
  show ?thesis using s by blast
qed

section \<open>Checksums and forbidden destinations\<close>

text \<open>
  Storing the computed checksum in a zeroed, aligned checksum field makes the
  checksum of the header zero, which is how a receiver verifies it.
\<close>

theorem checksum_stored_verifies:
  assumes "length h \<le> 131073" and "2 * k + 1 < length h"
    and "h ! (2 * k) = 0" and "h ! (2 * k + 1) = 0"
  shows "calculate_ip_checksum
    (h[2 * k := hi8 (calculate_ip_checksum h), 2 * k + 1 := lo8 (calculate_ip_checksum h)]) = 0"
  using assms by (rule checksum_stored) simp

theorem checksum_stored_verifies_witness:
  "calculate_ip_checksum [hi8 (calculate_ip_checksum [0, 0, 0x45, 7]),
     lo8 (calculate_ip_checksum [0, 0, 0x45, 7]), 0x45, 7] = 0"
  using checksum_stored_verifies [of "[0, 0, 0x45, 7]" 0] by simp

text \<open>
  Adjusting a transport checksum for a changed IPv4 address gives the checksum
  recomputed over the message with the new address, for every message of up to 131073
  bytes with some non-zero byte in which the address stands at an even offset.
\<close>

theorem incremental_checksum:
  assumes "even (length pre)" and "length (pre @ octets new @ post) \<le> 131073"
    and "\<exists>b\<in>set (pre @ octets new @ post). b \<noteq> 0"
  shows "adjust_checksum_for_ipv4_addr_change (calculate_ip_checksum (pre @ octets old @ post)) old new
     = calculate_ip_checksum (pre @ octets new @ post)"
  using assms by (rule adjust_checksum_message)

theorem incremental_checksum_witness:
  "adjust_checksum_for_ipv4_addr_change
     (calculate_ip_checksum ([0x45, 0] @ octets (Ipv4 10 0 0 2) @ [1])) (Ipv4 10 0 0 2) (Ipv4 10 200 1 2)
   = calculate_ip_checksum ([0x45, 0] @ octets (Ipv4 10 200 1 2) @ [1])"
  by (rule incremental_checksum) simp_all

text \<open>
  The relay refuses exactly the addresses of nine reserved IPv4 blocks: this
  network, private, shared, loopback, link-local, multicast and reserved space.
\<close>

theorem forbidden_destinations_are_the_blocks:
  "is_forbidden_dst ip \<longleftrightarrow> (\<exists>blk\<in>set forbidden_blocks. in_block (ipv4_val ip) blk)"
  by (rule is_forbidden_dst_blocks)

end
